(* ===== verification/Prelude.thy ===== *)
theory Prelude
  imports Main
begin

text \<open>
  What every component of the model shares: the outcomes of C++ code that are not ordinary
  values, the state-and-exception computations in which the stateful functions are written,
  a weakest-precondition calculus for them, and generic transition systems with invariants.

  A C++ function that throws keeps the writes it made before the throw, so a computation
  returns its outcome together with the state in both cases.
\<close>

section \<open>Outcomes\<close>

text \<open>
  The ways in which an expression of the program has undefined behaviour. Each is the value of
  the branch of the model where the C++ standard (or the documented precondition of a library
  call) no longer says what happens; a computation that reaches one stops there.
\<close>

datatype ub =
    Deref_end
  | Erase_end
  | Front_of_empty
  | Invalidated_iterator
  | Dangling_reference
  | Null_pointer
  | Buffer_overread
  | Result_index
  | Empty_optional
  | Uninitialised_read
  | Container_index

text \<open>
  \<open>Invalid_argument\<close>, \<open>Out_of_range\<close> and \<open>Runtime_error\<close> are the standard exceptions the
  sources throw or let a string operation throw; \<open>System_error\<close> is what the throwing forms of the
  socket calls raise and \<open>Pqxx_error\<close> what the database calls raise. \<open>Hangs\<close> stands for a call
  that never returns.
\<close>

datatype error =
    Invalid_argument string
  | Out_of_range
  | Runtime_error string
  | System_error
  | Pqxx_error
  | Hangs
  | UB ub

fun is_ub :: "error \<Rightarrow> bool" where
  "is_ub (UB _) = True"
| "is_ub _ = False"

section \<open>Computations\<close>

type_synonym ('s, 'a) cmd = "'s \<Rightarrow> (error + 'a) \<times> 's"

definition ret :: "'a \<Rightarrow> ('s, 'a) cmd" where
  "ret x = (\<lambda>s. (Inr x, s))"

definition throw :: "error \<Rightarrow> ('s, 'a) cmd" where
  "throw e = (\<lambda>s. (Inl e, s))"

definition bindE :: "('s, 'a) cmd \<Rightarrow> ('a \<Rightarrow> ('s, 'b) cmd) \<Rightarrow> ('s, 'b) cmd" where
  "bindE m f = (\<lambda>s. case m s of (Inl e, s') \<Rightarrow> (Inl e, s') | (Inr x, s') \<Rightarrow> f x s')"

definition thenE :: "('s, 'a) cmd \<Rightarrow> ('s, 'b) cmd \<Rightarrow> ('s, 'b) cmd" where
  "thenE m n = bindE m (\<lambda>_. n)"

definition gets :: "('s \<Rightarrow> 'a) \<Rightarrow> ('s, 'a) cmd" where
  "gets f = (\<lambda>s. (Inr (f s), s))"

definition update :: "('s \<Rightarrow> 's) \<Rightarrow> ('s, unit) cmd" where
  "update f = (\<lambda>s. (Inr (), f s))"

definition lift :: "error + 'a \<Rightarrow> ('s, 'a) cmd" where
  "lift r = (\<lambda>s. (r, s))"

text \<open>A range-based \<open>for\<close> over a container that the body cannot change.\<close>

fun for_each :: "('a \<Rightarrow> ('s, unit) cmd) \<Rightarrow> 'a list \<Rightarrow> ('s, unit) cmd" where
  "for_each f [] = ret ()"
| "for_each f (x # xs) = thenE (f x) (for_each f xs)"

text \<open>
  The rules that run a computation on a state. \<open>run\<close> collects them together with the rules of the
  other theories that say what an operation does from a given state.
\<close>

named_theorems run

lemma run_ret [run]: "ret x s = (Inr x, s)"
  by (simp add: ret_def)

lemma run_throw [run]: "throw e s = (Inl e, s)"
  by (simp add: throw_def)

lemma run_gets [run]: "gets f s = (Inr (f s), s)"
  by (simp add: gets_def)

lemma run_update [run]: "update f s = (Inr (), f s)"
  by (simp add: update_def)

lemma run_lift [run]: "lift r s = (r, s)"
  by (simp add: lift_def)

lemma run_bind [run]:
  "bindE m f s = (case m s of (Inl e, s') \<Rightarrow> (Inl e, s') | (Inr x, s') \<Rightarrow> f x s')"
  by (simp add: bindE_def)

lemma run_then [run]:
  "thenE m n s = (case m s of (Inl e, s') \<Rightarrow> (Inl e, s') | (Inr x, s') \<Rightarrow> n s')"
  by (simp add: thenE_def bindE_def)

lemma run_bind_Inr: "m s = (Inr x, s') \<Longrightarrow> bindE m f s = f x s'"
  by (simp add: run_bind)

lemma run_bind_Inl: "m s = (Inl e, s') \<Longrightarrow> bindE m f s = (Inl e, s')"
  by (simp add: run_bind)

lemma run_then_Inr: "m s = (Inr x, s') \<Longrightarrow> thenE m n s = n s'"
  by (simp add: run_then)

lemma run_then_Inl: "m s = (Inl e, s') \<Longrightarrow> thenE m n s = (Inl e, s')"
  by (simp add: run_then)

text \<open>The monad laws, as far as the proofs use them.\<close>

lemma bind_ret_left: "bindE (ret x) f = f x"
  by (simp add: fun_eq_iff run_bind run_ret)

lemma then_assoc: "thenE (thenE m n) k = thenE m (thenE n k)"
  by (simp add: fun_eq_iff run_then split: sum.splits prod.splits)

lemma for_each_append: "for_each f (xs @ ys) = thenE (for_each f xs) (for_each f ys)"
proof (induction xs)
  case Nil
  show ?case by (simp add: fun_eq_iff run_then run_ret)
next
  case (Cons x xs)
  then show ?case by (simp add: then_assoc)
qed

section \<open>Weakest preconditions\<close>

text \<open>
  \<open>wp m Q R s\<close>: run from \<open>s\<close>, the computation \<open>m\<close> either returns a value and a state that satisfy
  \<open>Q\<close> or throws with an error and a state that satisfy \<open>R\<close>. The equations for the combinators
  let the simplifier push a postcondition through a whole function body.
\<close>

definition wp :: "('s, 'a) cmd \<Rightarrow> ('a \<Rightarrow> 's \<Rightarrow> bool) \<Rightarrow> (error \<Rightarrow> 's \<Rightarrow> bool) \<Rightarrow> 's \<Rightarrow> bool" where
  "wp m Q R s = (case m s of (Inl e, s') \<Rightarrow> R e s' | (Inr x, s') \<Rightarrow> Q x s')"

named_theorems wp_simps

lemma wp_ret [wp_simps]: "wp (ret x) Q R s = Q x s"
  by (simp add: wp_def run_ret)

lemma wp_throw [wp_simps]: "wp (throw e) Q R s = R e s"
  by (simp add: wp_def run_throw)

lemma wp_gets [wp_simps]: "wp (gets f) Q R s = Q (f s) s"
  by (simp add: wp_def run_gets)

lemma wp_update [wp_simps]: "wp (update f) Q R s = Q () (f s)"
  by (simp add: wp_def run_update)

lemma wp_lift [wp_simps]: "wp (lift r) Q R s = (case r of Inl e \<Rightarrow> R e s | Inr x \<Rightarrow> Q x s)"
  by (simp add: wp_def run_lift)

lemma wp_bind [wp_simps]: "wp (bindE m f) Q R s = wp m (\<lambda>x. wp (f x) Q R) R s"
  by (simp add: wp_def run_bind split: sum.splits prod.splits)

lemma wp_then [wp_simps]: "wp (thenE m n) Q R s = wp m (\<lambda>_. wp n Q R) R s"
  by (simp add: thenE_def wp_bind)

lemma wp_if [wp_simps]: "wp (if b then m else n) Q R s = (if b then wp m Q R s else wp n Q R s)"
  by simp

text \<open>The same without the state, for what stands under an abstraction.\<close>

lemma wp_eta:
  "wp (ret x) Q R = Q x"
  "wp (bindE m f) Q R = wp m (\<lambda>x. wp (f x) Q R) R"
  "wp (thenE m n) Q R = wp m (\<lambda>_. wp n Q R) R"
  by (simp_all add: fun_eq_iff wp_ret wp_bind wp_then)

lemma wp_for_each_Nil [wp_simps]: "wp (for_each f []) Q R s = Q () s"
  by (simp add: wp_ret)

lemma wp_mono:
  assumes "wp m Q R s"
    and "\<And>x s'. Q x s' \<Longrightarrow> Q' x s'" and "\<And>e s'. R e s' \<Longrightarrow> R' e s'"
  shows "wp m Q' R' s"
  using assms by (auto simp: wp_def split: sum.splits prod.splits)

lemma wp_run_Inr: "m s = (Inr x, s') \<Longrightarrow> wp m Q R s = Q x s'"
  by (simp add: wp_def)

lemma wp_run_Inl: "m s = (Inl e, s') \<Longrightarrow> wp m Q R s = R e s'"
  by (simp add: wp_def)

lemma wpD_Inr: "wp m Q R s \<Longrightarrow> m s = (Inr x, s') \<Longrightarrow> Q x s'"
  by (simp add: wp_def)

lemma wpD_Inl: "wp m Q R s \<Longrightarrow> m s = (Inl e, s') \<Longrightarrow> R e s'"
  by (simp add: wp_def)

lemma wp_ok_run:
  assumes "wp m P (\<lambda>_ _. False) s"
  obtains x s' where "m s = (Inr x, s')" and "P x s'"
  using assms by (cases "m s"; cases "fst (m s)") (auto simp: wp_def)

lemma wp_conj:
  "wp m Q R s \<Longrightarrow> wp m Q' R' s \<Longrightarrow> wp m (\<lambda>x t. Q x t \<and> Q' x t) (\<lambda>e t. R e t \<and> R' e t) s"
  by (simp add: wp_def split: sum.splits prod.splits)

text \<open>A loop keeps what each of its iterations keeps.\<close>

lemma wp_for_each:
  assumes "I s"
    and "\<And>x t. x \<in> set xs \<Longrightarrow> I t \<Longrightarrow> wp (f x) (\<lambda>_. I) R t"
  shows "wp (for_each f xs) (\<lambda>_. I) R s"
  using assms
proof (induction xs arbitrary: s)
  case Nil
  then show ?case by (simp add: wp_simps)
next
  case (Cons x xs)
  have "wp (f x) (\<lambda>_. I) R s"
    using Cons.prems by simp
  then have "wp (f x) (\<lambda>_. wp (for_each f xs) (\<lambda>_. I) R) R s"
    by (rule wp_mono) (use Cons in auto)
  then show ?case by (simp add: wp_simps)
qed

lemma concat_map_if_filter:
  "concat (map (\<lambda>x. if P x then [] else [f x]) xs) = map f (filter (\<lambda>x. \<not> P x) xs)"
  by (induction xs) simp_all

section \<open>Transition systems\<close>

text \<open>
  The long-running parts of the program (the client loop, a channel's thread, the server with its
  threads) are transition systems. An invariant that holds initially and that every step keeps
  holds in every reachable state; the induction is done once here.
\<close>

inductive reaches :: "('s \<Rightarrow> bool) \<Rightarrow> ('s \<Rightarrow> 's \<Rightarrow> bool) \<Rightarrow> 's \<Rightarrow> bool"
  for init :: "'s \<Rightarrow> bool" and step :: "'s \<Rightarrow> 's \<Rightarrow> bool" where
  reaches_init: "init s \<Longrightarrow> reaches init step s"
| reaches_step: "reaches init step s \<Longrightarrow> step s t \<Longrightarrow> reaches init step t"

locale invariant_system =
  fixes init :: "'s \<Rightarrow> bool"
    and step :: "'s \<Rightarrow> 's \<Rightarrow> bool"
    and inv :: "'s \<Rightarrow> bool"
  assumes init_inv: "init s \<Longrightarrow> inv s"
    and step_inv: "inv s \<Longrightarrow> step s t \<Longrightarrow> inv t"
begin

lemma reachable_inv: "reaches init step s \<Longrightarrow> inv s"
  by (induction rule: reaches.induct) (auto intro: init_inv step_inv)

lemma steps_inv: "step\<^sup>*\<^sup>* s t \<Longrightarrow> inv s \<Longrightarrow> inv t"
  by (induction rule: rtranclp_induct) (auto intro: step_inv)

end

end
