(* ===== verification/Std_String.thy ===== *)
theory Std_String
  imports Prelude
begin

text \<open>
  The part of the C++ standard library's strings that the sources use: \<open>find\<close>, \<open>substr\<close>,
  concatenation, character classes of the "C" locale, and \<open>std::to_string\<close> of an unsigned number.
  A \<open>std::string\<close> is a list of bytes. Sizes and positions are \<open>nat\<close>; where the sources compute with
  \<open>std::string::npos\<close> or may go below zero, the wrap-around of the 64-bit \<open>size_t\<close> is written out.
\<close>

section \<open>Searching\<close>

definition starts_with :: "string \<Rightarrow> string \<Rightarrow> bool" where
  "starts_with p s \<longleftrightarrow> take (length p) s = p"

text \<open>The position of the first occurrence of \<open>p\<close> in \<open>s\<close>.\<close>

fun find_idx :: "string \<Rightarrow> string \<Rightarrow> nat option" where
  "find_idx p [] = (if p = [] then Some 0 else None)"
| "find_idx p (c # s) = (if starts_with p (c # s) then Some 0 else map_option Suc (find_idx p s))"

text \<open>\<open>s.find(p, pos)\<close>, with \<open>None\<close> for \<open>npos\<close>.\<close>

definition find_from :: "string \<Rightarrow> string \<Rightarrow> nat \<Rightarrow> nat option" where
  "find_from s p pos =
     (if pos > length s then None else map_option (\<lambda>i. pos + i) (find_idx p (drop pos s)))"

text \<open>\<open>s.substr(pos)\<close> and \<open>s.substr(pos, n)\<close>: a start past the end throws.\<close>

definition substr :: "string \<Rightarrow> nat \<Rightarrow> error + string" where
  "substr s pos = (if pos > length s then Inl Out_of_range else Inr (drop pos s))"

definition substr_n :: "string \<Rightarrow> nat \<Rightarrow> nat \<Rightarrow> error + string" where
  "substr_n s pos n = (if pos > length s then Inl Out_of_range else Inr (take n (drop pos s)))"

text \<open>
  \<open>std::size_t\<close> arithmetic. A length or a position found in a string is below \<open>2 ^ 64\<close> and stays so
  when a small number is added, so what wraps is a subtraction below zero, and an addition to
  \<open>npos = 2 ^ 64 - 1\<close>.
\<close>

definition npos :: nat where
  "npos = 2 ^ 64 - 1"

definition size_minus :: "nat \<Rightarrow> nat \<Rightarrow> nat" where
  "size_minus a b = (if b \<le> a then a - b else 2 ^ 64 + a - b)"

definition pos_of :: "nat option \<Rightarrow> nat" where
  "pos_of p = (case p of None \<Rightarrow> npos | Some i \<Rightarrow> i)"

definition pos_plus :: "nat option \<Rightarrow> nat \<Rightarrow> nat" where
  "pos_plus p n = (case p of None \<Rightarrow> (npos + n) mod 2 ^ 64 | Some i \<Rightarrow> i + n)"

lemma starts_with_Nil [simp]: "starts_with [] s"
  by (simp add: starts_with_def)

lemma starts_with_iff: "starts_with p s \<longleftrightarrow> (\<exists>t. s = p @ t)"
  unfolding starts_with_def by (metis append_eq_conv_conj)

lemma starts_with_append [simp]: "starts_with p (p @ t)"
  by (simp add: starts_with_def)

lemma starts_with_length: "starts_with p s \<Longrightarrow> length p \<le> length s"
  by (auto simp: starts_with_iff)

lemma find_idx_Nil_pat [simp]: "find_idx [] s = Some 0"
  by (cases s) simp_all

lemma find_idx_SomeD:
  "find_idx p s = Some i \<Longrightarrow> \<exists>t. s = take i s @ p @ t \<and> i + length p \<le> length s"
proof (induction p s arbitrary: i rule: find_idx.induct)
  case (1 p)
  then show ?case by (auto split: if_splits)
next
  case (2 p c s)
  show ?case
  proof (cases "starts_with p (c # s)")
    case True
    with 2 show ?thesis using starts_with_length [OF True] by (auto simp: starts_with_iff)
  next
    case False
    with "2.prems" obtain j where j: "find_idx p s = Some j" "i = Suc j" by auto
    with 2 False show ?thesis by fastforce
  qed
qed

lemma find_idx_Some_bound: "find_idx p s = Some i \<Longrightarrow> i + length p \<le> length s"
  using find_idx_SomeD by blast

lemma find_idx_Some_decomp:
  assumes "find_idx p s = Some i"
  shows "s = take i s @ p @ drop (i + length p) s"
proof -
  obtain t where t: "s = take i s @ p @ t" and le: "i + length p \<le> length s"
    using find_idx_SomeD [OF assms] by blast
  then have "drop (i + length p) s = t"
    by (metis append.assoc append_eq_conv_conj le add_leD1 length_append length_take min.absorb2)
  with t show ?thesis by simp
qed

lemma find_idx_NoneD: "find_idx p s = None \<Longrightarrow> s \<noteq> u @ p @ v"
proof (induction p s arbitrary: u rule: find_idx.induct)
  case (1 p)
  then show ?case by (auto split: if_splits)
next
  case (2 p c s)
  then have n: "\<not> starts_with p (c # s)" "find_idx p s = None" by (auto split: if_splits)
  show ?case
  proof (cases u)
    case Nil
    with n show ?thesis by (auto simp: starts_with_iff)
  next
    case (Cons a u')
    with 2 n show ?thesis by auto
  qed
qed

lemma find_idx_first: "find_idx p (u @ p @ v) \<noteq> None"
  using find_idx_NoneD by blast

lemma find_idx_least:
  "find_idx p (u @ p @ v) = Some i \<Longrightarrow> i \<le> length u"
proof (induction u arbitrary: i)
  case Nil
  have "starts_with p (p @ v)" by simp
  with Nil show ?case by (cases "p @ v") (auto split: if_splits)
next
  case (Cons c u)
  then show ?case by (auto split: if_splits)
qed

text \<open>A search that stops inside a prefix does not see what follows it.\<close>

lemma starts_with_prefix: "length p \<le> length s \<Longrightarrow> starts_with p (s @ t) = starts_with p s"
  by (simp add: starts_with_def)

lemma find_idx_append: "find_idx p s = Some i \<Longrightarrow> find_idx p (s @ t) = Some i"
proof (induction p s arbitrary: i rule: find_idx.induct)
  case (1 p)
  then show ?case by (auto split: if_splits)
next
  case (2 p c s)
  show ?case
  proof (cases "starts_with p (c # s)")
    case True
    then have "starts_with p ((c # s) @ t)"
      using starts_with_length starts_with_prefix by blast
    with True 2 show ?thesis by simp
  next
    case False
    with "2.prems" obtain j where j: "find_idx p s = Some j" "i = Suc j" by auto
    have "length p \<le> length (c # s)" using find_idx_Some_bound [OF j(1)] by simp
    then have "starts_with p ((c # s) @ t) = starts_with p (c # s)" by (rule starts_with_prefix)
    with False 2 j show ?thesis by simp
  qed
qed

lemma find_idx_char: "c \<notin> set u \<Longrightarrow> find_idx [c] (u @ c # v) = Some (length u)"
  by (induction u) (auto simp: starts_with_def)

lemma find_idx_char_None: "find_idx [c] s = None \<longleftrightarrow> c \<notin> set s"
  by (induction s) (auto simp: starts_with_def)

lemma find_idx_head_notin:
  assumes "p = c # q" and "c \<notin> set u"
  shows "find_idx p (u @ p @ v) = Some (length u)"
  using assms(2) by (induction u) (use assms(1) in \<open>auto simp: starts_with_def\<close>)

lemma find_idx_None_notin: "c \<in> set p \<Longrightarrow> c \<notin> set s \<Longrightarrow> find_idx p s = None"
proof -
  assume c: "c \<in> set p" "c \<notin> set s"
  then have "\<not> starts_with p t" if "c \<notin> set t" for t
    using that by (auto simp: starts_with_iff)
  with c show ?thesis by (induction s) auto
qed

section \<open>Substrings\<close>

lemma substr_append [simp]: "substr (u @ v) (length u) = Inr v"
  by (simp add: substr_def)

lemma substr_n_0 [simp]: "substr_n s 0 n = Inr (take n s)"
  by (simp add: substr_n_def)

lemma pos_plus_Some [simp]: "pos_plus (Some i) n = i + n"
  by (simp add: pos_plus_def)

lemma pos_plus_None [simp]: "pos_plus None (Suc n) = n mod 2 ^ 64"
proof -
  have "npos + Suc n = n + 2 ^ 64" by (simp add: npos_def)
  then show ?thesis by (simp only: pos_plus_def option.case mod_add_self2)
qed

section \<open>Joining\<close>

fun join :: "string \<Rightarrow> string list \<Rightarrow> string" where
  "join d [] = []"
| "join d [p] = p"
| "join d (p # q # ps) = p @ d @ join d (q # ps)"

lemma join_Cons: "ps \<noteq> [] \<Longrightarrow> join d (p # ps) = p @ d @ join d ps"
  by (cases ps) simp_all

section \<open>Characters and numbers\<close>

definition crlf :: string where
  "crlf = [CHR 0x0D, CHR 0x0A]"

definition nul :: char where
  "nul = CHR 0x00"

definition is_digit :: "char \<Rightarrow> bool" where
  "is_digit c \<longleftrightarrow> 48 \<le> (of_char c :: nat) \<and> (of_char c :: nat) \<le> 57"

text \<open>\<open>\w\<close> of an ECMAScript regular expression in the "C" locale: letters, digits, underscore.\<close>

definition is_word_char :: "char \<Rightarrow> bool" where
  "is_word_char c \<longleftrightarrow>
     is_digit c \<or> (65 \<le> (of_char c :: nat) \<and> (of_char c :: nat) \<le> 90)
     \<or> (97 \<le> (of_char c :: nat) \<and> (of_char c :: nat) \<le> 122) \<or> c = CHR ''_''"

text \<open>\<open>std::isspace\<close> in the "C" locale: space, \<open>\t\<close>, \<open>\n\<close>, \<open>\v\<close>, \<open>\f\<close>, \<open>\r\<close>.\<close>

definition is_space :: "char \<Rightarrow> bool" where
  "is_space c \<longleftrightarrow> c = CHR '' '' \<or> (9 \<le> (of_char c :: nat) \<and> (of_char c :: nat) \<le> 13)"

fun digit_char :: "nat \<Rightarrow> char" where
  "digit_char n = char_of (48 + n)"

fun to_string :: "nat \<Rightarrow> string" where
  "to_string n = (if n < 10 then [digit_char n] else to_string (n div 10) @ [digit_char (n mod 10)])"

declare to_string.simps [simp del]

lemma crlf_length [simp]: "length crlf = 2"
  by (simp add: crlf_def)

lemma crlf_not_Nil [simp]: "crlf \<noteq> []"
  by (simp add: crlf_def)

text \<open>A separator that the pattern does not hold keeps an occurrence on one side of it.\<close>

lemma starts_with_sep:
  assumes "x \<notin> set p"
  shows "starts_with p (u @ x # v) = starts_with p u"
proof (cases "length p \<le> length u")
  case True
  then show ?thesis by (rule starts_with_prefix)
next
  case False
  have "\<not> starts_with p (u @ x # v)"
  proof
    assume "starts_with p (u @ x # v)"
    then have "p ! length u = (u @ x # v) ! length u"
      using False by (metis not_le nth_take starts_with_def)
    with False assms show False by (metis not_le nth_append_length nth_mem)
  qed
  moreover have "\<not> starts_with p u"
    using False starts_with_length by blast
  ultimately show ?thesis by simp
qed

lemma find_idx_sep:
  assumes "x \<notin> set p" and "find_idx p u = None"
  shows "find_idx p (u @ x # v) = map_option (\<lambda>i. length u + 1 + i) (find_idx p v)"
  using assms(2)
proof (induction u)
  case Nil
  with assms(1) have "\<not> starts_with p (x # v)"
    using starts_with_sep [of x p "[]" v] by (auto simp: starts_with_iff)
  then show ?case by simp
next
  case (Cons c u)
  then have "\<not> starts_with p ((c # u) @ x # v)" "find_idx p u = None"
    unfolding starts_with_sep [OF assms(1)] by (auto split: if_splits)
  with Cons show ?case by (simp add: option.map_comp comp_def)
qed

end
