(* ===== verification/World.thy ===== *)
theory World
  imports Std_String "HOL-Library.Word"
begin

text \<open>
  What the program calls and does not define: the asio sockets, the PostgreSQL connections of
  libpqxx, OpenSSL's SHA-256, and the standard streams. None of that code is part of the
  repository, so its answers are parameters: the fields of the record \<open>env\<close>, an argument of
  every definition that uses them. Each call is recorded as an event in the trace of the state
  and its answer may depend on everything that happened before it (the event list), so an
  arbitrary \<open>env\<close> covers every behaviour of the network, of the peers and of the database.
  A theorem that relies on documented behaviour of these libraries says so in a named hypothesis.
\<close>

section \<open>Endpoints\<close>

text \<open>
  \<open>asio::ip::tcp::endpoint\<close> as the sources use it: an IPv4 address and a port (the server listens
  on \<open>tcp::v4()\<close> and the client connects to an \<open>address_v4\<close>), with equality and, as the key of
  a \<open>std::map\<close>, a total order: by address, then by port.
\<close>

datatype endpoint = Endpoint (address: "32 word") (ep_port: "16 word")

instantiation endpoint :: linorder
begin

definition less_eq_endpoint :: "endpoint \<Rightarrow> endpoint \<Rightarrow> bool" where
  "less_eq_endpoint e f \<longleftrightarrow>
     address e < address f \<or> (address e = address f \<and> ep_port e \<le> ep_port f)"

definition less_endpoint :: "endpoint \<Rightarrow> endpoint \<Rightarrow> bool" where
  "less_endpoint e f \<longleftrightarrow>
     address e < address f \<or> (address e = address f \<and> ep_port e < ep_port f)"

instance
  by standard (auto simp: less_eq_endpoint_def less_endpoint_def endpoint.expand)

end

lemma less_endpoint_simp [simp]:
  "Endpoint a p < Endpoint b q \<longleftrightarrow> a < b \<or> (a = b \<and> p < q)"
  by (simp add: less_endpoint_def)

lemma less_eq_endpoint_simp [simp]:
  "Endpoint a p \<le> Endpoint b q \<longleftrightarrow> a < b \<or> (a = b \<and> p \<le> q)"
  by (simp add: less_eq_endpoint_def)

section \<open>Events and the environment\<close>

text \<open>
  A \<open>tcp::socket\<close> and a \<open>pqxx::connection\<close> are resources that are moved, never copied: they are
  named by numbers. A field of a query result is \<open>None\<close> when it is NULL.
\<close>

type_synonym sock = nat
type_synonym conn = nat
type_synonym field = "string option"
type_synonym rows = "field list list"

datatype event =
    Ev_remote sock
  | Ev_local sock
  | Ev_available sock
  | Ev_read sock
  | Ev_write sock string
  | Ev_close sock
  | Ev_socket sock
  | Ev_connect sock endpoint
  | Ev_accept
  | Ev_set_option sock
  | Ev_db_connect string
  | Ev_begin conn
  | Ev_exec conn string
  | Ev_commit conn
  | Ev_abort conn
  | Ev_print string
  | Ev_print_err string
  | Ev_poll

datatype accept_result = Accepted sock | Would_block | Accept_failed

record env =
  remote_ep :: "event list \<Rightarrow> sock \<Rightarrow> endpoint option"
  local_ep :: "event list \<Rightarrow> sock \<Rightarrow> endpoint option"
  avail :: "event list \<Rightarrow> sock \<Rightarrow> nat option"
  read_some :: "event list \<Rightarrow> sock \<Rightarrow> string"
  write_ec :: "event list \<Rightarrow> sock \<Rightarrow> string \<Rightarrow> bool"
  connect_ok :: "event list \<Rightarrow> sock \<Rightarrow> endpoint \<Rightarrow> bool"
  accept_sock :: "event list \<Rightarrow> accept_result"
  set_option_ok :: "event list \<Rightarrow> sock \<Rightarrow> bool"
  ip_text :: "32 word \<Rightarrow> string"
  db_connect :: "event list \<Rightarrow> string \<Rightarrow> conn option"
  begin_ok :: "event list \<Rightarrow> conn \<Rightarrow> bool"
  exec_sql :: "event list \<Rightarrow> conn \<Rightarrow> string \<Rightarrow> rows option"
  commit_ok :: "event list \<Rightarrow> conn \<Rightarrow> bool"
  sql_quote :: "string \<Rightarrow> string"
  field_string :: "field \<Rightarrow> string option"
  field_bool :: "field \<Rightarrow> bool option"
  field_text :: "field \<Rightarrow> string"
  signal_at :: "event list \<Rightarrow> bool"
  sha256_ok :: "string \<Rightarrow> bool"
  sha256_md :: "string \<Rightarrow> nat list"
  char_max :: nat
  what_text :: "error \<Rightarrow> string"

record world =
  trace :: "event list"

type_synonym ('z, 'a) io = "('z world_scheme, 'a) cmd"

section \<open>Calls\<close>

definition log_event :: "event \<Rightarrow> ('z, unit) io" where
  "log_event e = update (\<lambda>s. s\<lparr>trace := trace s @ [e]\<rparr>)"

text \<open>
  A call: record its event, then take the answer the environment gives for the history before it.
\<close>

definition call :: "event \<Rightarrow> (event list \<Rightarrow> error + 'a) \<Rightarrow> ('z, 'a) io" where
  "call e f = bindE (gets trace) (\<lambda>t. thenE (log_event e) (lift (f t)))"

definition or_throw :: "error \<Rightarrow> 'a option \<Rightarrow> error + 'a" where
  "or_throw e x = (case x of None \<Rightarrow> Inl e | Some y \<Rightarrow> Inr y)"

text \<open>
  The throwing \<open>sock.remote_endpoint()\<close> and \<open>sock.local_endpoint()\<close>, the form of
  \<open>remote_endpoint\<close> that reports its error in an error code, and \<open>sock.available()\<close>.
\<close>

definition remote_endpoint :: "env \<Rightarrow> sock \<Rightarrow> ('z, endpoint) io" where
  "remote_endpoint E k = call (Ev_remote k) (\<lambda>t. or_throw System_error (remote_ep E t k))"

definition remote_endpoint_ec :: "env \<Rightarrow> sock \<Rightarrow> ('z, endpoint option) io" where
  "remote_endpoint_ec E k = call (Ev_remote k) (\<lambda>t. Inr (remote_ep E t k))"

definition local_endpoint :: "env \<Rightarrow> sock \<Rightarrow> ('z, endpoint) io" where
  "local_endpoint E k = call (Ev_local k) (\<lambda>t. or_throw System_error (local_ep E t k))"

definition available :: "env \<Rightarrow> sock \<Rightarrow> ('z, nat) io" where
  "available E k = call (Ev_available k) (\<lambda>t. or_throw System_error (avail E t k))"

text \<open>
  \<open>sock.read_some(buffer, ec)\<close> into a buffer of \<open>n\<close> bytes: the bytes it puts into the buffer,
  none after an error or an end of file (the sources never look at the error code).
\<close>

definition read_into :: "env \<Rightarrow> sock \<Rightarrow> nat \<Rightarrow> ('z, string) io" where
  "read_into E k n = call (Ev_read k) (\<lambda>t. Inr (take n (read_some E t k)))"

text \<open>\<open>asio::write(..., ec)\<close>: whether it reports an error.\<close>

definition write_all :: "env \<Rightarrow> sock \<Rightarrow> string \<Rightarrow> ('z, bool) io" where
  "write_all E k m = call (Ev_write k m) (\<lambda>t. Inr (write_ec E t k m))"

definition close_sock :: "sock \<Rightarrow> ('z, unit) io" where
  "close_sock k = log_event (Ev_close k)"

definition address_text :: "env \<Rightarrow> endpoint \<Rightarrow> string" where
  "address_text E e = ip_text E (address e)"

definition print_out :: "string \<Rightarrow> ('z, unit) io" where
  "print_out m = log_event (Ev_print m)"

definition print_err :: "string \<Rightarrow> ('z, unit) io" where
  "print_err m = log_event (Ev_print_err m)"

text \<open>
  \<open>e.what()\<close>: the text an exception was made with, or the library's own; and a
  \<open>catch (const std::exception& e)\<close> around a computation that ended with \<open>r\<close>. Undefined behaviour and
  a call that never returns are no exceptions.
\<close>

definition what :: "env \<Rightarrow> error \<Rightarrow> string" where
  "what E e =
     (case e of Invalid_argument m \<Rightarrow> m | Runtime_error m \<Rightarrow> m | _ \<Rightarrow> what_text E e)"

definition catch_exception ::
  "error + 'a \<Rightarrow> ('a \<Rightarrow> ('s, unit) cmd) \<Rightarrow> (error \<Rightarrow> ('s, unit) cmd) \<Rightarrow> ('s, unit) cmd" where
  "catch_exception r continue handler =
     (case r of
        Inr x \<Rightarrow> continue x
      | Inl e \<Rightarrow> if is_ub e \<or> e = Hangs then throw e else handler e)"

lemma run_log_event [run]: "log_event e s = (Inr (), s\<lparr>trace := trace s @ [e]\<rparr>)"
  by (simp add: log_event_def run)

lemma run_call [run]: "call e f s = (f (trace s), s\<lparr>trace := trace s @ [e]\<rparr>)"
  by (simp add: call_def run)

lemma wp_call [wp_simps]:
  "wp (call e f) Q R s =
     (case f (trace s) of Inl x \<Rightarrow> R x (s\<lparr>trace := trace s @ [e]\<rparr>)
      | Inr y \<Rightarrow> Q y (s\<lparr>trace := trace s @ [e]\<rparr>))"
  by (simp add: wp_def run)

lemma wp_log_event [wp_simps]: "wp (log_event e) Q R s = Q () (s\<lparr>trace := trace s @ [e]\<rparr>)"
  by (simp add: log_event_def wp_simps)

lemma or_throw_simps [simp]: "or_throw e None = Inl e" "or_throw e (Some x) = Inr x"
  by (simp_all add: or_throw_def)

lemmas socket_defs = remote_endpoint_def remote_endpoint_ec_def local_endpoint_def available_def
  read_into_def write_all_def close_sock_def print_out_def print_err_def

section \<open>What a run did\<close>

text \<open>The messages written, the statements executed, and the text printed, in order.\<close>

fun sent :: "event list \<Rightarrow> (sock \<times> string) list" where
  "sent [] = []"
| "sent (Ev_write k m # es) = (k, m) # sent es"
| "sent (_ # es) = sent es"

fun executed :: "event list \<Rightarrow> (conn \<times> string) list" where
  "executed [] = []"
| "executed (Ev_exec c q # es) = (c, q) # executed es"
| "executed (_ # es) = executed es"

fun printed :: "event list \<Rightarrow> string list" where
  "printed [] = []"
| "printed (Ev_print m # es) = m # printed es"
| "printed (_ # es) = printed es"

text \<open>The sockets that were read from.\<close>

fun reads :: "event list \<Rightarrow> sock list" where
  "reads [] = []"
| "reads (Ev_read k # es) = k # reads es"
| "reads (_ # es) = reads es"

lemma reads_append [simp]: "reads (t @ u) = reads t @ reads u"
  by (induction t rule: reads.induct) simp_all

lemma sent_append [simp]: "sent (t @ u) = sent t @ sent u"
  by (induction t rule: sent.induct) simp_all

lemma executed_append [simp]: "executed (t @ u) = executed t @ executed u"
  by (induction t rule: executed.induct) simp_all

lemma printed_append [simp]: "printed (t @ u) = printed t @ printed u"
  by (induction t rule: printed.induct) simp_all

section \<open>Hypotheses about the environment\<close>

text \<open>
  The connections \<open>K\<close> stay up: each answers with its own peer, a local endpoint and a number of
  available bytes, and no write to it fails. Sockets outside \<open>K\<close> may do anything. \<open>connected\<close>
  only promises the peer.
\<close>

definition steady :: "env \<Rightarrow> (sock \<Rightarrow> endpoint) \<Rightarrow> sock set \<Rightarrow> bool" where
  "steady E peer K \<longleftrightarrow>
     (\<forall>k \<in> K. (\<forall>t. remote_ep E t k = Some (peer k)) \<and> (\<forall>t. local_ep E t k \<noteq> None)
        \<and> (\<forall>t. avail E t k \<noteq> None) \<and> (\<forall>t m. \<not> write_ec E t k m))"

lemma steadyD:
  assumes "steady E peer K" and "k \<in> K"
  shows "remote_ep E t k = Some (peer k)" and "\<exists>e. local_ep E t k = Some e"
    and "\<exists>n. avail E t k = Some n" and "\<not> write_ec E t k m"
  using assms by (auto simp: steady_def)

definition connected :: "env \<Rightarrow> (sock \<Rightarrow> endpoint) \<Rightarrow> sock set \<Rightarrow> bool" where
  "connected E peer K \<longleftrightarrow> (\<forall>k \<in> K. \<forall>t. remote_ep E t k = Some (peer k))"

lemma connectedD: "connected E peer K \<Longrightarrow> k \<in> K \<Longrightarrow> remote_ep E t k = Some (peer k)"
  by (simp add: connected_def)

lemma wp_remote_endpoint:
  assumes "connected E peer K" and "k \<in> K"
    and "Q (peer k) (s\<lparr>trace := trace s @ [Ev_remote k]\<rparr>)"
  shows "wp (remote_endpoint E k) Q R s"
  using assms by (simp add: remote_endpoint_def wp_simps connectedD)

lemma connected_mono: "connected E peer K \<Longrightarrow> L \<subseteq> K \<Longrightarrow> connected E peer L"
  by (auto simp: connected_def)

lemma steady_connected: "steady E peer K \<Longrightarrow> connected E peer K"
  by (simp add: steady_def connected_def)

lemma steady_mono: "steady E peer K \<Longrightarrow> L \<subseteq> K \<Longrightarrow> steady E peer L"
  by (auto simp: steady_def)

text \<open>The text of an IPv4 address is four groups of digits separated by dots.\<close>

definition dotted_decimal :: "string \<Rightarrow> bool" where
  "dotted_decimal s \<longleftrightarrow>
     (\<exists>a b c d. s = a @ ''.'' @ b @ ''.'' @ c @ ''.'' @ d
        \<and> (\<forall>g \<in> {a, b, c, d}. g \<noteq> [] \<and> list_all is_digit g))"

end
