(* ===== verification/Users.thy ===== *)
theory Users
  imports World
begin

text \<open>
  \<open>shared/status.h\<close>, \<open>shared/User.h\<close> and \<open>shared/ircConstants.h\<close>: the status enumeration with
  its conversions to and from text, the user record with its constructors and accessors, and
  the numeric reply codes.
\<close>

section \<open>Status\<close>

datatype status = Admin | User | Banned | Nonexistent

text \<open>\<open>operator <<\<close> on a stream whose contents so far are \<open>out\<close>.\<close>

fun status_stream :: "string \<Rightarrow> status \<Rightarrow> string" where
  "status_stream out Admin = out @ ''Admin''"
| "status_stream out User = out @ ''User''"
| "status_stream out Banned = out @ ''Banned''"
| "status_stream out Nonexistent = out @ ''Nonexistent''"

fun getStatusString :: "status \<Rightarrow> string" where
  "getStatusString Admin = ''Admin''"
| "getStatusString User = ''User''"
| "getStatusString Banned = ''Banned''"
| "getStatusString Nonexistent = ''Nonexistent''"

definition getStatusEnum :: "string \<Rightarrow> error + status" where
  "getStatusEnum statusString =
     (if statusString = ''Admin'' then Inr Admin
      else if statusString = ''User'' then Inr User
      else if statusString = ''Banned'' then Inr Banned
      else if statusString = ''Nonexistent'' then Inr Nonexistent
      else Inl (Runtime_error ''don't recognize status string''))"

text \<open>
  The contract of a text encoding stored in the database: decoding inverts encoding, and only
  encodings decode.
\<close>

locale text_codec =
  fixes enc :: "'a \<Rightarrow> string"
    and dec :: "string \<Rightarrow> error + 'a"
  assumes dec_enc: "dec (enc x) = Inr x"
    and enc_dec: "dec s = Inr x \<Longrightarrow> enc x = s"
begin

lemma dec_iff: "dec s = Inr x \<longleftrightarrow> s = enc x"
  using dec_enc enc_dec by blast

lemma enc_inject: "enc x = enc y \<longleftrightarrow> x = y"
  using dec_enc by (metis sum.inject(2))

lemma dec_fails_iff: "(\<exists>e. dec s = Inl e) \<longleftrightarrow> s \<notin> range enc"
proof
  assume "\<exists>e. dec s = Inl e"
  then show "s \<notin> range enc" by (auto simp: dec_enc)
next
  assume "s \<notin> range enc"
  then have "dec s \<noteq> Inr x" for x using enc_dec by blast
  then show "\<exists>e. dec s = Inl e" by (cases "dec s") auto
qed

end

interpretation status_codec: text_codec getStatusString getStatusEnum
proof unfold_locales
  show "getStatusEnum (getStatusString x) = Inr x" for x
    by (cases x) (simp_all add: getStatusEnum_def)
  show "getStatusEnum s = Inr x \<Longrightarrow> getStatusString x = s" for s x
    by (auto simp: getStatusEnum_def split: if_splits)
qed

lemma status_stream_eq: "status_stream out x = out @ getStatusString x"
  by (cases x) simp_all

section \<open>Users\<close>

text \<open>
  The constructors leave \<open>_server_role\<close> and \<open>_channel_role\<close> uninitialised: an indeterminate
  role is \<open>None\<close>. The default constructor of \<open>tcp::endpoint\<close> gives the address and port 0.
\<close>

record user =
  u_nick :: string
  u_whoami :: string
  u_real :: string
  u_pass :: string
  u_chan :: string
  u_server_role :: "status option"
  u_channel_role :: "status option"
  u_endpt :: endpoint

definition user_default :: user where
  "user_default = \<lparr>u_nick = '''', u_whoami = '''', u_real = '''', u_pass = '''', u_chan = '''',
     u_server_role = None, u_channel_role = None, u_endpt = Endpoint 0 0\<rparr>"

definition user3 :: "string \<Rightarrow> string \<Rightarrow> string \<Rightarrow> user" where
  "user3 n u r = user_default\<lparr>u_nick := n, u_whoami := u, u_real := r\<rparr>"

definition user4 :: "string \<Rightarrow> string \<Rightarrow> string \<Rightarrow> string \<Rightarrow> user" where
  "user4 n u r p = user_default\<lparr>u_nick := n, u_whoami := u, u_real := r, u_pass := p\<rparr>"

text \<open>
  The copy constructor reads both roles, and reading an indeterminate value is undefined. The server
  never sets a role and copies users all the time; where the other theories put a user into a
  container they take its value as it is, as compilers do, since nothing there looks at the roles.
\<close>

definition user_copy :: "user \<Rightarrow> error + user" where
  "user_copy other =
     (if u_server_role other = None \<or> u_channel_role other = None then Inl (UB Uninitialised_read)
      else Inr \<lparr>u_nick = u_nick other, u_whoami = u_whoami other, u_real = u_real other,
        u_pass = u_pass other, u_chan = u_chan other, u_server_role = u_server_role other,
        u_channel_role = u_channel_role other, u_endpt = u_endpt other\<rparr>)"

definition set_nick :: "string \<Rightarrow> user \<Rightarrow> user" where
  "set_nick n u = u\<lparr>u_nick := n\<rparr>"

definition set_pass :: "string \<Rightarrow> user \<Rightarrow> user" where
  "set_pass p u = u\<lparr>u_pass := p\<rparr>"

definition set_channel :: "string \<Rightarrow> user \<Rightarrow> user" where
  "set_channel c u = u\<lparr>u_chan := c\<rparr>"

definition set_endpoint :: "endpoint \<Rightarrow> user \<Rightarrow> user" where
  "set_endpoint e u = u\<lparr>u_endpt := e\<rparr>"

definition set_server_role :: "status \<Rightarrow> user \<Rightarrow> user" where
  "set_server_role r u = u\<lparr>u_server_role := Some r\<rparr>"

definition set_channel_role :: "status \<Rightarrow> user \<Rightarrow> user" where
  "set_channel_role r u = u\<lparr>u_channel_role := Some r\<rparr>"

text \<open>\<open>print_\<close>, and \<open>operator <<\<close> for a user: both read the two roles.\<close>

definition role_stream :: "string \<Rightarrow> status option \<Rightarrow> error + string" where
  "role_stream out r =
     (case r of None \<Rightarrow> Inl (UB Uninitialised_read) | Some x \<Rightarrow> Inr (status_stream out x))"

definition user_stream :: "string \<Rightarrow> user \<Rightarrow> error + string" where
  "user_stream out u =
     (let out1 = out @ ''nick: '' @ u_nick u @ ''\<newline>'' @ ''whoami: '' @ u_whoami u @ ''\<newline>''
                 @ ''real: '' @ u_real u @ ''\<newline>'' @ ''channel: '' @ u_chan u @ ''\<newline>''
                 @ ''server_role: ''
      in case role_stream out1 (u_server_role u) of Inl e \<Rightarrow> Inl e
         | Inr out2 \<Rightarrow>
             (case role_stream (out2 @ ''\<newline>'' @ ''channel_role: '') (u_channel_role u) of
                Inl e \<Rightarrow> Inl e | Inr out3 \<Rightarrow> Inr (out3 @ ''\<newline>'')))"

definition print_user :: "user \<Rightarrow> error + string" where
  "print_user u = user_stream '''' u"

lemma user_copy_id: "user_copy u = Inr v \<Longrightarrow> v = u"
  by (cases u) (auto simp: user_copy_def split: if_splits)

lemmas user_setters = set_nick_def set_pass_def set_channel_def set_endpoint_def
  set_server_role_def set_channel_role_def

section \<open>Reply codes\<close>

definition RPL_WELCOME :: string where "RPL_WELCOME = ''001''"
definition RPL_TOPIC :: string where "RPL_TOPIC = ''332''"
definition RPL_NAMREPLY :: string where "RPL_NAMREPLY = ''252''"
definition RPL_ENDOFNAMES :: string where "RPL_ENDOFNAMES = ''366''"
definition ERR_PASSWDMISMATCH :: string where "ERR_PASSWDMISMATCH = ''464''"

lemmas reply_codes = RPL_WELCOME_def RPL_TOPIC_def RPL_NAMREPLY_def RPL_ENDOFNAMES_def
  ERR_PASSWDMISMATCH_def

end
