(* ===== verification/Std_Map.thy ===== *)
theory Std_Map
  imports Prelude
begin

text \<open>
  \<open>std::map\<close>: an associative container iterated in increasing key order, as an association list
  whose keys are strictly increasing. \<open>operator[]\<close> inserts a default value for a key that is absent
  (\<open>smap_index\<close>), \<open>erase\<close> of a key does nothing when it is absent. Every operation is related to
  the partial function \<open>smap_find m\<close>, through which the components reason.
\<close>

type_synonym ('k, 'v) smap = "('k \<times> 'v) list"

definition smap_wf :: "('k::linorder, 'v) smap \<Rightarrow> bool" where
  "smap_wf m \<longleftrightarrow> sorted_wrt (<) (map fst m)"

definition smap_keys :: "('k, 'v) smap \<Rightarrow> 'k list" where
  "smap_keys m = map fst m"

fun smap_find :: "('k, 'v) smap \<Rightarrow> 'k \<Rightarrow> 'v option" where
  "smap_find [] k = None"
| "smap_find ((k', v) # m) k = (if k = k' then Some v else smap_find m k)"

definition smap_count :: "('k, 'v) smap \<Rightarrow> 'k \<Rightarrow> bool" where
  "smap_count m k \<longleftrightarrow> smap_find m k \<noteq> None"

fun smap_put :: "('k::linorder) \<Rightarrow> 'v \<Rightarrow> ('k, 'v) smap \<Rightarrow> ('k, 'v) smap" where
  "smap_put k v [] = [(k, v)]"
| "smap_put k v ((k', v') # m) =
     (if k < k' then (k, v) # (k', v') # m
      else if k = k' then (k, v) # m
      else (k', v') # smap_put k v m)"

fun smap_erase :: "'k \<Rightarrow> ('k, 'v) smap \<Rightarrow> ('k, 'v) smap" where
  "smap_erase k [] = []"
| "smap_erase k ((k', v) # m) = (if k = k' then m else (k', v) # smap_erase k m)"

text \<open>\<open>m[k]\<close> with a default-constructed value \<open>d\<close>: the map afterwards, and the value referred to.\<close>

definition smap_get :: "'v \<Rightarrow> ('k, 'v) smap \<Rightarrow> 'k \<Rightarrow> 'v" where
  "smap_get d m k = (case smap_find m k of None \<Rightarrow> d | Some v \<Rightarrow> v)"

definition smap_index :: "'v \<Rightarrow> ('k::linorder) \<Rightarrow> ('k, 'v) smap \<Rightarrow> ('k, 'v) smap" where
  "smap_index d k m = (if smap_count m k then m else smap_put k d m)"

section \<open>The map as a partial function\<close>

lemma smap_find_put [simp]: "smap_find (smap_put k v m) = (smap_find m)(k \<mapsto> v)"
  by (induction k v m rule: smap_put.induct) (auto simp: fun_eq_iff)

lemma smap_keys_find: "smap_find m k = None \<longleftrightarrow> k \<notin> set (smap_keys m)"
  by (induction m k rule: smap_find.induct) (auto simp: smap_keys_def)

lemma smap_dom_keys: "dom (smap_find m) = set (smap_keys m)"
proof (rule set_eqI)
  fix k show "k \<in> dom (smap_find m) \<longleftrightarrow> k \<in> set (smap_keys m)"
    using smap_keys_find [of m k] by auto
qed

lemma smap_keys_simps [simp]: "smap_keys [] = []" "smap_keys ((k, v) # m) = k # smap_keys m"
  by (simp_all add: smap_keys_def)

lemma smap_wf_Cons [simp]:
  "smap_wf ((k, v) # m) \<longleftrightarrow> (\<forall>k' \<in> set (smap_keys m). k < k') \<and> smap_wf m"
  by (auto simp: smap_wf_def smap_keys_def)

lemma smap_wf_Nil [simp]: "smap_wf []"
  by (simp add: smap_wf_def)

lemma smap_find_erase [simp]:
  "smap_wf m \<Longrightarrow> smap_find (smap_erase k m) = (smap_find m)(k := None)"
proof (induction k m rule: smap_erase.induct)
  case (1 k)
  then show ?case by (simp add: fun_eq_iff)
next
  case (2 k k' v m)
  then show ?case
    using smap_keys_find [of m k'] by (fastforce simp: fun_eq_iff)
qed

lemma smap_find_index [simp]:
  "smap_find (smap_index d k m) = (smap_find m)(k \<mapsto> smap_get d m k)"
  by (auto simp: smap_index_def smap_count_def smap_get_def fun_eq_iff)

lemma smap_keys_put: "set (smap_keys (smap_put k v m)) = insert k (set (smap_keys m))"
  by (simp flip: smap_dom_keys)

lemma smap_keys_erase_subset: "set (smap_keys (smap_erase k m)) \<subseteq> set (smap_keys m)"
  by (induction k m rule: smap_erase.induct) (auto simp: smap_keys_def)

lemma smap_keys_erase: "smap_wf m \<Longrightarrow> set (smap_keys (smap_erase k m)) = set (smap_keys m) - {k}"
  by (simp flip: smap_dom_keys)

section \<open>The keys stay sorted\<close>

lemma smap_wf_put [simp, intro]: "smap_wf m \<Longrightarrow> smap_wf (smap_put k v m)"
  by (induction k v m rule: smap_put.induct) (auto simp: smap_keys_put)

lemma smap_wf_erase [simp, intro]: "smap_wf m \<Longrightarrow> smap_wf (smap_erase k m)"
  by (induction k m rule: smap_erase.induct) (use smap_keys_erase_subset in fastforce)+

lemma smap_wf_index [simp, intro]: "smap_wf m \<Longrightarrow> smap_wf (smap_index d k m)"
  by (simp add: smap_index_def)

lemma smap_keys_index: "set (smap_keys (smap_index d k m)) = insert k (set (smap_keys m))"
  by (simp flip: smap_dom_keys)

lemma smap_wf_distinct: "smap_wf m \<Longrightarrow> distinct (smap_keys m)"
  by (simp add: smap_wf_def smap_keys_def strict_sorted_iff)

lemma smap_mem_find: "smap_wf m \<Longrightarrow> (k, v) \<in> set m \<longleftrightarrow> smap_find m k = Some v"
proof (induction m k rule: smap_find.induct)
  case (1 k)
  then show ?case by simp
next
  case (2 k' v' m k)
  then show ?case using smap_keys_find [of m k] by (force simp: smap_keys_def)
qed

text \<open>Two maps with the same lookups are the same list.\<close>

lemma smap_reconstruct: "smap_wf m \<Longrightarrow> m = map (\<lambda>k. (k, the (smap_find m k))) (smap_keys m)"
proof (induction m)
  case Nil
  show ?case by simp
next
  case (Cons p m)
  obtain k v where p: "p = (k, v)" by fastforce
  have "map (\<lambda>k'. (k', the (smap_find (p # m) k'))) (smap_keys m)
      = map (\<lambda>k'. (k', the (smap_find m k'))) (smap_keys m)"
    using Cons.prems p by auto
  with Cons p show ?case by simp
qed

lemma smap_eqI:
  assumes "smap_wf m" and "smap_wf n" and "smap_find m = smap_find n"
  shows "m = n"
proof -
  have "smap_keys m = smap_keys n"
    using assms strict_sorted_equal [of "smap_keys m" "smap_keys n"] smap_dom_keys [of m]
      smap_dom_keys [of n] by (simp add: smap_wf_def smap_keys_def)
  then show ?thesis
    using assms smap_reconstruct [of m] smap_reconstruct [of n] by simp
qed

lemma smap_put_put [simp]: "smap_wf m \<Longrightarrow> smap_put e w (smap_put e v m) = smap_put e w m"
  by (rule smap_eqI) (auto simp: fun_eq_iff)

lemma smap_get_put [simp]: "smap_get d (smap_put e v m) e' = (if e = e' then v else smap_get d m e')"
  by (simp add: smap_get_def)

lemma smap_index_put:
  "smap_wf m \<Longrightarrow> smap_index d e m = smap_put e (smap_get d m e) m"
  by (rule smap_eqI) (auto simp: fun_eq_iff)

end
