(* ===== verification/Shared.thy ===== *)
theory Shared
  imports Users Std_Map "HOL-Library.List_Lexorder" "HOL-Library.Char_ord"
begin

text \<open>
  What the server's main thread and the channel threads share: the queue of users waiting for
  each channel and the deque of their sockets (both touched only under \<open>_comms_lock\<close>), the
  notification flags, and the global \<open>selfdestruct\<close>. A \<open>shared_ptr\<close> to an atomic flag is an index
  into \<open>flags\<close>, \<open>None\<close> when it is null. Also here: \<open>server/Notifier\<close>, through which the main
  thread raises a channel's flag.
\<close>

type_synonym flag_ptr = "nat option"

type_synonym waiting = "(string, (user \<times> string list) list) smap"

record shared = world +
  chan_newusers :: waiting
  global_socks :: "sock list"
  flags :: "bool list"
  selfdestruct :: bool

text \<open>
  \<open>set_globals\<close>, the SIGINT handler, and a read of \<open>selfdestruct\<close>. The handler runs at any time:
  whether it ran before a given read is up to the environment.
\<close>

definition set_globals :: "('z shared_scheme, unit) cmd" where
  "set_globals = update (\<lambda>s. s\<lparr>selfdestruct := False\<rparr>)"

definition signal_handler :: "int \<Rightarrow> ('z shared_scheme, unit) cmd" where
  "signal_handler signal = (if signal \<noteq> 0 then update (\<lambda>s. s\<lparr>selfdestruct := True\<rparr>) else ret ())"

definition SIGINT :: int where
  "SIGINT = 2"

definition load_selfdestruct :: "env \<Rightarrow> ('z shared_scheme, bool) cmd" where
  "load_selfdestruct E =
     bindE (call Ev_poll (\<lambda>t. Inr (signal_at E t))) (\<lambda>signalled.
       thenE (if signalled then signal_handler SIGINT else ret ()) (gets selfdestruct))"

section \<open>Notifier\<close>

record notifier =
  flag_map :: "(string, flag_ptr) smap"
  flag_heap :: "bool list"

definition notifier_update :: "string \<Rightarrow> notifier \<Rightarrow> error + notifier" where
  "notifier_update channel n =
     (case smap_find (flag_map n) channel of
        Some ptr \<Rightarrow>
          (case ptr of
             None \<Rightarrow> Inl (UB Null_pointer)
           | Some p \<Rightarrow> Inr (n\<lparr>flag_heap := (flag_heap n)[p := True]\<rparr>))
      | None \<Rightarrow>
          Inr (n\<lparr>flag_heap := flag_heap n @ [True],
                 flag_map := smap_put channel (Some (length (flag_heap n))) (flag_map n)\<rparr>))"

text \<open>\<open>pass_ptr\<close> returns \<open>_map[channel]\<close>, which inserts a null pointer for a new channel.\<close>

definition pass_ptr :: "string \<Rightarrow> notifier \<Rightarrow> flag_ptr \<times> notifier" where
  "pass_ptr channel n =
     (smap_get None (flag_map n) channel,
      n\<lparr>flag_map := smap_index None channel (flag_map n)\<rparr>)"

text \<open>Reading a flag through a pointer.\<close>

definition load_flag :: "bool list \<Rightarrow> flag_ptr \<Rightarrow> error + bool" where
  "load_flag heap ptr =
     (case ptr of
        None \<Rightarrow> Inl (UB Null_pointer)
      | Some p \<Rightarrow> if p < length heap then Inr (heap ! p) else Inl (UB Dangling_reference))"

fun give_state_loop :: "bool list \<Rightarrow> (string, flag_ptr) smap \<Rightarrow> ('z, unit) io" where
  "give_state_loop heap [] = ret ()"
| "give_state_loop heap ((c, ptr) # m) =
     thenE (print_out (c @ ''\<newline>''))
       (bindE (lift (load_flag heap ptr)) (\<lambda>b.
          thenE (print_out ((if b then ''1'' else ''0'') @ ''\<newline>'')) (give_state_loop heap m)))"

definition give_state :: "notifier \<Rightarrow> ('z, unit) io" where
  "give_state n = give_state_loop (flag_heap n) (flag_map n)"

text \<open>
  What the server relies on: an update never fails, raises the channel's flag and lowers none,
  and the pointer handed to a thread stays the channel's pointer.
\<close>

locale flag_board =
  fixes upd :: "'c \<Rightarrow> 'n \<Rightarrow> error + 'n"
    and ptr_of :: "'c \<Rightarrow> 'n \<Rightarrow> 'p"
    and raised :: "'n \<Rightarrow> 'p \<Rightarrow> bool"
    and ok :: "'n \<Rightarrow> bool"
  assumes upd_total: "ok n \<Longrightarrow> \<exists>n'. upd c n = Inr n'"
    and upd_ok: "ok n \<Longrightarrow> upd c n = Inr n' \<Longrightarrow> ok n'"
    and upd_raises: "ok n \<Longrightarrow> upd c n = Inr n' \<Longrightarrow> raised n' (ptr_of c n')"
    and upd_keeps: "ok n \<Longrightarrow> upd d n = Inr n' \<Longrightarrow> raised n p \<Longrightarrow> raised n' p"
    and upd_stable:
      "ok n \<Longrightarrow> upd d n = Inr n' \<Longrightarrow> raised n (ptr_of c n) \<Longrightarrow> ptr_of c n' = ptr_of c n"
begin

fun upds :: "'c list \<Rightarrow> 'n \<Rightarrow> error + 'n" where
  "upds [] n = Inr n"
| "upds (c # cs) n = (case upd c n of Inl e \<Rightarrow> Inl e | Inr n' \<Rightarrow> upds cs n')"

lemma upds_total: "ok n \<Longrightarrow> \<exists>n'. upds cs n = Inr n' \<and> ok n'"
proof (induction cs arbitrary: n)
  case Nil
  then show ?case by simp
next
  case (Cons c cs)
  with upd_total [OF Cons.prems, of c] upd_ok show ?case by fastforce
qed

lemma upds_keep:
  "ok n \<Longrightarrow> upds cs n = Inr n' \<Longrightarrow> raised n (ptr_of c n) \<Longrightarrow>
     raised n' (ptr_of c n') \<and> ptr_of c n' = ptr_of c n"
proof (induction cs arbitrary: n)
  case Nil
  then show ?case by simp
next
  case (Cons d cs)
  then obtain m where m: "upd d n = Inr m" "upds cs m = Inr n'"
    by (auto split: sum.splits)
  then have "ok m" "raised m (ptr_of c m)" "ptr_of c m = ptr_of c n"
    using Cons.prems upd_ok upd_keeps upd_stable by metis+
  with Cons.IH m show ?case by metis
qed

lemma upds_raise: "ok n \<Longrightarrow> upds cs n = Inr n' \<Longrightarrow> c \<in> set cs \<Longrightarrow> raised n' (ptr_of c n')"
proof (induction cs arbitrary: n)
  case Nil
  then show ?case by simp
next
  case (Cons d cs)
  then obtain m where m: "upd d n = Inr m" "upds cs m = Inr n'"
    by (auto split: sum.splits)
  with Cons.prems upd_ok have "ok m" by metis
  show ?case
  proof (cases "c \<in> set cs")
    case True
    with Cons.IH [OF \<open>ok m\<close> m(2)] show ?thesis .
  next
    case False
    with Cons.prems m upd_raises have "raised m (ptr_of c m)" by auto
    with upds_keep [OF \<open>ok m\<close> m(2)] show ?thesis by blast
  qed
qed

end

text \<open>Every pointer of the map is to a flag of the heap, and no two channels share one.\<close>

definition notifier_ok :: "notifier \<Rightarrow> bool" where
  "notifier_ok n \<longleftrightarrow>
     (\<forall>c ptr. smap_find (flag_map n) c = Some ptr \<longrightarrow>
        (\<exists>p. ptr = Some p \<and> p < length (flag_heap n)))
     \<and> (\<forall>c d p. smap_find (flag_map n) c = Some (Some p) \<longrightarrow>
          smap_find (flag_map n) d = Some (Some p) \<longrightarrow> c = d)"

definition flag_raised :: "notifier \<Rightarrow> flag_ptr \<Rightarrow> bool" where
  "flag_raised n ptr \<longleftrightarrow> load_flag (flag_heap n) ptr = Inr True"

lemma flag_raised_iff:
  "flag_raised n ptr \<longleftrightarrow> (\<exists>p. ptr = Some p \<and> p < length (flag_heap n) \<and> flag_heap n ! p)"
  by (auto simp: flag_raised_def load_flag_def split: option.splits)

lemma notifier_update_total:
  assumes "notifier_ok n"
  shows "\<exists>n'. notifier_update c n = Inr n'"
  using assms by (fastforce simp: notifier_ok_def notifier_update_def split: option.splits)

lemma notifier_okI:
  assumes "\<And>c ptr. smap_find (flag_map n) c = Some ptr \<Longrightarrow>
      \<exists>p. ptr = Some p \<and> p < length (flag_heap n)"
    and "\<And>c d p. smap_find (flag_map n) c = Some (Some p) \<Longrightarrow>
      smap_find (flag_map n) d = Some (Some p) \<Longrightarrow> c = d"
  shows "notifier_ok n"
  using assms by (auto simp: notifier_ok_def)

lemma notifier_okD:
  assumes "notifier_ok n" and "smap_find (flag_map n) c = Some ptr"
  obtains p where "ptr = Some p" and "p < length (flag_heap n)"
    and "\<And>d. smap_find (flag_map n) d = Some (Some p) \<Longrightarrow> d = c"
  using assms unfolding notifier_ok_def by metis

lemma notifier_update_ok:
  assumes ok: "notifier_ok n" and upd: "notifier_update c n = Inr n'"
  shows "notifier_ok n'"
proof (cases "smap_find (flag_map n) c")
  case None
  let ?new = "length (flag_heap n)"
  from None upd have n': "smap_find (flag_map n') = (smap_find (flag_map n))(c \<mapsto> Some ?new)"
    "length (flag_heap n') = Suc ?new"
    by (auto simp: notifier_update_def)
  have old: "\<exists>p. ptr = Some p \<and> p < ?new" if "smap_find (flag_map n) d = Some ptr" for d ptr
    using ok that by (rule notifier_okD) blast
  show ?thesis
  proof (rule notifier_okI)
    show "\<exists>p. ptr = Some p \<and> p < length (flag_heap n')"
      if "smap_find (flag_map n') d = Some ptr" for d ptr
      using that old [of d ptr] n' by (auto split: if_splits)
    show "d = e" if "smap_find (flag_map n') d = Some (Some p)"
      and "smap_find (flag_map n') e = Some (Some p)" for d e p
      using that old [of d "Some p"] old [of e "Some p"] n' ok
      by (auto simp: notifier_ok_def split: if_splits)
  qed
next
  case (Some ptr)
  then obtain p where "ptr = Some p" using ok by (auto elim: notifier_okD)
  with Some upd have n': "n' = n\<lparr>flag_heap := (flag_heap n)[p := True]\<rparr>"
    by (simp add: notifier_update_def)
  from ok show ?thesis unfolding n' notifier_ok_def by simp
qed

lemma notifier_update_raises:
  "notifier_ok n \<Longrightarrow> notifier_update c n = Inr n' \<Longrightarrow> flag_raised n' (fst (pass_ptr c n'))"
  by (fastforce simp: notifier_ok_def notifier_update_def flag_raised_iff pass_ptr_def
      smap_get_def split: option.splits)

lemma list_update_True_keeps: "q < length h \<Longrightarrow> h ! q \<Longrightarrow> h[p := True] ! q"
  by (cases "p = q") simp_all

lemma notifier_update_keeps:
  "notifier_update d n = Inr n' \<Longrightarrow> flag_raised n p \<Longrightarrow> flag_raised n' p"
  by (auto simp: notifier_update_def flag_raised_iff nth_append list_update_True_keeps
      split: option.splits)

lemma notifier_update_stable:
  "notifier_update d n = Inr n' \<Longrightarrow> flag_raised n (fst (pass_ptr c n)) \<Longrightarrow>
     fst (pass_ptr c n') = fst (pass_ptr c n)"
  by (auto simp: notifier_update_def flag_raised_iff pass_ptr_def smap_get_def
      split: option.splits if_splits)

interpretation notify_board:
  flag_board notifier_update "\<lambda>c n. fst (pass_ptr c n)" flag_raised notifier_ok
  by unfold_locales
    (blast intro: notifier_update_total notifier_update_ok notifier_update_raises
        notifier_update_keeps notifier_update_stable)+

text \<open>The pointer taken after an update leaves the map alone: the channel is in it.\<close>

lemma pass_ptr_known: "smap_find (flag_map n) c \<noteq> None \<Longrightarrow> snd (pass_ptr c n) = n"
  by (auto simp: pass_ptr_def smap_index_def smap_count_def)

lemma notifier_update_known:
  "notifier_update c n = Inr n' \<Longrightarrow> smap_find (flag_map n') c \<noteq> None"
  by (auto simp: notifier_update_def split: option.splits)

section \<open>Properties\<close>

text \<open>A sequence of updates, as the main thread makes them.\<close>

fun raise_all :: "string list \<Rightarrow> notifier \<Rightarrow> error + notifier" where
  "raise_all [] n = Inr n"
| "raise_all (c # cs) n = (case notifier_update c n of Inl e \<Rightarrow> Inl e | Inr n' \<Rightarrow> raise_all cs n')"

lemma raise_all_upds: "raise_all cs n = notify_board.upds cs n"
  by (induction cs arbitrary: n) (simp_all split: sum.splits)

text \<open>C27: The notifier keeps its promise to the threads: whatever channels are notified, in whatever order,
  no update fails; the flag of every notified channel is raised when it is read through the pointer
  that \<open>pass_ptr\<close> hands out, a pointer handed out earlier stays the channel's and its flag raised, and
  two channels never share a flag.\<close>

theorem notifier_flags:
  assumes "notifier_ok n"
  shows "\<exists>n'. raise_all cs n = Inr n' \<and> notifier_ok n'
    \<and> (\<forall>c \<in> set cs. load_flag (flag_heap n') (fst (pass_ptr c n')) = Inr True)
    \<and> (\<forall>c. flag_raised n (fst (pass_ptr c n)) \<longrightarrow>
        fst (pass_ptr c n') = fst (pass_ptr c n) \<and> flag_raised n' (fst (pass_ptr c n')))
    \<and> (\<forall>c \<in> set cs. \<forall>d \<in> set cs. c \<noteq> d \<longrightarrow> fst (pass_ptr c n') \<noteq> fst (pass_ptr d n'))"
proof -
  obtain n' where n': "raise_all cs n = Inr n'" "notifier_ok n'"
    using notify_board.upds_total [OF assms] unfolding raise_all_upds by blast
  note upds = n'(1) [unfolded raise_all_upds]
  have raised: "flag_raised n' (fst (pass_ptr c n'))" if "c \<in> set cs" for c
    using notify_board.upds_raise [OF assms upds that] .
  have "fst (pass_ptr c n') \<noteq> fst (pass_ptr d n')" if "c \<in> set cs" "d \<in> set cs" "c \<noteq> d" for c d
    using raised [OF that(1)] raised [OF that(2)] n'(2) that(3)
    by (auto simp: flag_raised_iff pass_ptr_def smap_get_def notifier_ok_def split: option.splits)
  moreover have "fst (pass_ptr c n') = fst (pass_ptr c n) \<and> flag_raised n' (fst (pass_ptr c n'))"
    if "flag_raised n (fst (pass_ptr c n))" for c
    using notify_board.upds_keep [OF assms upds that] by blast
  ultimately show ?thesis
    using n' raised unfolding flag_raised_def by blast
qed

lemma notifier_flags_witness:
  "\<exists>n'. raise_all [''#a'', ''#b'', ''#a''] \<lparr>flag_map = [], flag_heap = []\<rparr> = Inr n'
     \<and> load_flag (flag_heap n') (fst (pass_ptr ''#b'' n')) = Inr True"
  using notifier_flags [of "\<lparr>flag_map = [], flag_heap = []\<rparr>" "[''#a'', ''#b'', ''#a'']"]
  by (auto simp: notifier_ok_def)

end
