(* ===== verification/Lab.thy ===== *)
theory Lab
  imports World
begin

text \<open>
  A concrete environment in which the witnesses of the theorems run: connections that stay up, a
  database that answers every statement with one row, quoting that doubles quotation marks, a
  digest that is the length of its input. Witnesses that need a failure override single fields.
\<close>

definition lab_peer :: "sock \<Rightarrow> endpoint" where
  "lab_peer k = Endpoint 0x7F000001 (of_nat (6000 + k))"

definition lab_quote :: "string \<Rightarrow> string" where
  "lab_quote s =
     [CHR 0x27] @ concat (map (\<lambda>c. if c = CHR 0x27 then [c, c] else [c]) s) @ [CHR 0x27]"

definition lab_env :: env where
  "lab_env = \<lparr>
     remote_ep = \<lambda>t k. Some (lab_peer k),
     local_ep = \<lambda>t k. Some (Endpoint 0x7F000001 8080),
     avail = \<lambda>t k. Some 0,
     read_some = \<lambda>t k. [],
     write_ec = \<lambda>t k m. False,
     connect_ok = \<lambda>t k e. True,
     accept_sock = \<lambda>t. Would_block,
     set_option_ok = \<lambda>t k. True,
     ip_text = \<lambda>a. ''127.0.0.1'',
     db_connect = \<lambda>t c. Some 0,
     begin_ok = \<lambda>t c. True,
     exec_sql = \<lambda>t c q. Some [[Some ''1'']],
     commit_ok = \<lambda>t c. True,
     sql_quote = lab_quote,
     field_string = \<lambda>f. f,
     field_bool = \<lambda>f. map_option (\<lambda>s. s = ''1'') f,
     field_text = \<lambda>f. (case f of None \<Rightarrow> [] | Some s \<Rightarrow> s),
     signal_at = \<lambda>t. False,
     sha256_ok = \<lambda>m. True,
     sha256_md = \<lambda>m. replicate 32 (length m mod 256),
     char_max = 255,
     what_text = \<lambda>e. ''std::exception''\<rparr>"

lemma lab_env_fields [simp]:
  "remote_ep lab_env t k = Some (lab_peer k)"
  "local_ep lab_env t k = Some (Endpoint 0x7F000001 8080)"
  "avail lab_env t k = Some 0"
  "read_some lab_env t k = []"
  "write_ec lab_env t k m = False"
  "connect_ok lab_env t k e"
  "accept_sock lab_env t = Would_block"
  "set_option_ok lab_env t k"
  "ip_text lab_env a = ''127.0.0.1''"
  "db_connect lab_env t d = Some 0"
  "begin_ok lab_env t c"
  "exec_sql lab_env t c q = Some [[Some ''1'']]"
  "commit_ok lab_env t c"
  "sql_quote lab_env = lab_quote"
  "field_string lab_env f = f"
  "field_bool lab_env f = map_option (\<lambda>s. s = ''1'') f"
  "signal_at lab_env t = False"
  "sha256_ok lab_env m"
  "sha256_md lab_env m = replicate 32 (length m mod 256)"
  "char_max lab_env = 255"
  "what_text lab_env x = ''std::exception''"
  by (simp_all add: lab_env_def)

lemma lab_steady: "steady lab_env lab_peer K"
  by (simp add: steady_def)

lemma dotted_decimalI:
  "s = a @ ''.'' @ b @ ''.'' @ c @ ''.'' @ d \<Longrightarrow> \<forall>g \<in> {a, b, c, d}. g \<noteq> [] \<and> list_all is_digit g
    \<Longrightarrow> dotted_decimal s"
  unfolding dotted_decimal_def by blast

lemma lab_dotted: "dotted_decimal (ip_text lab_env a)"
  by (rule dotted_decimalI [of _ "''127''" "''0''" "''0''" "''1''"]) (simp_all add: is_digit_def)



end
