(* ===== verification/Sockio.thy ===== *)
theory Sockio
  imports Lab
begin

text \<open>
  \<open>shared/sockio\<close>: splitting received text into messages, and the blocking reads and writes that
  the server, the channel threads and the client share.
\<close>

section \<open>split\<close>

text \<open>
  The \<open>do ... while\<close> loop of \<open>split\<close>: \<open>find\<close> the next delimiter from \<open>offset\<close>, push what lies
  before it and move past it, or push the rest and stop. With an empty delimiter the loop makes
  no progress and never returns (\<open>None\<close>).
\<close>

partial_function (option) split_loop ::
  "string \<Rightarrow> string \<Rightarrow> nat \<Rightarrow> string list \<Rightarrow> (error + string list) option" where
  "split_loop full_msg delim offset msgs =
     (case find_from full_msg delim offset of
        Some endpos \<Rightarrow>
          (case substr_n full_msg offset (endpos - offset) of
             Inl e \<Rightarrow> Some (Inl e)
           | Inr temp \<Rightarrow> split_loop full_msg delim (endpos + length delim) (msgs @ [temp]))
      | None \<Rightarrow>
          (case substr full_msg offset of
             Inl e \<Rightarrow> Some (Inl e)
           | Inr temp \<Rightarrow> Some (Inr (msgs @ [temp]))))"

declare split_loop.simps [code]

definition split :: "string \<Rightarrow> string \<Rightarrow> (error + string list) option" where
  "split full_msg delim = split_loop full_msg delim 0 []"

text \<open>A call of \<open>split\<close> from another function.\<close>

definition split_msg :: "string \<Rightarrow> string \<Rightarrow> ('s, string list) cmd" where
  "split_msg full_msg delim =
     (case split full_msg delim of None \<Rightarrow> throw Hangs | Some r \<Rightarrow> lift r)"

text \<open>Reference: the pieces of a string, by recursion on the string.\<close>

function pieces :: "string \<Rightarrow> string \<Rightarrow> string list" where
  "pieces d s =
     (case find_idx d s of
        None \<Rightarrow> [s]
      | Some i \<Rightarrow> if d = [] then [s] else take i s # pieces d (drop (i + length d) s))"
  by pat_completeness auto
termination
proof (relation "measure (\<lambda>(d, s). length s)")
  fix d s :: string and i
  assume "find_idx d s = Some i" and "d \<noteq> []"
  then show "((d, drop (i + length d) s), (d, s)) \<in> measure (\<lambda>(d, s). length s)"
    using find_idx_Some_bound [of d s i] by (cases d) auto
qed simp

declare pieces.simps [simp del]

text \<open>
  The lists of pieces that a split can return: no delimiter begins inside a piece, not even one
  that the delimiter after the piece would complete, and the last piece holds none.
\<close>

fun separated :: "string \<Rightarrow> string list \<Rightarrow> bool" where
  "separated d [] = False"
| "separated d [p] = (find_idx d p = None)"
| "separated d (p # q # ps) = (find_idx d (p @ d) = Some (length p) \<and> separated d (q # ps))"

lemma pieces_None: "find_idx d s = None \<Longrightarrow> pieces d s = [s]"
  by (simp add: pieces.simps)

lemma pieces_Some:
  "find_idx d s = Some i \<Longrightarrow> d \<noteq> [] \<Longrightarrow> pieces d s = take i s # pieces d (drop (i + length d) s)"
  by (simp add: pieces.simps)

lemma pieces_Nil_delim: "pieces [] s = [s]"
  by (simp add: pieces.simps)

lemma pieces_not_Nil [simp]: "pieces d s \<noteq> []"
  by (subst pieces.simps) (simp split: option.splits)

lemma join_pieces: "join d (pieces d s) = s"
proof (induction d s rule: pieces.induct)
  case (1 d s)
  show ?case
  proof (cases "find_idx d s")
    case None
    then show ?thesis by (simp add: pieces_None)
  next
    case (Some i)
    show ?thesis
    proof (cases "d = []")
      case True
      then show ?thesis by (simp add: pieces_Nil_delim)
    next
      case False
      with Some 1 have "join d (pieces d s) = take i s @ d @ drop (i + length d) s"
        by (simp add: pieces_Some join_Cons)
      with find_idx_Some_decomp [OF Some] show ?thesis by simp
    qed
  qed
qed

lemma find_idx_self: "find_idx d d = Some 0"
  by (cases d) (simp_all add: starts_with_def)

lemma find_idx_cut:
  assumes "find_idx d (u @ d @ v) = Some (length u)"
  shows "find_idx d (u @ d) = Some (length u)"
proof -
  obtain j where j: "find_idx d (u @ d) = Some j"
    using find_idx_first [of d u "[]"] by auto
  with find_idx_append [OF this, of v] assms show ?thesis by simp
qed

lemma separated_pieces: "d \<noteq> [] \<Longrightarrow> separated d (pieces d s)"
proof (induction d s rule: pieces.induct)
  case (1 d s)
  show ?case
  proof (cases "find_idx d s")
    case None
    then show ?thesis by (simp add: pieces_None)
  next
    case (Some i)
    let ?u = "take i s" and ?v = "drop (i + length d) s"
    have s: "s = ?u @ d @ ?v" and len: "length ?u = i"
      using find_idx_Some_decomp [OF Some] find_idx_Some_bound [OF Some] by simp_all
    then have "find_idx d (?u @ d) = Some (length ?u)"
      using find_idx_cut [of d ?u ?v] Some by simp
    moreover have "separated d (pieces d ?v)"
      using 1 Some by simp
    moreover obtain q qs where "pieces d ?v = q # qs"
      using pieces_not_Nil by (meson neq_Nil_conv)
    ultimately show ?thesis
      using Some 1 by (simp add: pieces_Some)
  qed
qed

lemma pieces_join: "d \<noteq> [] \<Longrightarrow> separated d ps \<Longrightarrow> pieces d (join d ps) = ps"
proof (induction d ps rule: separated.induct)
  case (1 d)
  then show ?case by simp
next
  case (2 d p)
  then show ?case by (simp add: pieces_None)
next
  case (3 d p q ps)
  then have "find_idx d ((p @ d) @ join d (q # ps)) = Some (length p)"
    by (intro find_idx_append [where s = "p @ d"]) simp
  with 3 show ?case by (simp add: pieces_Some)
qed

text \<open>The loop computes the pieces of what lies after \<open>offset\<close>.\<close>

lemma find_from_drop: "offset \<le> length s \<Longrightarrow>
    find_from s d offset = map_option (\<lambda>i. offset + i) (find_idx d (drop offset s))"
  by (simp add: find_from_def)

lemma split_loop_pieces:
  "d \<noteq> [] \<Longrightarrow> offset \<le> length full \<Longrightarrow> drop offset full = s \<Longrightarrow>
     split_loop full d offset msgs = Some (Inr (msgs @ pieces d s))"
proof (induction d s arbitrary: offset msgs rule: pieces.induct)
  case (1 d s)
  show ?case
  proof (cases "find_idx d s")
    case None
    with 1 show ?thesis
      by (simp add: split_loop.simps [of full] find_from_drop substr_def pieces_None)
  next
    case (Some i)
    have i: "i + length d \<le> length s" by (rule find_idx_Some_bound [OF Some])
    have "split_loop full d offset msgs
        = split_loop full d (offset + i + length d) (msgs @ [take i s])"
      using 1 Some by (simp add: split_loop.simps [of full d offset] find_from_drop substr_n_def)
    also have "\<dots> = Some (Inr ((msgs @ [take i s]) @ pieces d (drop (i + length d) s)))"
      by (rule "1.IH" [OF Some]) (use 1 i in \<open>auto simp: drop_drop ac_simps\<close>)
    finally show ?thesis using Some "1.prems"(1) by (simp add: pieces_Some)
  qed
qed

lemma split_pieces: "d \<noteq> [] \<Longrightarrow> split s d = Some (Inr (pieces d s))"
  unfolding split_def by (subst split_loop_pieces [where s = s]) simp_all

text \<open>
  What the callers of \<open>split\<close> rely on: for a delimiter that is not empty it returns, the pieces
  joined by the delimiter are the input, and every separated list is recovered from its join.
\<close>

locale splitter =
  fixes splt :: "string \<Rightarrow> string \<Rightarrow> (error + string list) option"
  assumes splt_total:
      "d \<noteq> [] \<Longrightarrow> \<exists>ps. splt s d = Some (Inr ps) \<and> separated d ps \<and> join d ps = s"
    and splt_join: "d \<noteq> [] \<Longrightarrow> separated d ps \<Longrightarrow> splt (join d ps) d = Some (Inr ps)"
begin

lemma splt_none: "d \<noteq> [] \<Longrightarrow> find_idx d s = None \<Longrightarrow> splt s d = Some (Inr [s])"
  using splt_join [of d "[s]"] by simp

lemma splt_two:
  "d \<noteq> [] \<Longrightarrow> find_idx d (u @ d) = Some (length u) \<Longrightarrow> find_idx d v = None \<Longrightarrow>
     splt (u @ d @ v) d = Some (Inr [u, v])"
  using splt_join [of d "[u, v]"] by simp

lemma splt_after:
  "d \<noteq> [] \<Longrightarrow> find_idx d v = None \<Longrightarrow> splt (d @ v) d = Some (Inr [[], v])"
  using splt_two [of d "[]" v] by (simp add: find_idx_self)

lemma splt_not_Nil: "d \<noteq> [] \<Longrightarrow> splt s d = Some (Inr ps) \<Longrightarrow> ps \<noteq> []"
  using splt_total [of d s] by auto

end

interpretation sock_split: splitter split
proof unfold_locales
  show "\<exists>ps. split s d = Some (Inr ps) \<and> separated d ps \<and> join d ps = s" if "d \<noteq> []" for d s
    using that by (simp add: split_pieces separated_pieces join_pieces)
  show "split (join d ps) d = Some (Inr ps)" if "d \<noteq> []" and "separated d ps" for d ps
    using that by (simp add: split_pieces pieces_join)
qed

lemma pieces_after: "d \<noteq> [] \<Longrightarrow> find_idx d v = None \<Longrightarrow> pieces d (d @ v) = [[], v]"
  using sock_split.splt_after [of d v] split_pieces [of d "d @ v"] by simp

lemma run_split_msg [run]: "d \<noteq> [] \<Longrightarrow> split_msg s d = (\<lambda>t. (Inr (pieces d s), t))"
  by (simp add: split_msg_def split_pieces fun_eq_iff run)

lemma wp_split_msg [wp_simps]: "d \<noteq> [] \<Longrightarrow> wp (split_msg s d) Q R t = Q (pieces d s) t"
  by (simp add: run_split_msg wp_def)

section \<open>Writing\<close>

text \<open>
  \<open>try_writing_to_sock\<close> takes the last two characters with \<open>substr(length - 2)\<close>. The
  subtraction is unsigned: for a message of fewer than two characters it wraps, and \<open>substr\<close>
  throws \<open>out_of_range\<close>.
\<close>

definition suffix_error :: error where
  "suffix_error = Invalid_argument
     (''All IRC msgs need '' @ [CHR 0x5C] @ ''r'' @ [CHR 0x5C] @ ''n suffix'')"

definition try_writing_to_sock :: "env \<Rightarrow> sock \<Rightarrow> string \<Rightarrow> ('z, bool) io" where
  "try_writing_to_sock E k msg =
     bindE (lift (substr msg (size_minus (length msg) 2))) (\<lambda>suffix.
       if suffix \<noteq> crlf then throw suffix_error
       else write_all E k msg)"

definition ends_crlf :: "string \<Rightarrow> bool" where
  "ends_crlf m \<longleftrightarrow> 2 \<le> length m \<and> drop (length m - 2) m = crlf"

lemma ends_crlf_append [simp]: "ends_crlf (m @ crlf)"
  by (simp add: ends_crlf_def)

lemma ends_crlf_appendI [simp]: "ends_crlf n \<Longrightarrow> ends_crlf (m @ n)"
  by (auto simp: ends_crlf_def)

lemma ends_crlf_ConsI [simp]: "ends_crlf n \<Longrightarrow> ends_crlf (c # n)"
  using ends_crlf_appendI [of n "[c]"] by simp

lemma ends_crlf_crlf [simp]: "ends_crlf crlf"
  by (simp add: ends_crlf_def)

lemma try_writing_cases:
  "try_writing_to_sock E k msg s =
    (if length msg < 2 then (Inl Out_of_range, s)
     else if \<not> ends_crlf msg then (Inl suffix_error, s)
     else (Inr (write_ec E (trace s) k msg), s\<lparr>trace := trace s @ [Ev_write k msg]\<rparr>))"
  by (auto simp: try_writing_to_sock_def substr_def size_minus_def ends_crlf_def socket_defs run)

section \<open>Reading\<close>

definition BUFF_SIZE :: nat where
  "BUFF_SIZE = 1024"

text \<open>
  \<open>std::string full_msg(buff.data())\<close>: the zero-initialised buffer with the bytes read in it, up to
  the first NUL. If the bytes fill the buffer and hold no NUL the constructor reads past its end.
\<close>

definition buff_string :: "string \<Rightarrow> error + string" where
  "buff_string data =
     (let buff = data @ replicate (BUFF_SIZE - length data) nul
      in if nul \<in> set buff then Inr (takeWhile (\<lambda>c. c \<noteq> nul) buff)
         else Inl (UB Buffer_overread))"

text \<open>Both readers: read once, split at CRLF, append the messages that are not empty.\<close>

definition read_messages :: "env \<Rightarrow> sock \<Rightarrow> string list \<Rightarrow> ('z, string list) io" where
  "read_messages E k sock_msgs =
     bindE (read_into E k BUFF_SIZE) (\<lambda>data.
     bindE (lift (buff_string data)) (\<lambda>full_msg.
     bindE (split_msg full_msg crlf) (\<lambda>msgs.
       ret (sock_msgs @ filter (\<lambda>m. m \<noteq> []) msgs))))"

definition pop_front :: "string list \<Rightarrow> ('s, string \<times> string list) cmd" where
  "pop_front sock_msgs =
     (case sock_msgs of [] \<Rightarrow> throw (UB Front_of_empty) | m # ms \<Rightarrow> ret (m, ms))"

definition try_reading_from_sock ::
  "env \<Rightarrow> sock \<Rightarrow> string list \<Rightarrow> ('z, string \<times> string list) io" where
  "try_reading_from_sock E k sock_msgs =
     (if sock_msgs \<noteq> [] then pop_front sock_msgs
      else bindE (read_messages E k sock_msgs) pop_front)"

definition update_sockmsgs :: "env \<Rightarrow> sock \<Rightarrow> string list \<Rightarrow> ('z, string list) io" where
  "update_sockmsgs E k sock_msgs =
     bindE (available E k) (\<lambda>len.
       if len \<le> 0 then ret sock_msgs else read_messages E k sock_msgs)"

text \<open>What one read delivers, as a function of the bytes.\<close>

definition messages_of :: "string \<Rightarrow> string list" where
  "messages_of data = filter (\<lambda>m. m \<noteq> []) (pieces crlf (takeWhile (\<lambda>c. c \<noteq> nul) data))"

lemma takeWhile_no_nul: "nul \<notin> set s \<Longrightarrow> takeWhile (\<lambda>c. c \<noteq> nul) s = s"
  by (auto simp: takeWhile_eq_all_conv)

lemma takeWhile_nul: "nul \<notin> set s \<Longrightarrow> takeWhile (\<lambda>c. c \<noteq> nul) (s @ nul # t) = s"
  by (induction s) auto

lemma buff_string_short:
  "length data < BUFF_SIZE \<Longrightarrow> buff_string data = Inr (takeWhile (\<lambda>c. c \<noteq> nul) data)"
proof -
  assume "length data < BUFF_SIZE"
  then obtain n where n: "BUFF_SIZE - length data = Suc n"
    by (metis Suc_diff_Suc)
  show ?thesis
  proof (cases "nul \<in> set data")
    case True
    then obtain u v where "data = u @ nul # v" "nul \<notin> set u" by (meson split_list_first)
    then show ?thesis by (simp add: buff_string_def Let_def n takeWhile_nul)
  next
    case False
    then show ?thesis
      by (simp add: buff_string_def Let_def n takeWhile_nul takeWhile_no_nul)
  qed
qed

lemma buff_string_full:
  "BUFF_SIZE \<le> length data \<Longrightarrow> nul \<notin> set data \<Longrightarrow> buff_string data = Inl (UB Buffer_overread)"
  by (simp add: buff_string_def)

lemma run_read_messages:
  assumes "length (read_some E (trace s) k) < BUFF_SIZE"
  shows "read_messages E k q s =
    (Inr (q @ messages_of (read_some E (trace s) k)), s\<lparr>trace := trace s @ [Ev_read k]\<rparr>)"
  using assms by (simp add: read_messages_def socket_defs run buff_string_short messages_of_def)

lemma wp_read_messages:
  "length (read_some E (trace s) k) < BUFF_SIZE \<Longrightarrow>
     wp (read_messages E k q) Q R s =
       Q (q @ messages_of (read_some E (trace s) k)) (s\<lparr>trace := trace s @ [Ev_read k]\<rparr>)"
  by (simp add: wp_def run_read_messages)

text \<open>A stream of complete lines in one read gives the lines.\<close>

definition lines_text :: "string list \<Rightarrow> string" where
  "lines_text ms = concat (map (\<lambda>m. m @ crlf) ms)"

definition line :: "string \<Rightarrow> bool" where
  "line m \<longleftrightarrow> m \<noteq> [] \<and> CHR 0x0A \<notin> set m \<and> CHR 0x0D \<notin> set m \<and> nul \<notin> set m"

lemma find_crlf_line: "line m \<Longrightarrow> find_idx crlf (m @ crlf @ t) = Some (length m)"
  by (rule find_idx_head_notin [where c = "CHR 0x0D" and q = "[CHR 0x0A]"])
    (auto simp: line_def crlf_def)

lemma pieces_lines:
  "list_all line ms \<Longrightarrow> pieces crlf (lines_text ms @ t) = ms @ pieces crlf t"
proof (induction ms)
  case Nil
  then show ?case by (simp add: lines_text_def)
next
  case (Cons m ms)
  then have "find_idx crlf (lines_text (m # ms) @ t) = Some (length m)"
    using find_crlf_line [of m] by (simp add: lines_text_def)
  with Cons show ?case by (simp add: pieces_Some) (simp add: lines_text_def)
qed

lemma lines_text_no_nul: "list_all line ms \<Longrightarrow> nul \<notin> set (lines_text ms)"
  by (auto simp: lines_text_def line_def crlf_def nul_def list_all_iff)

lemma messages_of_lines: "list_all line ms \<Longrightarrow> messages_of (lines_text ms) = ms"
proof -
  assume ms: "list_all line ms"
  have "pieces crlf (lines_text ms) = ms @ [[]]"
    using pieces_lines [OF ms, of "[]"] by (simp add: pieces_None crlf_def)
  moreover have "filter (\<lambda>m. m \<noteq> []) ms = ms"
    using ms by (auto simp: filter_id_conv line_def list_all_iff)
  ultimately show ?thesis
    by (simp add: messages_of_def takeWhile_no_nul lines_text_no_nul [OF ms])
qed

lemma pieces_line: "line m \<Longrightarrow> pieces crlf m = [m]"
  by (rule pieces_None, rule find_idx_None_notin [of "CHR 0x0D"])
    (simp_all add: line_def crlf_def)

lemma messages_of_single: "line m \<Longrightarrow> messages_of m = [m]"
  by (simp add: messages_of_def pieces_line) (simp add: takeWhile_no_nul pieces_line line_def)

lemma messages_of_Nil [simp]: "messages_of [] = []"
  by (simp add: messages_of_def pieces_None crlf_def)

section \<open>Properties\<close>

lemma split_empty_loops: "split_loop s d i msgs = Some y \<Longrightarrow> d = [] \<Longrightarrow> length s < i"
proof (induction s d i msgs y rule: split_loop.raw_induct [rotated 1, consumes 1, case_names step])
  case (step loop s d i msgs y)
  then show ?case
    by (cases "length s < i") (auto simp: find_from_def substr_n_def)
qed

text \<open>C24: \<open>split\<close> is the inverse of joining: with a delimiter that is not empty it returns for every text,
  and what it returns is the one list of pieces that joined with the delimiter gives the text back and
  of which no piece holds the delimiter, not even together with the delimiter that follows it. With an
  empty delimiter it never returns.\<close>

theorem split_inverts_join:
  "(d \<noteq> [] \<longrightarrow> (split s d = Some (Inr ps) \<longleftrightarrow> separated d ps \<and> join d ps = s)) \<and> split s [] = None"
proof -
  have "split s [] = None"
    using split_empty_loops [of s "[]" 0 "[]"] by (cases "split s []") (auto simp: split_def)
  moreover have "split s d = Some (Inr ps) \<longleftrightarrow> separated d ps \<and> join d ps = s" if "d \<noteq> []"
  proof
    assume "split s d = Some (Inr ps)"
    with sock_split.splt_total [OF that, of s] show "separated d ps \<and> join d ps = s" by auto
  next
    assume "separated d ps \<and> join d ps = s"
    with sock_split.splt_join [OF that, of ps] show "split s d = Some (Inr ps)" by auto
  qed
  ultimately show ?thesis by blast
qed

lemma split_inverts_join_witness:
  "split ''a b'' '' '' = Some (Inr [''a'', ''b''])"
  using split_inverts_join [of "'' ''" "''a b''" "[''a'', ''b'']"] by (simp add: starts_with_def)

lemma buff_string_cases:
  "length data \<le> BUFF_SIZE \<Longrightarrow> buff_string data =
     (if length data = BUFF_SIZE \<and> nul \<notin> set data then Inl (UB Buffer_overread)
      else Inr (takeWhile (\<lambda>c. c \<noteq> nul) data))"
  using buff_string_short [of data] buff_string_full [of data]
  by (auto simp: buff_string_def Let_def)

text \<open>C26: What \<open>update_sockmsgs\<close> makes of the bytes of a read: it appends the pieces between the line ends
  that are not empty, up to a NUL; a read that fills the buffer of 1024 bytes without a NUL is read
  past its end. So complete lines arrive as they were sent, but a line that two reads cut in two
  arrives as two messages.\<close>

theorem update_sockmsgs_bytes:
  assumes "avail E (trace s) k = Some (Suc n)"
    and "data = take 1024 (read_some E (trace s @ [Ev_available k]) k)"
  shows "update_sockmsgs E k q s =
      (if length data = 1024 \<and> nul \<notin> set data then Inl (UB Buffer_overread)
       else Inr (q @ messages_of data), s\<lparr>trace := trace s @ [Ev_available k, Ev_read k]\<rparr>)
    \<and> (\<forall>ms. list_all line ms \<longrightarrow> messages_of (lines_text ms) = ms)
    \<and> (\<forall>ms a b. list_all line ms \<longrightarrow> line a \<longrightarrow> line b \<longrightarrow>
        messages_of (lines_text ms @ a) @ messages_of (b @ crlf) = ms @ [a, b])"
proof (intro conjI allI impI)
  have "length data \<le> BUFF_SIZE" using assms(2) by (simp add: BUFF_SIZE_def)
  from buff_string_cases [OF this] show "update_sockmsgs E k q s =
      (if length data = 1024 \<and> nul \<notin> set data then Inl (UB Buffer_overread)
       else Inr (q @ messages_of data), s\<lparr>trace := trace s @ [Ev_available k, Ev_read k]\<rparr>)"
    using assms by (simp add: update_sockmsgs_def read_messages_def socket_defs run messages_of_def
        BUFF_SIZE_def)
next
  show "messages_of (lines_text ms) = ms" if "list_all line ms" for ms
    using that by (rule messages_of_lines)
next
  fix ms :: "string list" and a b :: string
  assume ms: "list_all line ms" and a: "line a" and b: "line b"
  have "pieces crlf (lines_text ms @ a) = ms @ [a]"
    using pieces_lines [OF ms, of a] pieces_line [OF a] by simp
  moreover have "nul \<notin> set (lines_text ms @ a)"
    using lines_text_no_nul [OF ms] a by (simp add: line_def)
  moreover have "filter (\<lambda>m. m \<noteq> []) ms = ms"
    using ms by (auto simp: filter_id_conv line_def list_all_iff)
  ultimately have "messages_of (lines_text ms @ a) = ms @ [a]"
    using a by (simp add: messages_of_def takeWhile_no_nul line_def)
  then show "messages_of (lines_text ms @ a) @ messages_of (b @ crlf) = ms @ [a, b]"
    using messages_of_lines [of "[b]"] b by (simp add: lines_text_def)
qed

lemma update_sockmsgs_bytes_witness:
  "fst (update_sockmsgs (lab_env\<lparr>avail := \<lambda>t k. Some 3, read_some := \<lambda>t k. ''hi'' @ crlf\<rparr>) 7 [] \<lparr>trace = []\<rparr>)
    = Inr [''hi'']"
proof -
  let ?E = "lab_env\<lparr>avail := \<lambda>t k. Some 3, read_some := \<lambda>t k. ''hi'' @ crlf\<rparr>"
  have "messages_of (''hi'' @ crlf) = [''hi'']"
    using messages_of_lines [of "[''hi'']"] by (simp add: lines_text_def line_def nul_def)
  with update_sockmsgs_bytes [of ?E "\<lparr>trace = []\<rparr>" 7 2 "''hi'' @ crlf" "[]"] show ?thesis by simp
qed

end
