(* ===== verification/Chitter.thy ===== *)
theory Chitter
  imports Users "HOL-Library.Sublist"
begin

text \<open>
  \<open>shared/chitter\<close>: the functions through which the server stores users, channels, messages and
  roles in PostgreSQL. Each opens a transaction on its connection, executes one statement whose
  text it builds from literals and quoted values, commits, and reads the result. The statement's
  text is a definition of its own (\<open>q_...\<close>), so that what reaches the database can be reasoned about.
\<close>

section \<open>Transactions and results\<close>

text \<open>
  \<open>pqxx::work\<close>: its constructor begins a transaction, \<open>exec\<close> and \<open>commit\<close> may throw, and the
  destructor aborts a transaction that \<open>exec\<close> left by an exception.
\<close>

definition work_begin :: "env \<Rightarrow> conn \<Rightarrow> ('z, unit) io" where
  "work_begin E c = call (Ev_begin c) (\<lambda>t. if begin_ok E t c then Inr () else Inl Pqxx_error)"

definition work_exec :: "env \<Rightarrow> conn \<Rightarrow> string \<Rightarrow> ('z, rows) io" where
  "work_exec E c q =
     bindE (call (Ev_exec c q) (\<lambda>t. Inr (exec_sql E t c q))) (\<lambda>r.
       case r of None \<Rightarrow> thenE (log_event (Ev_abort c)) (throw Pqxx_error) | Some x \<Rightarrow> ret x)"

definition work_commit :: "env \<Rightarrow> conn \<Rightarrow> ('z, unit) io" where
  "work_commit E c = call (Ev_commit c) (\<lambda>t. if commit_ok E t c then Inr () else Inl Pqxx_error)"

definition run_query :: "env \<Rightarrow> conn \<Rightarrow> string \<Rightarrow> ('z, rows) io" where
  "run_query E c q =
     thenE (work_begin E c) (bindE (work_exec E c q) (\<lambda>result. thenE (work_commit E c) (ret result)))"

text \<open>\<open>RESULT[i][j]\<close> is not checked; \<open>as<bool>()\<close> and \<open>as<std::string>()\<close> throw on a bad field.\<close>

definition cell :: "rows \<Rightarrow> nat \<Rightarrow> nat \<Rightarrow> error + field" where
  "cell r i j =
     (if i < length r \<and> j < length (r ! i) then Inr (r ! i ! j) else Inl (UB Result_index))"

definition cell_bool :: "env \<Rightarrow> rows \<Rightarrow> ('z, bool) io" where
  "cell_bool E r = bindE (lift (cell r 0 0)) (\<lambda>f. lift (or_throw Pqxx_error (field_bool E f)))"

definition cell_string :: "env \<Rightarrow> rows \<Rightarrow> nat \<Rightarrow> ('z, string) io" where
  "cell_string E r j =
     bindE (lift (cell r 0 j)) (\<lambda>f. lift (or_throw Pqxx_error (field_string E f)))"

section \<open>utils\<close>

text \<open>\<open>passValues\<close>: the loop over the index, with the test \<open>i < vals.size() - 1\<close> on \<open>size_t\<close>.\<close>

function pass_loop :: "(string \<Rightarrow> string) \<Rightarrow> string list \<Rightarrow> nat \<Rightarrow> string \<Rightarrow> string" where
  "pass_loop quote vals i ss =
     (if i < length vals
      then pass_loop quote vals (Suc i)
             (ss @ quote (vals ! i) @ (if i < length vals - 1 then '', '' else ''''))
      else ss)"
  by pat_completeness auto
termination
  by (relation "measure (\<lambda>(quote, vals, i, ss). length vals - i)") auto

declare pass_loop.simps [simp del]

definition passValues :: "(string \<Rightarrow> string) \<Rightarrow> string \<Rightarrow> string list \<Rightarrow> string" where
  "passValues quote ss vals = pass_loop quote vals 0 (ss @ ''('') @ '')''"

definition getCurrentDatetime :: "env \<Rightarrow> conn \<Rightarrow> ('z, string) io" where
  "getCurrentDatetime E c =
     bindE (run_query E c ''SELECT CURRENT_TIMESTAMP'') (\<lambda>r. cell_string E r 0)"

text \<open>\<open>printResult\<close>: one line for each field.\<close>

definition printResult :: "env \<Rightarrow> rows \<Rightarrow> ('z, unit) io" where
  "printResult E result =
     for_each (\<lambda>i. for_each (\<lambda>j.
         print_out (''result['' @ to_string i @ ''][''  @ to_string j @ ''] == ''
           @ field_text E (result ! i ! j) @ ''\<newline>'')) [0..<length (result ! i)])
       [0..<length result]"

lemma pass_loop_join:
  "i < length vals \<Longrightarrow>
     pass_loop quote vals i ss = ss @ join '', '' (map quote (drop i vals))"
proof (induction quote vals i ss rule: pass_loop.induct)
  case (1 quote vals i ss)
  have d: "drop i vals = vals ! i # drop (Suc i) vals"
    using 1 by (simp add: Cons_nth_drop_Suc)
  show ?case
  proof (cases "Suc i < length vals")
    case True
    with 1 d show ?thesis
      by (simp add: pass_loop.simps [of quote vals i] join_Cons)
  next
    case False
    with 1 d show ?thesis
      by (simp add: pass_loop.simps [of quote vals i] pass_loop.simps [of quote vals "Suc i"])
  qed
qed

lemma passValues_eq: "passValues quote ss vals = ss @ ''('' @ join '', '' (map quote vals) @ '')''"
proof (cases vals)
  case Nil
  then show ?thesis by (simp add: passValues_def pass_loop.simps)
next
  case (Cons v vs)
  then show ?thesis by (simp add: passValues_def pass_loop_join)
qed

section \<open>userFuncs\<close>

definition q_checkUserExists :: "env \<Rightarrow> string \<Rightarrow> string" where
  "q_checkUserExists E userID = ''SELECT COUNT(1) FROM Users WHERE userID = '' @ sql_quote E userID"

definition checkUserExists :: "env \<Rightarrow> conn \<Rightarrow> string \<Rightarrow> ('z, bool) io" where
  "checkUserExists E c userID = bindE (run_query E c (q_checkUserExists E userID)) (cell_bool E)"

definition q_password :: "env \<Rightarrow> string \<Rightarrow> string" where
  "q_password E userID = ''SELECT password FROM Users WHERE userid = '' @ sql_quote E userID"

definition verifyPassword :: "env \<Rightarrow> conn \<Rightarrow> string \<Rightarrow> string \<Rightarrow> ('z, bool) io" where
  "verifyPassword E c userID password =
     bindE (run_query E c (q_password E userID)) (\<lambda>r.
     bindE (cell_string E r 0) (\<lambda>p. ret (p = password)))"

definition q_updatePassword :: "env \<Rightarrow> string \<Rightarrow> string \<Rightarrow> string" where
  "q_updatePassword E userID newPassword =
     ''UPDATE Users SET password = '' @ sql_quote E newPassword @ '' ''
     @ ''WHERE userID = '' @ sql_quote E userID"

definition updatePassword :: "env \<Rightarrow> conn \<Rightarrow> string \<Rightarrow> string \<Rightarrow> ('z, unit) io" where
  "updatePassword E c userID newPassword =
     bindE (run_query E c (q_updatePassword E userID newPassword)) (\<lambda>_. ret ())"

definition q_insertUser :: "env \<Rightarrow> user \<Rightarrow> string" where
  "q_insertUser E u =
     passValues (sql_quote E) ''INSERT INTO Users (userID, password, realName, whoami) VALUES ''
       [u_nick u, u_pass u, u_real u, u_whoami u]"

definition insertUser :: "env \<Rightarrow> conn \<Rightarrow> user \<Rightarrow> ('z, unit) io" where
  "insertUser E c u = bindE (run_query E c (q_insertUser E u)) (\<lambda>_. ret ())"

definition handleUser :: "env \<Rightarrow> conn \<Rightarrow> user \<Rightarrow> ('z, bool) io" where
  "handleUser E c u =
     bindE (checkUserExists E c (u_nick u)) (\<lambda>userExists.
       if userExists then verifyPassword E c (u_nick u) (u_pass u)
       else thenE (insertUser E c u) (ret True))"

definition q_getBio :: "env \<Rightarrow> string \<Rightarrow> string" where
  "q_getBio E userID = ''SELECT bio FROM Users WHERE userID = '' @ sql_quote E userID"

definition getBio :: "env \<Rightarrow> conn \<Rightarrow> string \<Rightarrow> ('z, string) io" where
  "getBio E c userID = bindE (run_query E c (q_getBio E userID)) (\<lambda>r. cell_string E r 0)"

definition q_updateBio :: "env \<Rightarrow> string \<Rightarrow> string \<Rightarrow> string" where
  "q_updateBio E userID bio =
     ''UPDATE Users SET bio = '' @ sql_quote E bio @ ''WHERE userID = '' @ sql_quote E userID"

definition updateBio :: "env \<Rightarrow> conn \<Rightarrow> string \<Rightarrow> string \<Rightarrow> ('z, unit) io" where
  "updateBio E c userID bio = bindE (run_query E c (q_updateBio E userID bio)) (\<lambda>_. ret ())"

definition q_insertLogin :: "env \<Rightarrow> string \<Rightarrow> string \<Rightarrow> string \<Rightarrow> string \<Rightarrow> string" where
  "q_insertLogin E ip port datetime userID =
     passValues (sql_quote E)
       ''INSERT INTO UserMetaData (loginIp, loginPort, loginTime, userID) VALUES ''
       [ip, port, datetime, userID]"

definition insertLogin :: "env \<Rightarrow> conn \<Rightarrow> string \<Rightarrow> endpoint \<Rightarrow> ('z, unit) io" where
  "insertLogin E c userID endpoint =
     bindE (getCurrentDatetime E c) (\<lambda>datetime.
     bindE (run_query E c (q_insertLogin E (address_text E endpoint)
              (to_string (unat (ep_port endpoint))) datetime userID)) (\<lambda>_. ret ()))"

definition q_checkAlreadyFriends :: "env \<Rightarrow> string \<Rightarrow> string \<Rightarrow> string" where
  "q_checkAlreadyFriends E friend1ID friend2ID =
     ''SELECT COUNT (1) FROM Friends WHERE (friend1ID = '' @ sql_quote E friend1ID
     @ '' AND friend2ID = '' @ sql_quote E friend2ID @ '') ''"

definition checkAlreadyFriends :: "env \<Rightarrow> conn \<Rightarrow> string \<Rightarrow> string \<Rightarrow> ('z, bool) io" where
  "checkAlreadyFriends E c friend1ID friend2ID =
     bindE (run_query E c (q_checkAlreadyFriends E friend1ID friend2ID)) (cell_bool E)"

definition q_insertFriend :: "env \<Rightarrow> string \<Rightarrow> string \<Rightarrow> string \<Rightarrow> string" where
  "q_insertFriend E userID friendUserID dateTime =
     passValues (sql_quote E) ''INSERT INTO Friends (friend1ID, friend2ID, established) VALUES ''
       [userID, friendUserID, dateTime]"

definition insertFriend :: "env \<Rightarrow> conn \<Rightarrow> string \<Rightarrow> string \<Rightarrow> ('z, unit) io" where
  "insertFriend E c userID friendUserID =
     bindE (getCurrentDatetime E c) (\<lambda>dateTime.
     bindE (run_query E c (q_insertFriend E userID friendUserID dateTime)) (\<lambda>_. ret ()))"

definition q_fetchFriends :: "env \<Rightarrow> string \<Rightarrow> string" where
  "q_fetchFriends E userID =
     ''SELECT DISTINCT friend1ID, friend2ID FROM Friends WHERE friend1ID = '' @ sql_quote E userID
     @ '' OR friend2ID = '' @ sql_quote E userID"

text \<open>The two nested loops that collect and prune the identifiers.\<close>

fun prune_row :: "env \<Rightarrow> string \<Rightarrow> field list \<Rightarrow> string list \<Rightarrow> error + string list" where
  "prune_row E userID [] ids = Inr ids"
| "prune_row E userID (r # row) ids =
     (case or_throw Pqxx_error (field_string E r) of
        Inl e \<Rightarrow> Inl e
      | Inr i \<Rightarrow>
          (let irrelevant = (i = userID \<or> i \<in> set ids)
           in prune_row E userID row (if \<not> irrelevant then ids @ [i] else ids)))"

fun prune_rows :: "env \<Rightarrow> string \<Rightarrow> rows \<Rightarrow> string list \<Rightarrow> error + string list" where
  "prune_rows E userID [] ids = Inr ids"
| "prune_rows E userID (row # result) ids =
     (case prune_row E userID row ids of
        Inl e \<Rightarrow> Inl e
      | Inr ids' \<Rightarrow> prune_rows E userID result ids')"

definition fetchFriends :: "env \<Rightarrow> conn \<Rightarrow> string \<Rightarrow> ('z, string list) io" where
  "fetchFriends E c userID =
     bindE (run_query E c (q_fetchFriends E userID)) (\<lambda>result. lift (prune_rows E userID result []))"

section \<open>serverFuncs\<close>

definition q_checkServerExists :: "env \<Rightarrow> string \<Rightarrow> string" where
  "q_checkServerExists E serverName =
     ''SELECT COUNT(1) FROM Servers WHERE serverName = '' @ sql_quote E serverName"

definition checkServerExists :: "env \<Rightarrow> conn \<Rightarrow> string \<Rightarrow> ('z, bool) io" where
  "checkServerExists E c serverName =
     bindE (run_query E c (q_checkServerExists E serverName)) (cell_bool E)"

definition q_insertServer :: "env \<Rightarrow> string \<Rightarrow> string" where
  "q_insertServer E serverName =
     ''INSERT INTO Servers (serverName)  VALUES ('' @ sql_quote E serverName @ '')''"

definition insertServer :: "env \<Rightarrow> conn \<Rightarrow> string \<Rightarrow> ('z, unit) io" where
  "insertServer E c serverName = bindE (run_query E c (q_insertServer E serverName)) (\<lambda>_. ret ())"

definition q_insertServerMetadata :: "env \<Rightarrow> string \<Rightarrow> string \<Rightarrow> string \<Rightarrow> string \<Rightarrow> string" where
  "q_insertServerMetadata E dateTime ip port serverName =
     passValues (sql_quote E)
       ''INSERT INTO ServerMetadata (startupTime, privateIP, privatePort, serverName)  VALUES ''
       [dateTime, ip, port, serverName]"

definition insertServerMetadata :: "env \<Rightarrow> conn \<Rightarrow> string \<Rightarrow> endpoint \<Rightarrow> ('z, unit) io" where
  "insertServerMetadata E c serverName endpoint =
     bindE (getCurrentDatetime E c) (\<lambda>dateTime.
     bindE (run_query E c (q_insertServerMetadata E dateTime (address_text E endpoint)
              (to_string (unat (ep_port endpoint))) serverName)) (\<lambda>_. ret ()))"

definition handleServer :: "env \<Rightarrow> conn \<Rightarrow> string \<Rightarrow> endpoint \<Rightarrow> ('z, unit) io" where
  "handleServer E c serverName endpoint =
     bindE (checkServerExists E c serverName) (\<lambda>serverExists.
       thenE (if \<not> serverExists then insertServer E c serverName else ret ())
         (insertServerMetadata E c serverName endpoint))"

definition q_getServerRoles :: "env \<Rightarrow> string \<Rightarrow> string \<Rightarrow> string" where
  "q_getServerRoles E userId serverName =
     ''SELECT permissions, displayName FROM ServerRoles WHERE userID = '' @ sql_quote E userId
     @ '' AND serverName = '' @ sql_quote E serverName"

definition getServerRoles :: "env \<Rightarrow> conn \<Rightarrow> string \<Rightarrow> string \<Rightarrow> ('z, status \<times> string) io" where
  "getServerRoles E c userId serverName =
     bindE (run_query E c (q_getServerRoles E userId serverName)) (\<lambda>r.
     bindE (cell_string E r 0) (\<lambda>p.
     bindE (lift (getStatusEnum p)) (\<lambda>st.
     bindE (cell_string E r 1) (\<lambda>d. ret (st, d)))))"

definition q_insertServerRoles :: "env \<Rightarrow> string \<Rightarrow> string \<Rightarrow> status \<Rightarrow> string \<Rightarrow> string" where
  "q_insertServerRoles E userID serverName statusEnum displayName =
     passValues (sql_quote E)
       ''INSERT INTO ServerRoles (userID, serverName, permissions, displayName) VALUES ''
       [userID, serverName, getStatusString statusEnum, displayName]"

text \<open>
  After the transaction has begun: \<open>if (!displayName) *displayName = userID;\<close> assigns through an
  optional that holds no value.
\<close>

definition insertServerRoles ::
  "env \<Rightarrow> conn \<Rightarrow> string \<Rightarrow> string \<Rightarrow> status \<Rightarrow> string option \<Rightarrow> ('z, unit) io" where
  "insertServerRoles E c userID serverName statusEnum displayName =
     thenE (work_begin E c)
       (case displayName of
          None \<Rightarrow> throw (UB Empty_optional)
        | Some d \<Rightarrow>
            bindE (work_exec E c (q_insertServerRoles E userID serverName statusEnum d)) (\<lambda>_.
              work_commit E c))"

section \<open>channelFuncs\<close>

definition q_checkChannelExists :: "env \<Rightarrow> string \<Rightarrow> string \<Rightarrow> string" where
  "q_checkChannelExists E channelName serverName =
     ''SELECT COUNT(1) FROM  Channels WHERE channelName = '' @ sql_quote E channelName
     @ ''AND   serverName  = '' @ sql_quote E serverName"

definition checkChannelExists :: "env \<Rightarrow> conn \<Rightarrow> string \<Rightarrow> string \<Rightarrow> ('z, bool) io" where
  "checkChannelExists E c channelName serverName =
     bindE (run_query E c (q_checkChannelExists E channelName serverName)) (cell_bool E)"

definition q_insertChannel :: "env \<Rightarrow> string \<Rightarrow> string \<Rightarrow> string \<Rightarrow> string" where
  "q_insertChannel E channelName channelTopic serverName =
     passValues (sql_quote E)
       ''INSERT INTO Channels (channelName, channelTopic, serverName)  VALUES ''
       [channelName, channelTopic, serverName]"

definition insertChannel :: "env \<Rightarrow> conn \<Rightarrow> string \<Rightarrow> string \<Rightarrow> string \<Rightarrow> ('z, unit) io" where
  "insertChannel E c channelName channelTopic serverName =
     bindE (run_query E c (q_insertChannel E channelName channelTopic serverName)) (\<lambda>_. ret ())"

definition q_updateChannelTopic :: "env \<Rightarrow> string \<Rightarrow> string \<Rightarrow> string \<Rightarrow> string" where
  "q_updateChannelTopic E channelName channelTopic serverName =
     ''UPDATE Channels SET    ChannelTopic = '' @ sql_quote E channelTopic
     @ ''WHERE  ChannelName = '' @ sql_quote E channelName
     @ ''AND    ServerName = '' @ sql_quote E serverName"

definition updateChannelTopic :: "env \<Rightarrow> conn \<Rightarrow> string \<Rightarrow> string \<Rightarrow> string \<Rightarrow> ('z, unit) io" where
  "updateChannelTopic E c channelName channelTopic serverName =
     bindE (run_query E c (q_updateChannelTopic E channelName channelTopic serverName)) (\<lambda>_. ret ())"

definition q_getChannelTopic :: "env \<Rightarrow> string \<Rightarrow> string \<Rightarrow> string" where
  "q_getChannelTopic E channelName serverName =
     ''SELECT ChannelTopic FROM   Channels WHERE  ChannelName = '' @ sql_quote E channelName
     @ ''AND    ServerName  = '' @ sql_quote E serverName"

definition getChannelTopic :: "env \<Rightarrow> conn \<Rightarrow> string \<Rightarrow> string \<Rightarrow> ('z, string) io" where
  "getChannelTopic E c channelName serverName =
     bindE (run_query E c (q_getChannelTopic E channelName serverName)) (\<lambda>r. cell_string E r 0)"

definition q_insertMsg :: "env \<Rightarrow> string \<Rightarrow> string \<Rightarrow> string \<Rightarrow> string \<Rightarrow> string \<Rightarrow> string" where
  "q_insertMsg E userID datetime msg channelName serverName =
     passValues (sql_quote E)
       ''INSERT INTO ChatLogs (userID, originTime, content, channelName, serverName) VALUES ''
       [userID, datetime, msg, channelName, serverName]"

definition insertMsg ::
  "env \<Rightarrow> conn \<Rightarrow> string \<Rightarrow> string \<Rightarrow> string \<Rightarrow> string \<Rightarrow> ('z, unit) io" where
  "insertMsg E c channelName userID msg serverName =
     bindE (getCurrentDatetime E c) (\<lambda>datetime.
     bindE (run_query E c (q_insertMsg E userID datetime msg channelName serverName)) (\<lambda>_. ret ()))"

definition q_getChannelRoles :: "env \<Rightarrow> string \<Rightarrow> string \<Rightarrow> string \<Rightarrow> string" where
  "q_getChannelRoles E userID channelName serverName =
     ''SELECT (permissions) FROM ChannelRoles WHERE userID = '' @ sql_quote E userID
     @ '' AND channelName = '' @ sql_quote E channelName
     @ '' AND serverName = '' @ sql_quote E serverName"

definition getChannelRoles ::
  "env \<Rightarrow> conn \<Rightarrow> string \<Rightarrow> string \<Rightarrow> string \<Rightarrow> ('z, status) io" where
  "getChannelRoles E c userID channelName serverName =
     bindE (run_query E c (q_getChannelRoles E userID channelName serverName)) (\<lambda>r.
       if length r = 0 then ret Nonexistent
       else bindE (cell_string E r 0) (\<lambda>p. lift (getStatusEnum p)))"

definition q_insertChannelRoles ::
  "env \<Rightarrow> string \<Rightarrow> string \<Rightarrow> string \<Rightarrow> status \<Rightarrow> string" where
  "q_insertChannelRoles E userID channelName serverName statusEnum =
     passValues (sql_quote E)
       ''INSERT INTO ChannelRoles (userID, channelName, serverName, permissions) VALUES ''
       [userID, channelName, serverName, getStatusString statusEnum]"

definition insertChannelRoles ::
  "env \<Rightarrow> conn \<Rightarrow> string \<Rightarrow> string \<Rightarrow> string \<Rightarrow> status \<Rightarrow> ('z, unit) io" where
  "insertChannelRoles E c userID channelName serverName statusEnum =
     bindE (run_query E c (q_insertChannelRoles E userID channelName serverName statusEnum))
       (\<lambda>_. ret ())"

section \<open>Queries against a database that answers\<close>

text \<open>
  The database is up: transactions begin and commit, statements succeed, \<open>CURRENT_TIMESTAMP\<close> is one
  row with one field, and a field that is not NULL converts to its text.
\<close>

definition q_now :: string where
  "q_now = ''SELECT CURRENT_TIMESTAMP''"

definition db_up :: "env \<Rightarrow> bool" where
  "db_up E \<longleftrightarrow>
     (\<forall>t c. begin_ok E t c \<and> commit_ok E t c)
     \<and> (\<forall>t c q. exec_sql E t c q \<noteq> None)
     \<and> (\<forall>t c. \<exists>d. exec_sql E t c q_now = Some [[Some d]])
     \<and> (\<forall>d. field_string E (Some d) = Some d)"

lemma db_upD:
  assumes "db_up E"
  shows "begin_ok E t c" and "commit_ok E t c" and "\<exists>r. exec_sql E t c q = Some r"
    and "\<exists>d. exec_sql E t c q_now = Some [[Some d]]" and "field_string E (Some d) = Some d"
  using assms unfolding db_up_def by blast+

lemma sent_db_events [simp]:
  "sent [Ev_begin c, Ev_exec c q, Ev_commit c] = []"
  "executed [Ev_begin c, Ev_exec c q, Ev_commit c] = [(c, q)]"
  by simp_all

lemma wp_run_query:
  assumes "db_up E"
    and "\<And>r t. exec_sql E (trace s @ [Ev_begin c]) c q = Some r \<Longrightarrow>
        t = [Ev_begin c, Ev_exec c q, Ev_commit c] \<Longrightarrow> Q r (s\<lparr>trace := trace s @ t\<rparr>)"
  shows "wp (run_query E c q) Q R s"
proof -
  obtain r where "exec_sql E (trace s @ [Ev_begin c]) c q = Some r"
    using db_upD(3) [OF assms(1)] by blast
  with assms show ?thesis
    by (simp add: run_query_def work_begin_def work_exec_def work_commit_def wp_simps db_upD)
qed

lemma wp_run_statement:
  assumes "db_up E"
    and "\<And>t. sent t = [] \<Longrightarrow> executed t = [(c, q)] \<Longrightarrow> reads t = [] \<Longrightarrow> Q () (s\<lparr>trace := trace s @ t\<rparr>)"
  shows "wp (bindE (run_query E c q) (\<lambda>_. ret ())) Q R s"
  using assms by (auto simp: wp_simps intro!: wp_run_query)

lemma wp_getCurrentDatetime:
  assumes "db_up E"
    and "\<And>d t. sent t = [] \<Longrightarrow> executed t = [(c, q_now)] \<Longrightarrow> reads t = [] \<Longrightarrow> Q d (s\<lparr>trace := trace s @ t\<rparr>)"
  shows "wp (getCurrentDatetime E c) Q R s"
proof -
  obtain d where d: "exec_sql E (trace s @ [Ev_begin c]) c q_now = Some [[Some d]]"
    using db_upD(4) [OF assms(1)] by blast
  show ?thesis
    unfolding getCurrentDatetime_def q_now_def [symmetric]
    by (simp add: wp_simps, rule wp_run_query [OF assms(1)])
      (use assms d in \<open>auto simp: cell_string_def cell_def wp_simps db_upD\<close>)
qed

lemma wp_insertMsg:
  assumes "db_up E"
    and "\<And>d t. sent t = [] \<Longrightarrow>
        executed t = [(c, q_now), (c, q_insertMsg E userID d msg channelName serverName)] \<Longrightarrow>
        Q () (s\<lparr>trace := trace s @ t\<rparr>)"
  shows "wp (insertMsg E c channelName userID msg serverName) Q R s"
  unfolding insertMsg_def wp_bind
proof (rule wp_getCurrentDatetime [OF assms(1)])
  fix d t
  assume t: "sent t = []" "executed t = [(c, q_now)]"
  show "wp (run_query E c (q_insertMsg E userID d msg channelName serverName))
          (\<lambda>x. wp (ret ()) Q R) R (s\<lparr>trace := trace s @ t\<rparr>)"
    by (rule wp_run_query [OF assms(1)]) (use t assms(2) in \<open>auto simp: wp_simps\<close>)
qed

lemma wp_updateChannelTopic:
  assumes "db_up E"
    and "\<And>t. sent t = [] \<Longrightarrow>
        executed t = [(c, q_updateChannelTopic E channelName topic serverName)] \<Longrightarrow>
        Q () (s\<lparr>trace := trace s @ t\<rparr>)"
  shows "wp (updateChannelTopic E c channelName topic serverName) Q R s"
  unfolding updateChannelTopic_def by (rule wp_run_statement) (use assms in auto)

end
