(* ===== verification/Servlet.thy ===== *)
theory Servlet
  imports Shared Sockio Chitter
begin

text \<open>
  \<open>server/Servlet\<close>: the thread that serves one channel. The state is the shared state extended by
  the members of the class. Its loops over \<open>_users\<close> and over \<open>_end_msgs\<close> are range-based \<open>for\<close>
  loops whose bodies can erase elements of the container they run over; the loops here check what
  the body left of the container and go on only where the standard keeps the iterators valid.
\<close>

record servlet = shared +
  s_users :: "user list"
  s_socks :: "sock list"
  s_end_msgs :: "(endpoint, string list) smap"
  s_channel_name :: string
  s_channel_topic :: string
  s_server_name :: string
  s_conn :: conn

section \<open>Finding, writing to and removing a user\<close>

text \<open>\<open>std::find_if\<close> over \<open>_socks\<close>, with the throwing \<open>remote_endpoint()\<close> in its predicate.\<close>

fun find_sock :: "env \<Rightarrow> endpoint \<Rightarrow> sock list \<Rightarrow> ('z, sock option) io" where
  "find_sock E e [] = ret None"
| "find_sock E e (k # ks) =
     bindE (remote_endpoint E k) (\<lambda>r. if e = r then ret (Some k) else find_sock E e ks)"

definition get_sock_for_user :: "env \<Rightarrow> user \<Rightarrow> (servlet, sock option) cmd" where
  "get_sock_for_user E user = bindE (gets s_socks) (find_sock E (u_endpt user))"

text \<open>Dereferencing the iterator a search returned.\<close>

definition deref :: "'a option \<Rightarrow> ('s, 'a) cmd" where
  "deref x = lift (or_throw (UB Deref_end) x)"

fun erase_user :: "endpoint \<Rightarrow> user list \<Rightarrow> user list option" where
  "erase_user e [] = None"
| "erase_user e (u # us) =
     (if u_endpt u = e then Some us else map_option (\<lambda>us'. u # us') (erase_user e us))"

text \<open>
  The loop that erases from \<open>_socks\<close> the first socket whose \<open>remote_endpoint\<close> fails or is the
  user's. Erasing a socket closes it.
\<close>

fun erase_sock :: "env \<Rightarrow> endpoint \<Rightarrow> sock list \<Rightarrow> ('z, sock list) io" where
  "erase_sock E e [] = ret []"
| "erase_sock E e (k # ks) =
     bindE (remote_endpoint_ec E k) (\<lambda>this_end.
       if this_end = None then thenE (close_sock k) (ret ks)
       else if this_end = Some e then thenE (close_sock k) (ret ks)
       else bindE (erase_sock E e ks) (\<lambda>ks'. ret (k # ks')))"

definition remove_trace_of :: "env \<Rightarrow> user \<Rightarrow> (servlet, unit) cmd" where
  "remove_trace_of E user =
     bindE (gets s_users) (\<lambda>us.
     bindE (lift (or_throw (UB Erase_end) (erase_user (u_endpt user) us))) (\<lambda>us'.
     thenE (update (\<lambda>s. s\<lparr>s_users := us'\<rparr>))
    (thenE (update (\<lambda>s. s\<lparr>s_end_msgs := smap_erase (u_endpt user) (s_end_msgs s)\<rparr>))
    (bindE (gets s_socks) (\<lambda>ks.
     bindE (erase_sock E (u_endpt user) ks) (\<lambda>ks'.
       update (\<lambda>s. s\<lparr>s_socks := ks'\<rparr>)))))))"

definition servlet_try_reading :: "env \<Rightarrow> user \<Rightarrow> (servlet, string) cmd" where
  "servlet_try_reading E user =
     bindE (get_sock_for_user E user) (\<lambda>it.
     bindE (deref it) (\<lambda>k.
     bindE (gets (\<lambda>s. smap_get [] (s_end_msgs s) (u_endpt user))) (\<lambda>q.
     thenE (update (\<lambda>s. s\<lparr>s_end_msgs := smap_index [] (u_endpt user) (s_end_msgs s)\<rparr>))
    (bindE (try_reading_from_sock E k q) (\<lambda>(m, q').
     thenE (update (\<lambda>s. s\<lparr>s_end_msgs := smap_put (u_endpt user) q' (s_end_msgs s)\<rparr>))
       (ret m))))))"

definition servlet_try_writing :: "env \<Rightarrow> user \<Rightarrow> string \<Rightarrow> (servlet, unit) cmd" where
  "servlet_try_writing E user msg =
     bindE (get_sock_for_user E user) (\<lambda>it.
     bindE (deref it) (\<lambda>k.
     bindE (try_writing_to_sock E k msg) (\<lambda>ec.
       if ec then remove_trace_of E user else ret ())))"

section \<open>Receiving\<close>

definition update_endmsgs_of :: "env \<Rightarrow> sock \<Rightarrow> (servlet, unit) cmd" where
  "update_endmsgs_of E k =
     bindE (remote_endpoint E k) (\<lambda>e.
     bindE (gets (\<lambda>s. smap_get [] (s_end_msgs s) e)) (\<lambda>q.
     thenE (update (\<lambda>s. s\<lparr>s_end_msgs := smap_index [] e (s_end_msgs s)\<rparr>))
    (bindE (update_sockmsgs E k q) (\<lambda>q'.
       update (\<lambda>s. s\<lparr>s_end_msgs := smap_put e q' (s_end_msgs s)\<rparr>)))))"

definition update_endmsgs :: "env \<Rightarrow> (servlet, unit) cmd" where
  "update_endmsgs E = bindE (gets s_socks) (for_each (update_endmsgs_of E))"

section \<open>Admitting new users\<close>

text \<open>
  One element of the queue: the user joins \<open>_users\<close>, its entry of \<open>_end_msgs\<close> is created, and the
  messages it sent so far are appended to it.
\<close>

fun push_msgs :: "endpoint \<Rightarrow> string list \<Rightarrow> servlet \<Rightarrow> servlet" where
  "push_msgs e [] s = s"
| "push_msgs e (m # ms) s =
     push_msgs e ms
       (s\<lparr>s_end_msgs := smap_put e (smap_get [] (s_end_msgs s) e @ [m]) (s_end_msgs s)\<rparr>)"

definition admit :: "user \<times> string list \<Rightarrow> servlet \<Rightarrow> servlet" where
  "admit = (\<lambda>(new_user, temp_msgs) s.
     let s1 = s\<lparr>s_users := s_users s @ [new_user]\<rparr>;
         s2 = s1\<lparr>s_end_msgs := smap_index [] (u_endpt new_user) (s_end_msgs s1)\<rparr>
     in push_msgs (u_endpt new_user) temp_msgs s2)"

fun admit_all :: "(user \<times> string list) list \<Rightarrow> servlet \<Rightarrow> servlet" where
  "admit_all [] s = s"
| "admit_all (q # qs) s = admit_all qs (admit q s)"

text \<open>\<open>std::any_of\<close> over \<open>_users\<close> with the throwing \<open>remote_endpoint()\<close> in its predicate.\<close>

fun sock_matches :: "env \<Rightarrow> sock \<Rightarrow> user list \<Rightarrow> ('z, bool) io" where
  "sock_matches E k [] = ret False"
| "sock_matches E k (u # us) =
     bindE (remote_endpoint E k) (\<lambda>r. if u_endpt u = r then ret True else sock_matches E k us)"

text \<open>The loop over the global sockets: \<open>kept\<close> are those already passed over.\<close>

fun grab_socks :: "env \<Rightarrow> sock list \<Rightarrow> sock list \<Rightarrow> (servlet, unit) cmd" where
  "grab_socks E kept [] = ret ()"
| "grab_socks E kept (k # ks) =
     bindE (gets s_users) (\<lambda>us.
     bindE (sock_matches E k us) (\<lambda>match.
       if match
       then thenE (update (\<lambda>s. s\<lparr>s_socks := s_socks s @ [k], global_socks := kept @ ks\<rparr>))
              (grab_socks E kept ks)
       else grab_socks E (kept @ [k]) ks))"

definition grab_new :: "env \<Rightarrow> (servlet, user list) cmd" where
  "grab_new E =
     bindE (gets (\<lambda>s. smap_get [] (chan_newusers s) (s_channel_name s))) (\<lambda>queue.
     thenE (update (admit_all queue))
    (thenE (update (\<lambda>s. s\<lparr>chan_newusers := smap_put (s_channel_name s) [] (chan_newusers s)\<rparr>))
    (bindE (gets global_socks) (\<lambda>ks.
     thenE (grab_socks E [] ks)
       (ret (map fst queue))))))"

definition check_user_in :: "user \<Rightarrow> user list \<Rightarrow> bool" where
  "check_user_in user deq \<longleftrightarrow> list_ex (\<lambda>u. u_endpt user = u_endpt u) deq"

section \<open>Looping over the users\<close>

text \<open>
  \<open>for (auto& u : _users)\<close> with an accumulator. \<open>prev\<close> are the elements before the current one.
  If the body erased the first element and that is not the current one, all other iterators stay
  valid; any other erasure invalidates the current or the end iterator.
\<close>

fun for_users ::
  "(user \<Rightarrow> 'a \<Rightarrow> (servlet, 'a) cmd) \<Rightarrow> user list \<Rightarrow> user list \<Rightarrow> 'a \<Rightarrow> (servlet, 'a) cmd" where
  "for_users body prev [] a = ret a"
| "for_users body prev (u # rest) a =
     bindE (body u a) (\<lambda>a'.
     bindE (gets s_users) (\<lambda>us.
       if us = prev @ u # rest then for_users body (prev @ [u]) rest a'
       else if prev \<noteq> [] \<and> us = tl prev @ u # rest then for_users body (tl prev @ [u]) rest a'
       else throw (UB Invalidated_iterator)))"

text \<open>The message loops of \<open>handle_priv\<close>, \<open>handle_part\<close> and \<open>handle_topic\<close>.\<close>

definition broadcast :: "env \<Rightarrow> (user \<Rightarrow> bool) \<Rightarrow> string \<Rightarrow> (servlet, unit) cmd" where
  "broadcast E skip reply =
     bindE (gets s_users) (\<lambda>us.
       for_users (\<lambda>u _. if skip u then ret () else servlet_try_writing E u reply) [] us ())"

section \<open>Greeting new users\<close>

definition prefix_of :: "env \<Rightarrow> user \<Rightarrow> string" where
  "prefix_of E u = u_nick u @ ''!'' @ u_whoami u @ ''@'' @ address_text E (u_endpt u)"

definition join_msg :: "env \<Rightarrow> user \<Rightarrow> string" where
  "join_msg E u = prefix_of E u @ '' JOIN '' @ u_chan u @ crlf"

definition reply_msg :: "string \<Rightarrow> string \<Rightarrow> user \<Rightarrow> string \<Rightarrow> string" where
  "reply_msg loc_ip code u txt =
     loc_ip @ '' '' @ code @ '' '' @ u_nick u @ '' '' @ u_chan u @ '' '' @ '':'' @ txt @ crlf"

text \<open>The body of the loop of \<open>handle_newusers\<close>, for one new user.\<close>

definition greet :: "env \<Rightarrow> user list \<Rightarrow> user list \<Rightarrow> user \<Rightarrow> (servlet, unit) cmd" where
  "greet E newusers handled new_user =
     bindE (gets s_users) (\<lambda>us.
     bindE (for_users (\<lambda>user usernames.
              if check_user_in user newusers \<and> \<not> check_user_in user handled then ret usernames
              else thenE (servlet_try_writing E user (join_msg E new_user))
                     (ret (usernames @ ''@'' @ u_nick user @ '' ''))) [] us []) (\<lambda>usernames.
     bindE (get_sock_for_user E new_user) (\<lambda>it.
     bindE (deref it) (\<lambda>k.
     bindE (local_endpoint E k) (\<lambda>loc.
     bindE (gets s_channel_topic) (\<lambda>topic.
     thenE (servlet_try_writing E new_user
              (reply_msg (address_text E loc) RPL_TOPIC new_user topic))
    (thenE (servlet_try_writing E new_user
              (reply_msg (address_text E loc) RPL_NAMREPLY new_user usernames))
       (servlet_try_writing E new_user
              (reply_msg (address_text E loc) RPL_ENDOFNAMES new_user ''End of NAMES list'')))))))))"

fun greet_all :: "env \<Rightarrow> user list \<Rightarrow> user list \<Rightarrow> user list \<Rightarrow> (servlet, unit) cmd" where
  "greet_all E newusers handled [] = ret ()"
| "greet_all E newusers handled (u # us) =
     thenE (greet E newusers (handled @ [u]) u) (greet_all E newusers (handled @ [u]) us)"

definition handle_newusers :: "env \<Rightarrow> (servlet, unit) cmd" where
  "handle_newusers E = bindE (grab_new E) (\<lambda>newusers. greet_all E newusers [] newusers)"

definition check_newusers :: "flag_ptr \<Rightarrow> (servlet, bool) cmd" where
  "check_newusers notify = bindE (gets flags) (\<lambda>heap. lift (load_flag heap notify))"

definition check_endmsgs :: "servlet \<Rightarrow> bool" where
  "check_endmsgs s \<longleftrightarrow> list_ex (\<lambda>(e, q). q \<noteq> []) (s_end_msgs s)"

section \<open>Handling messages\<close>

definition handle_priv :: "env \<Rightarrow> string \<Rightarrow> user \<Rightarrow> (servlet, unit) cmd" where
  "handle_priv E msg client =
     thenE (broadcast E (\<lambda>u. u_endpt u = u_endpt client)
              ('':'' @ prefix_of E client @ '' '' @ msg @ crlf))
    (bindE (lift (substr msg (pos_plus (find_idx '':'' msg) 1))) (\<lambda>content.
     bindE (gets (\<lambda>s. (s_channel_name s, s_server_name s, s_conn s))) (\<lambda>(chan, server, c).
       insertMsg E c chan (u_nick client) content server)))"

definition handle_part :: "env \<Rightarrow> string \<Rightarrow> user \<Rightarrow> (servlet, unit) cmd" where
  "handle_part E msg client =
     thenE (broadcast E (\<lambda>u. u_endpt u = u_endpt client)
              ('':'' @ prefix_of E client @ '' '' @ msg @ crlf))
       (remove_trace_of E client)"

definition handle_topic :: "env \<Rightarrow> string \<Rightarrow> user \<Rightarrow> (servlet, unit) cmd" where
  "handle_topic E msg client =
     bindE (gets s_channel_name) (\<lambda>chan.
     bindE (split_msg msg (''TOPIC '' @ chan @ '' :'')) (\<lambda>parts.
     thenE (update (\<lambda>s. s\<lparr>s_channel_topic := last parts\<rparr>))
    (bindE (gets (\<lambda>s. (s_channel_topic s, s_server_name s, s_conn s))) (\<lambda>(topic, server, c).
     thenE (updateChannelTopic E c chan topic server)
    (bindE (gets s_socks) (\<lambda>ks.
       if ks = [] then throw (UB Front_of_empty)
       else broadcast E (\<lambda>u. False)
              (prefix_of E client @ '' TOPIC '' @ chan @ '' :'' @ topic @ crlf)))))))"

definition unrecognized :: error where
  "unrecognized = Invalid_argument ''Unrecognized message format''"

definition handle_msg :: "env \<Rightarrow> string \<Rightarrow> endpoint \<Rightarrow> (servlet, unit) cmd" where
  "handle_msg E msg e =
     bindE (gets (\<lambda>s. List.find (\<lambda>u. u_endpt u = e) (s_users s))) (\<lambda>it.
     bindE (deref it) (\<lambda>client.
       if take 7 msg = ''PRIVMSG'' then handle_priv E msg client
       else if take 4 msg = ''PART'' then handle_part E msg client
       else if take 5 msg = ''TOPIC'' then handle_topic E msg client
       else thenE (print_err (''Unrecognized Message:\<newline>Msg begin: '' @ msg @ ''\<newline>Msg end''))
              (throw unrecognized)))"

text \<open>
  The inner loop runs over a reference to the entry's deque, the outer one over the map. When the
  body has erased the entry, the reference dangles.
\<close>

fun handle_list :: "env \<Rightarrow> endpoint \<Rightarrow> string list \<Rightarrow> (servlet, unit) cmd" where
  "handle_list E e [] = ret ()"
| "handle_list E e (m # ms) =
     thenE (handle_msg E m e)
       (bindE (gets (\<lambda>s. smap_count (s_end_msgs s) e)) (\<lambda>present.
          if present then handle_list E e ms else throw (UB Dangling_reference)))"

definition handle_entry :: "env \<Rightarrow> endpoint \<Rightarrow> (servlet, unit) cmd" where
  "handle_entry E e =
     bindE (gets (\<lambda>s. smap_get [] (s_end_msgs s) e)) (\<lambda>msgList.
     thenE (handle_list E e msgList)
       (update (\<lambda>s. if smap_count (s_end_msgs s) e \<and> smap_get [] (s_end_msgs s) e \<noteq> []
                    then s\<lparr>s_end_msgs := smap_put e [] (s_end_msgs s)\<rparr> else s)))"

text \<open>
  The outer loop. The handlers never insert into \<open>_end_msgs\<close>, so \<open>++\<close> moves to the next of the
  keys the map had at the start that is still present; a current entry that was erased makes the
  iterator invalid.
\<close>

fun for_entries :: "env \<Rightarrow> endpoint list \<Rightarrow> (servlet, unit) cmd" where
  "for_entries E [] = ret ()"
| "for_entries E (e # es) =
     bindE (gets (\<lambda>s. smap_count (s_end_msgs s) e)) (\<lambda>reached.
       if \<not> reached then for_entries E es
       else thenE (handle_entry E e)
              (bindE (gets (\<lambda>s. smap_count (s_end_msgs s) e)) (\<lambda>present.
                 if present then for_entries E es else throw (UB Invalidated_iterator))))"

definition handle_endmsgs :: "env \<Rightarrow> (servlet, unit) cmd" where
  "handle_endmsgs E = bindE (gets (\<lambda>s. smap_keys (s_end_msgs s))) (for_entries E)"

section \<open>The thread\<close>

text \<open>The body of the loop of \<open>thread_run\<close>, and the loop.\<close>

definition servlet_iter :: "env \<Rightarrow> flag_ptr \<Rightarrow> (servlet, unit) cmd" where
  "servlet_iter E notify =
     bindE (check_newusers notify) (\<lambda>check.
     thenE (if check then handle_newusers E else ret ())
    (thenE (update_endmsgs E)
    (bindE (gets check_endmsgs) (\<lambda>check.
       if check then handle_endmsgs E else ret ()))))"

partial_function (option) servlet_loop ::
  "env \<Rightarrow> flag_ptr \<Rightarrow> servlet \<Rightarrow> ((error + unit) \<times> servlet) option" where
  "servlet_loop E notify s =
     (case load_selfdestruct E s of
        (Inl e, s1) \<Rightarrow> Some (Inl e, s1)
      | (Inr stop, s1) \<Rightarrow>
          (if stop then Some (Inr (), s1)
           else (case servlet_iter E notify s1 of
                   (Inl e, s2) \<Rightarrow> Some (Inl e, s2)
                 | (Inr _, s2) \<Rightarrow> servlet_loop E notify s2)))"

declare servlet_loop.simps [code]

text \<open>
  \<open>thread_run\<close>: an exception ends the thread, after its text is printed; undefined behaviour is
  not an exception and is the outcome of the thread.
\<close>

definition new_servlet :: "string \<Rightarrow> string \<Rightarrow> string \<Rightarrow> conn \<Rightarrow> shared \<Rightarrow> servlet" where
  "new_servlet server chan topic c sh =
     shared.extend sh (servlet.fields [] [] [] chan topic server c)"

definition thread_run ::
  "env \<Rightarrow> string \<Rightarrow> string \<Rightarrow> string \<Rightarrow> conn \<Rightarrow> flag_ptr \<Rightarrow> shared \<Rightarrow> ((error + unit) \<times> servlet) option" where
  "thread_run E server chan topic c notify sh =
     (case servlet_loop E notify (new_servlet server chan topic c sh) of
        None \<Rightarrow> None
      | Some (r, s) \<Rightarrow>
          Some (catch_exception r (\<lambda>_. print_out ''Thread exiting\<newline>'')
                  (\<lambda>e. thenE (print_err ''There was an error:\<newline>'')
                     (print_err (what E e @ ''\<newline>''))) s))"

end
