(* ===== verification/Room.thy ===== *)
theory Room
  imports Servlet Lab
begin

text \<open>
  What a channel promises, and the proof that the code of \<open>Servlet\<close> delivers it. A room has
  members, in the order in which they joined, and a topic; a message from a member is delivered
  to other members as text. The channel thread's state is abstracted to a room, its writes to
  sockets to deliveries to endpoints.
\<close>

section \<open>The abstract room\<close>

record room =
  members :: "user list"
  topic :: string

type_synonym delivery = "endpoint \<times> string"

definition to_others :: "room \<Rightarrow> endpoint \<Rightarrow> string \<Rightarrow> delivery list" where
  "to_others r e txt = map (\<lambda>u. (u_endpt u, txt)) (filter (\<lambda>u. u_endpt u \<noteq> e) (members r))"

definition to_all :: "room \<Rightarrow> string \<Rightarrow> delivery list" where
  "to_all r txt = map (\<lambda>u. (u_endpt u, txt)) (members r)"

definition leave :: "endpoint \<Rightarrow> room \<Rightarrow> room" where
  "leave e r = r\<lparr>members := filter (\<lambda>u. u_endpt u \<noteq> e) (members r)\<rparr>"

text \<open>The topic a TOPIC message sets: what follows the last \<open>TOPIC <channel> :\<close> in it.\<close>

definition topic_of :: "string \<Rightarrow> string \<Rightarrow> string" where
  "topic_of chan msg = last (pieces (''TOPIC '' @ chan @ '' :'') msg)"

definition relayed :: "env \<Rightarrow> user \<Rightarrow> string \<Rightarrow> string" where
  "relayed E u msg = '':'' @ prefix_of E u @ '' '' @ msg @ crlf"

definition topic_notice :: "env \<Rightarrow> string \<Rightarrow> user \<Rightarrow> string \<Rightarrow> string" where
  "topic_notice E chan u new_topic = prefix_of E u @ '' TOPIC '' @ chan @ '' :'' @ new_topic @ crlf"

definition room_msg :: "env \<Rightarrow> string \<Rightarrow> room \<Rightarrow> user \<Rightarrow> string \<Rightarrow> room \<times> delivery list" where
  "room_msg E chan r u msg =
     (if take 7 msg = ''PRIVMSG'' then (r, to_others r (u_endpt u) (relayed E u msg))
      else if take 4 msg = ''PART''
        then (leave (u_endpt u) r, to_others r (u_endpt u) (relayed E u msg))
      else
        (let r' = r\<lparr>topic := topic_of chan msg\<rparr>
         in (r', to_all r' (topic_notice E chan u (topic r')))))"

definition recognized :: "string \<Rightarrow> bool" where
  "recognized msg \<longleftrightarrow> take 7 msg = ''PRIVMSG'' \<or> take 4 msg = ''PART'' \<or> take 5 msg = ''TOPIC''"

text \<open>A run of messages, each with the endpoint it came from.\<close>

fun room_run :: "env \<Rightarrow> string \<Rightarrow> room \<Rightarrow> (endpoint \<times> string) list \<Rightarrow> room \<times> delivery list" where
  "room_run E chan r [] = (r, [])"
| "room_run E chan r ((e, m) # ms) =
     (case List.find (\<lambda>u. u_endpt u = e) (members r) of
        None \<Rightarrow> room_run E chan r ms
      | Some u \<Rightarrow>
          (let (r1, ds) = room_msg E chan r u m; (r2, ds') = room_run E chan r1 ms
           in (r2, ds @ ds')))"

lemma room_run_append:
  "room_run E chan r (ms @ ns) =
     (let (r1, ds) = room_run E chan r ms; (r2, ds') = room_run E chan r1 ns in (r2, ds @ ds'))"
  by (induction E chan r ms rule: room_run.induct)
    (auto simp: Let_def split: option.splits prod.splits)

section \<open>Abstraction\<close>

definition room_abs :: "servlet \<Rightarrow> room" where
  "room_abs s = \<lparr>members = s_users s, topic = s_channel_topic s\<rparr>"

definition deliveries :: "(sock \<Rightarrow> endpoint) \<Rightarrow> event list \<Rightarrow> delivery list" where
  "deliveries peer t = map (\<lambda>(k, m). (peer k, m)) (sent t)"

lemma deliveries_append [simp]: "deliveries peer (t @ u) = deliveries peer t @ deliveries peer u"
  by (simp add: deliveries_def)

lemma deliveries_quiet [simp]: "sent t = [] \<Longrightarrow> deliveries peer t = []"
  by (simp add: deliveries_def)

lemma deliveries_Cons_quiet [simp]:
  "sent [e] = [] \<Longrightarrow> deliveries peer (e # t) = deliveries peer t"
  using deliveries_append [of peer "[e]" t] by simp

text \<open>
  The invariant of a channel thread whose connections are up: the users' endpoints are distinct,
  the sockets it holds are exactly theirs, one each, and messages are queued for users only.
\<close>

definition servlet_ok :: "(sock \<Rightarrow> endpoint) \<Rightarrow> servlet \<Rightarrow> bool" where
  "servlet_ok peer s \<longleftrightarrow>
     distinct (map u_endpt (s_users s))
     \<and> distinct (map peer (s_socks s))
     \<and> peer ` set (s_socks s) = u_endpt ` set (s_users s)
     \<and> smap_wf (s_end_msgs s)
     \<and> set (smap_keys (s_end_msgs s)) \<subseteq> u_endpt ` set (s_users s)"

lemma trace_last [simp]:
  "s\<lparr>trace := t, s_users := us\<rparr> = s\<lparr>s_users := us, trace := t\<rparr>"
  "s\<lparr>trace := t, s_socks := ks\<rparr> = s\<lparr>s_socks := ks, trace := t\<rparr>"
  "s\<lparr>trace := t, s_end_msgs := m\<rparr> = s\<lparr>s_end_msgs := m, trace := t\<rparr>"
  "s\<lparr>trace := t, s_channel_topic := c\<rparr> = s\<lparr>s_channel_topic := c, trace := t\<rparr>"
  by (cases s; simp)+

lemma servlet_ok_trace [simp]: "servlet_ok peer (s\<lparr>trace := t\<rparr>) = servlet_ok peer s"
  by (simp add: servlet_ok_def)

lemma servlet_ok_topic [simp]: "servlet_ok peer (s\<lparr>s_channel_topic := t\<rparr>) = servlet_ok peer s"
  by (simp add: servlet_ok_def)

lemma room_abs_trace [simp]: "room_abs (s\<lparr>trace := t\<rparr>) = room_abs s"
  by (simp add: room_abs_def)

lemma room_abs_fields [simp]:
  "members (room_abs s) = s_users s" "topic (room_abs s) = s_channel_topic s"
  by (simp_all add: room_abs_def)

text \<open>The socket of an endpoint.\<close>

definition sock_of :: "(sock \<Rightarrow> endpoint) \<Rightarrow> sock list \<Rightarrow> endpoint \<Rightarrow> sock option" where
  "sock_of peer ks e = List.find (\<lambda>k. peer k = e) ks"

lemma sock_of_Some: "sock_of peer ks e = Some k \<Longrightarrow> k \<in> set ks \<and> peer k = e"
  by (auto simp: sock_of_def find_Some_iff)

lemma sock_of_ex: "e \<in> peer ` set ks \<Longrightarrow> \<exists>k. sock_of peer ks e = Some k"
  by (cases "sock_of peer ks e") (auto simp: sock_of_def find_None_iff)

section \<open>The socket search and a write\<close>

lemma wp_find_sock:
  assumes "connected E peer (set ks)"
    and "\<And>t. sent t = [] \<Longrightarrow> executed t = [] \<Longrightarrow> Q (sock_of peer ks e) (s\<lparr>trace := trace s @ t\<rparr>)"
  shows "wp (find_sock E e ks) Q R s"
  using assms
proof (induction ks arbitrary: s)
  case Nil
  from Nil(2) [of "[]"] show ?case by (simp add: wp_simps sock_of_def)
next
  case (Cons k ks)
  note post = Cons.prems(2)
  show ?case
    unfolding find_sock.simps wp_bind
  proof (rule wp_remote_endpoint [OF Cons.prems(1)])
    let ?s = "s\<lparr>trace := trace s @ [Ev_remote k]\<rparr>"
    show "wp (if e = peer k then ret (Some k) else find_sock E e ks) Q R ?s"
    proof (cases "e = peer k")
      case True
      with post [of "[Ev_remote k]"] show ?thesis by (simp add: wp_simps sock_of_def)
    next
      case False
      have "wp (find_sock E e ks) Q R ?s"
      proof (rule Cons.IH)
        show "connected E peer (set ks)"
          using Cons.prems(1) by (rule connected_mono) auto
        show "Q (sock_of peer ks e) (?s\<lparr>trace := trace ?s @ t\<rparr>)"
          if "sent t = []" "executed t = []" for t
          using that post [of "Ev_remote k # t"] False by (simp add: sock_of_def)
      qed
      with False show ?thesis by simp
    qed
  qed simp
qed

lemma wp_get_sock:
  assumes "connected E peer (set (s_socks s))"
    and "\<And>t. sent t = [] \<Longrightarrow> executed t = [] \<Longrightarrow>
        Q (sock_of peer (s_socks s) (u_endpt u)) (s\<lparr>trace := trace s @ t\<rparr>)"
  shows "wp (get_sock_for_user E u) Q R s"
  unfolding get_sock_for_user_def by (simp add: wp_simps) (rule wp_find_sock [OF assms(1)], use assms(2) in simp)

lemma wp_write:
  assumes "steady E peer (set (s_socks s))" and "u_endpt u \<in> peer ` set (s_socks s)"
    and "ends_crlf msg"
    and "\<And>t. deliveries peer t = [(u_endpt u, msg)] \<Longrightarrow> executed t = [] \<Longrightarrow>
        Q () (s\<lparr>trace := trace s @ t\<rparr>)"
  shows "wp (servlet_try_writing E u msg) Q R s"
  unfolding servlet_try_writing_def wp_bind
proof (rule wp_get_sock [OF steady_connected [OF assms(1)]])
  fix t
  assume t: "sent t = []" "executed t = []"
  obtain k where k: "sock_of peer (s_socks s) (u_endpt u) = Some k"
    using sock_of_ex [OF assms(2)] by blast
  then have k': "k \<in> set (s_socks s)" "peer k = u_endpt u"
    by (auto dest: sock_of_Some)
  have len: "\<not> length msg < 2"
    using assms(3) by (simp add: ends_crlf_def)
  have "deliveries peer (t @ [Ev_write k msg]) = [(u_endpt u, msg)]"
    using t k' by (simp add: deliveries_def)
  then have "Q () (s\<lparr>trace := trace s @ t @ [Ev_write k msg]\<rparr>)"
    using t assms(4) [of "t @ [Ev_write k msg]"] by simp
  with k len assms(3) steadyD(4) [OF assms(1) k'(1)] show
    "wp (deref (sock_of peer (s_socks s) (u_endpt u)))
       (\<lambda>k. wp (try_writing_to_sock E k msg)
          (\<lambda>ec. wp (if ec then remove_trace_of E u else ret ()) Q R) R) R
       (s\<lparr>trace := trace s @ t\<rparr>)"
    by (simp add: deref_def wp_simps wp_def [of "try_writing_to_sock E k msg"] try_writing_cases)
qed

text \<open>
  Loops over the users whose bodies leave the state alone but for the trace: \<open>W u\<close> is what the
  body sends for a user, \<open>F\<close> what it does to the accumulator.
\<close>

lemma wp_for_users:
  assumes "s_users s = prev @ rest"
    and "\<And>u a T Q'. u \<in> set rest \<Longrightarrow>
        (\<And>t. deliveries peer t = W u \<Longrightarrow> executed t = [] \<Longrightarrow> Q' (F u a) (s\<lparr>trace := T @ t\<rparr>)) \<Longrightarrow>
        wp (body u a) Q' R (s\<lparr>trace := T\<rparr>)"
    and "\<And>t. deliveries peer t = concat (map W rest) \<Longrightarrow> executed t = [] \<Longrightarrow>
        Q (fold F rest a) (s\<lparr>trace := trace s @ t\<rparr>)"
  shows "wp (for_users body prev rest a) Q R s"
  using assms
proof (induction rest arbitrary: prev a s)
  case Nil
  from Nil(3) [of "[]"] show ?case by (simp add: wp_simps deliveries_def)
next
  case (Cons u rest)
  note users = Cons.prems(1) and body = Cons.prems(2) and post = Cons.prems(3)
  have "wp (body u a) (\<lambda>a'. wp (bindE (gets s_users) (\<lambda>us.
          if us = prev @ u # rest then for_users body (prev @ [u]) rest a'
          else if prev \<noteq> [] \<and> us = tl prev @ u # rest then for_users body (tl prev @ [u]) rest a'
          else throw (UB Invalidated_iterator))) Q R) R (s\<lparr>trace := trace s\<rparr>)"
  proof (rule body)
    fix t
    assume t: "deliveries peer t = W u" "executed t = []"
    let ?s = "s\<lparr>trace := trace s @ t\<rparr>"
    have "wp (for_users body (prev @ [u]) rest (F u a)) Q R ?s"
    proof (rule Cons.IH)
      show "s_users ?s = (prev @ [u]) @ rest" using users by simp
      show "wp (body v b) Q' R (?s\<lparr>trace := T\<rparr>)"
        if "v \<in> set rest"
          and "\<And>t'. deliveries peer t' = W v \<Longrightarrow> executed t' = [] \<Longrightarrow>
            Q' (F v b) (?s\<lparr>trace := T @ t'\<rparr>)" for v b T Q'
        using body [of v Q' b T] that by simp
      show "Q (fold F rest (F u a)) (?s\<lparr>trace := trace ?s @ t'\<rparr>)"
        if "deliveries peer t' = concat (map W rest)" "executed t' = []" for t'
        using post [of "t @ t'"] t that by simp
    qed
    then show "wp (bindE (gets s_users) (\<lambda>us.
          if us = prev @ u # rest then for_users body (prev @ [u]) rest (F u a)
          else if prev \<noteq> [] \<and> us = tl prev @ u # rest
          then for_users body (tl prev @ [u]) rest (F u a)
          else throw (UB Invalidated_iterator))) Q R ?s"
      using users by (simp add: wp_simps)
  qed simp
  then show ?case by (simp add: wp_simps)
qed

lemma wp_broadcast:
  assumes "steady E peer (set (s_socks s))" and "servlet_ok peer s" and "ends_crlf msg"
    and "\<And>t. deliveries peer t =
          map (\<lambda>u. (u_endpt u, msg)) (filter (\<lambda>u. \<not> skip u) (s_users s)) \<Longrightarrow>
        executed t = [] \<Longrightarrow> Q () (s\<lparr>trace := trace s @ t\<rparr>)"
  shows "wp (broadcast E skip msg) Q R s"
  unfolding broadcast_def wp_bind wp_gets
proof (rule wp_for_users [where peer = peer and F = "\<lambda>_ _. ()"
      and W = "\<lambda>u. if skip u then [] else [(u_endpt u, msg)]"])
  show "s_users s = [] @ s_users s" by simp
  show "wp (if skip u then ret () else servlet_try_writing E u msg) Q' R (s\<lparr>trace := T\<rparr>)"
    if "u \<in> set (s_users s)"
      and Q': "\<And>t. deliveries peer t = (if skip u then [] else [(u_endpt u, msg)]) \<Longrightarrow>
        executed t = [] \<Longrightarrow> Q' () (s\<lparr>trace := T @ t\<rparr>)" for u Q' T
  proof (cases "skip u")
    case True
    with Q' [of "[]"] show ?thesis by (simp add: wp_simps deliveries_def)
  next
    case False
    have "wp (servlet_try_writing E u msg) Q' R (s\<lparr>trace := T\<rparr>)"
      by (rule wp_write [where peer = peer])
        (use assms that False in \<open>auto simp: servlet_ok_def\<close>)
    with False show ?thesis by simp
  qed
  show "Q (fold (\<lambda>_ _. ()) (s_users s) ()) (s\<lparr>trace := trace s @ t\<rparr>)"
    if "deliveries peer t
        = concat (map (\<lambda>u. if skip u then [] else [(u_endpt u, msg)]) (s_users s))"
      and "executed t = []" for t
    using that assms(4) [of t]
    by (simp add: concat_map_if_filter)
qed

section \<open>Removing a user\<close>

lemma erase_user_filter:
  "distinct (map u_endpt us) \<Longrightarrow> e \<in> u_endpt ` set us \<Longrightarrow>
     erase_user e us = Some (filter (\<lambda>u. u_endpt u \<noteq> e) us)"
proof (induction us)
  case Nil
  then show ?case by simp
next
  case (Cons u us)
  show ?case
  proof (cases "u_endpt u = e")
    case True
    with Cons.prems have "filter (\<lambda>u. u_endpt u \<noteq> e) us = us"
      by (intro filter_True) (auto simp: image_iff)
    with True show ?thesis by simp
  next
    case False
    with Cons show ?thesis by auto
  qed
qed

lemma wp_erase_sock:
  assumes "connected E peer (set ks)" and "distinct (map peer ks)"
    and "\<And>t. sent t = [] \<Longrightarrow> executed t = [] \<Longrightarrow>
        Q (filter (\<lambda>k. peer k \<noteq> e) ks) (s\<lparr>trace := trace s @ t\<rparr>)"
  shows "wp (erase_sock E e ks) Q R s"
  using assms
proof (induction ks arbitrary: Q s)
  case Nil
  from Nil(3) [of "[]"] show ?case by (simp add: wp_simps)
next
  case (Cons k ks)
  note post = Cons.prems(3)
  have k: "remote_ep E t k = Some (peer k)" for t
    using connectedD [OF Cons.prems(1)] by simp
  let ?s = "s\<lparr>trace := trace s @ [Ev_remote k]\<rparr>"
  show ?case
  proof (cases "peer k = e")
    case True
    with Cons.prems(2) have "filter (\<lambda>k. peer k \<noteq> e) ks = ks"
      by (intro filter_True) (auto simp: image_iff)
    with True k post [of "[Ev_remote k, Ev_close k]"] show ?thesis
      by (simp add: wp_simps socket_defs)
  next
    case False
    have "wp (erase_sock E e ks) (\<lambda>ks'. wp (ret (k # ks')) Q R) R ?s"
    proof (rule Cons.IH)
      show "connected E peer (set ks)"
        using Cons.prems(1) by (rule connected_mono) auto
      show "distinct (map peer ks)" using Cons.prems(2) by simp
      show "wp (ret (k # filter (\<lambda>k. peer k \<noteq> e) ks)) Q R (?s\<lparr>trace := trace ?s @ t\<rparr>)"
        if "sent t = []" "executed t = []" for t
        using that post [of "Ev_remote k # t"] False by (simp add: wp_simps)
    qed
    with False k show ?thesis by (simp add: wp_simps socket_defs)
  qed
qed

definition without :: "(sock \<Rightarrow> endpoint) \<Rightarrow> endpoint \<Rightarrow> servlet \<Rightarrow> servlet" where
  "without peer e s =
     s\<lparr>s_users := filter (\<lambda>u. u_endpt u \<noteq> e) (s_users s),
       s_end_msgs := smap_erase e (s_end_msgs s),
       s_socks := filter (\<lambda>k. peer k \<noteq> e) (s_socks s)\<rparr>"

lemma without_fields [simp]:
  "s_users (without peer e s) = filter (\<lambda>u. u_endpt u \<noteq> e) (s_users s)"
  "s_end_msgs (without peer e s) = smap_erase e (s_end_msgs s)"
  "s_socks (without peer e s) = filter (\<lambda>k. peer k \<noteq> e) (s_socks s)"
  "s_channel_name (without peer e s) = s_channel_name s"
  "s_channel_topic (without peer e s) = s_channel_topic s"
  "trace (without peer e s) = trace s"
  by (simp_all add: without_def)

lemma wp_remove_trace_of:
  assumes "connected E peer (set (s_socks s))" and "servlet_ok peer s" and "u \<in> set (s_users s)"
    and "\<And>t. sent t = [] \<Longrightarrow> executed t = [] \<Longrightarrow>
        Q () ((without peer (u_endpt u) s)\<lparr>trace := trace s @ t\<rparr>)"
  shows "wp (remove_trace_of E u) Q R s"
proof -
  have "erase_user (u_endpt u) (s_users s) = Some (filter (\<lambda>v. u_endpt v \<noteq> u_endpt u) (s_users s))"
    by (rule erase_user_filter) (use assms in \<open>auto simp: servlet_ok_def\<close>)
  moreover have "distinct (map peer (s_socks s))"
    using assms(2) by (simp add: servlet_ok_def)
  moreover have "Q () (s\<lparr>trace := trace s @ t, s_users := filter (\<lambda>v. u_endpt v \<noteq> u_endpt u) (s_users s),
      s_end_msgs := smap_erase (u_endpt u) (s_end_msgs s),
      s_socks := filter (\<lambda>k. peer k \<noteq> u_endpt u) (s_socks s)\<rparr>)"
    if "sent t = []" "executed t = []" for t
    using assms(4) [OF that] by (simp add: without_def)
  ultimately show ?thesis
    unfolding remove_trace_of_def using assms(1)
    by (auto simp: wp_simps intro!: wp_erase_sock [where peer = peer])
qed

lemma servlet_ok_without:
  assumes "servlet_ok peer s"
  shows "servlet_ok peer (without peer e s)"
  using assms by (auto simp: servlet_ok_def distinct_map_filter smap_keys_erase)

section \<open>Handling one message\<close>

lemma wp_handle_priv:
  assumes "steady E peer (set (s_socks s))" and "servlet_ok peer s" and "db_up E"
    and "\<And>t d. deliveries peer t = to_others (room_abs s) (u_endpt u) (relayed E u msg) \<Longrightarrow>
        executed t = [(s_conn s, q_now),
          (s_conn s, q_insertMsg E (u_nick u) d (drop (pos_plus (find_idx '':'' msg) 1) msg)
             (s_channel_name s) (s_server_name s))] \<Longrightarrow>
        Q () (s\<lparr>trace := trace s @ t\<rparr>)"
  shows "wp (handle_priv E msg u) Q R s"
  unfolding handle_priv_def wp_then
proof (rule wp_broadcast [OF assms(1,2)])
  show "ends_crlf ('':'' @ prefix_of E u @ '' '' @ msg @ crlf)" by simp
  fix t
  assume t: "deliveries peer t = map (\<lambda>v. (u_endpt v, '':'' @ prefix_of E u @ '' '' @ msg @ crlf))
      (filter (\<lambda>v. \<not> u_endpt v = u_endpt u) (s_users s))" "executed t = []"
  let ?pos = "pos_plus (find_idx '':'' msg) 1"
  have pos: "substr msg ?pos = Inr (drop ?pos msg)"
    using find_idx_Some_bound [of "'':''" msg]
    by (cases "find_idx '':'' msg") (auto simp: substr_def pos_plus_def npos_def)
  show "wp (bindE (lift (substr msg ?pos)) (\<lambda>content.
          bindE (gets (\<lambda>s. (s_channel_name s, s_server_name s, s_conn s))) (\<lambda>(chan, server, c).
            insertMsg E c chan (u_nick u) content server))) Q R (s\<lparr>trace := trace s @ t\<rparr>)"
    unfolding wp_bind wp_lift pos
    by (simp add: wp_simps, rule wp_insertMsg [OF assms(3)])
      (use t assms(4) in \<open>auto simp: to_others_def relayed_def\<close>)
qed

lemma wp_handle_part:
  assumes "steady E peer (set (s_socks s))" and "servlet_ok peer s" and "u \<in> set (s_users s)"
    and "\<And>t. deliveries peer t = to_others (room_abs s) (u_endpt u) (relayed E u msg) \<Longrightarrow>
        executed t = [] \<Longrightarrow>
        Q () ((without peer (u_endpt u) s)\<lparr>trace := trace s @ t\<rparr>)"
  shows "wp (handle_part E msg u) Q R s"
  unfolding handle_part_def wp_then
proof (rule wp_broadcast [OF assms(1,2)])
  show "ends_crlf ('':'' @ prefix_of E u @ '' '' @ msg @ crlf)" by simp
  fix t
  assume t: "deliveries peer t = map (\<lambda>v. (u_endpt v, '':'' @ prefix_of E u @ '' '' @ msg @ crlf))
      (filter (\<lambda>v. \<not> u_endpt v = u_endpt u) (s_users s))" "executed t = []"
  have w: "without peer e (s\<lparr>trace := T\<rparr>) = (without peer e s)\<lparr>trace := T\<rparr>" for e T
    by (simp add: without_def)
  show "wp (remove_trace_of E u) Q R (s\<lparr>trace := trace s @ t\<rparr>)"
    by (rule wp_remove_trace_of [where peer = peer])
      (use assms t in \<open>auto simp: w to_others_def relayed_def intro: steady_connected\<close>)
qed

lemma wp_handle_topic:
  assumes "steady E peer (set (s_socks s))" and "servlet_ok peer s" and "db_up E"
    and "s_users s \<noteq> []"
    and "\<And>t. deliveries peer t = to_all (room_abs s)
            (topic_notice E (s_channel_name s) u (topic_of (s_channel_name s) msg)) \<Longrightarrow>
        executed t = [(s_conn s, q_updateChannelTopic E (s_channel_name s)
            (topic_of (s_channel_name s) msg) (s_server_name s))] \<Longrightarrow>
        Q () (s\<lparr>s_channel_topic := topic_of (s_channel_name s) msg, trace := trace s @ t\<rparr>)"
  shows "wp (handle_topic E msg u) Q R s"
proof -
  let ?chan = "s_channel_name s" and ?new = "topic_of (s_channel_name s) msg"
  let ?s = "s\<lparr>s_channel_topic := ?new\<rparr>"
  have socks: "s_socks s \<noteq> []"
    using assms(2,4) by (auto simp: servlet_ok_def)
  show ?thesis
    unfolding handle_topic_def
    apply (simp add: wp_simps)
    apply (rule wp_updateChannelTopic [OF assms(3)])
    apply (simp add: wp_simps socks)
    apply (rule wp_broadcast [where peer = peer])
    using assms apply (simp_all add: topic_notice_def to_all_def topic_of_def)
    done
qed

section \<open>A channel for the witnesses\<close>

definition lab_user :: "string \<Rightarrow> sock \<Rightarrow> user" where
  "lab_user n k = user_default\<lparr>u_nick := n, u_whoami := n, u_chan := ''#lab'', u_endpt := lab_peer k\<rparr>"

definition lab_servlet :: "(endpoint, string list) smap \<Rightarrow> servlet" where
  "lab_servlet queues = \<lparr>trace = [], chan_newusers = [], global_socks = [], flags = [True],
     selfdestruct = False, s_users = [lab_user ''alice'' 2, lab_user ''bob'' 3], s_socks = [2, 3],
     s_end_msgs = queues, s_channel_name = ''#lab'', s_channel_topic = ''start'',
     s_server_name = ''lab'', s_conn = 0\<rparr>"

lemma lab_user_fields [simp]:
  "u_endpt (lab_user n k) = lab_peer k" "u_nick (lab_user n k) = n"
  "u_whoami (lab_user n k) = n" "u_chan (lab_user n k) = ''#lab''"
  by (simp_all add: lab_user_def)

lemma lab_servlet_fields [simp]:
  "trace (lab_servlet q) = []" "flags (lab_servlet q) = [True]"
  "chan_newusers (lab_servlet q) = []" "global_socks (lab_servlet q) = []"
  "s_users (lab_servlet q) = [lab_user ''alice'' 2, lab_user ''bob'' 3]"
  "s_socks (lab_servlet q) = [2, 3]" "s_end_msgs (lab_servlet q) = q"
  "s_channel_name (lab_servlet q) = ''#lab''" "s_channel_topic (lab_servlet q) = ''start''"
  "s_conn (lab_servlet q) = 0" "s_server_name (lab_servlet q) = ''lab''"
  by (simp_all add: lab_servlet_def)

lemma lab_peer_neq [simp]:
  "lab_peer 2 \<noteq> lab_peer 3" "lab_peer 3 \<noteq> lab_peer 2" "lab_peer 2 < lab_peer 3"
  by (simp_all add: lab_peer_def)

lemma lab_servlet_ok:
  "smap_wf q \<Longrightarrow> set (smap_keys q) \<subseteq> {lab_peer 2, lab_peer 3} \<Longrightarrow> servlet_ok lab_peer (lab_servlet q)"
  by (auto simp: servlet_ok_def)

lemma lab_db_up: "db_up lab_env"
  by (simp add: db_up_def)

end
