(* ===== verification/Delivery.thy ===== *)
theory Delivery
  imports Room
begin

text \<open>
  \<open>handle_msg\<close> and \<open>handle_endmsgs\<close> of \<open>Servlet\<close> against the abstract room: what the channel
  thread sends for the messages it has queued is what a room delivers for them, in the order of
  the senders' endpoints; and where the loops over \<open>_end_msgs\<close> come to an end when a message is
  one that erases an entry of it, or one that is not recognised.
\<close>

section \<open>One message\<close>

text \<open>The messages that are recognised and leave the membership alone.\<close>

definition plain :: "string \<Rightarrow> bool" where
  "plain m \<longleftrightarrow> recognized m \<and> take 4 m \<noteq> ''PART''"

lemma handle_msg_plain:
  assumes "steady E peer (set (s_socks s))" and "servlet_ok peer s" and "db_up E"
    and "List.find (\<lambda>u. u_endpt u = e) (s_users s) = Some u" and "plain m"
  obtains c t where
    "handle_msg E m e s = (Inr (), s\<lparr>s_channel_topic := c, trace := trace s @ t\<rparr>)"
    and "room_msg E (s_channel_name s) (room_abs s) u m
      = ((room_abs s)\<lparr>topic := c\<rparr>, deliveries peer t)"
proof -
  have u: "u \<in> set (s_users s)" "u_endpt u = e"
    using assms(4) by (auto simp: find_Some_iff)
  let ?P = "\<lambda>(_::unit) s'. \<exists>c t. s' = s\<lparr>s_channel_topic := c, trace := trace s @ t\<rparr>
    \<and> room_msg E (s_channel_name s) (room_abs s) u m
      = ((room_abs s)\<lparr>topic := c\<rparr>, deliveries peer t)"
  have "wp (handle_msg E m e) ?P (\<lambda>_ _. False) s"
  proof (cases "take 7 m = ''PRIVMSG''")
    case True
    have "wp (handle_priv E m u) ?P (\<lambda>_ _. False) s"
    proof (rule wp_handle_priv [OF assms(1-3)], goal_cases)
      case (1 t d)
      then show ?case using True
        by (intro exI [of _ "s_channel_topic s"] exI [of _ t]) (simp add: room_msg_def)
    qed
    with True assms(4) show ?thesis by (simp add: handle_msg_def deref_def wp_simps)
  next
    case False
    then have m: "take 4 m \<noteq> ''PART''" "take 5 m = ''TOPIC''"
      using assms(5) by (auto simp: plain_def recognized_def)
    have "wp (handle_topic E m u) ?P (\<lambda>_ _. False) s"
    proof (rule wp_handle_topic [OF assms(1-3)], goal_cases)
      case 1
      then show ?case using u by auto
    next
      case (2 t)
      then show ?case using False m
        by (intro exI [of _ "topic_of (s_channel_name s) m"] exI [of _ t])
          (simp add: room_msg_def to_all_def)
    qed
    with False m assms(4) show ?thesis by (simp add: handle_msg_def deref_def wp_simps)
  qed
  then show ?thesis by (elim wp_ok_run exE conjE) (rule that, auto)
qed

text \<open>A PRIVMSG or a TOPIC with a given text, sent by the member \<open>u\<close>.\<close>

lemma find_member:
  "distinct (map u_endpt us) \<Longrightarrow> u \<in> set us \<Longrightarrow> List.find (\<lambda>v. u_endpt v = u_endpt u) us = Some u"
  by (induction us) force+

lemma handle_msg_said:
  assumes "steady E peer (set (s_socks s))" and "servlet_ok peer s" and "db_up E"
    and "u \<in> set (s_users s)" and "CHR '':'' \<notin> set chan"
  obtains t d where "handle_msg E (''PRIVMSG '' @ chan @ '' :'' @ l) (u_endpt u) s = (Inr (), s\<lparr>trace := trace s @ t\<rparr>)"
    and "deliveries peer t = to_others (room_abs s) (u_endpt u) (relayed E u (''PRIVMSG '' @ chan @ '' :'' @ l))"
    and "executed t = [(s_conn s, q_now),
      (s_conn s, q_insertMsg E (u_nick u) d l (s_channel_name s) (s_server_name s))]"
proof -
  let ?m = "''PRIVMSG '' @ chan @ '' :'' @ l"
  have "find_idx '':'' ((''PRIVMSG '' @ chan @ '' '') @ CHR '':'' # l) = Some (length (''PRIVMSG '' @ chan @ '' ''))"
    using assms(5) by (intro find_idx_char) simp
  then have said: "drop (pos_plus (find_idx '':'' ?m) 1) ?m = l"
    by (simp add: pos_plus_Some)
  have u: "List.find (\<lambda>v. u_endpt v = u_endpt u) (s_users s) = Some u"
    using assms(2,4) by (simp add: servlet_ok_def find_member)
  have "wp (handle_priv E ?m u) (\<lambda>_ s'. \<exists>t d. s' = s\<lparr>trace := trace s @ t\<rparr>
      \<and> deliveries peer t = to_others (room_abs s) (u_endpt u) (relayed E u ?m)
      \<and> executed t = [(s_conn s, q_now), (s_conn s, q_insertMsg E (u_nick u) d
          (drop (pos_plus (find_idx '':'' ?m) 1) ?m) (s_channel_name s) (s_server_name s))])
      (\<lambda>_ _. False) s"
    by (rule wp_handle_priv [OF assms(1-3)]) blast
  then show thesis
    unfolding said by (rule wp_ok_run) (use u that in \<open>auto simp: handle_msg_def deref_def run\<close>)
qed

lemma handle_msg_set:
  assumes "steady E peer (set (s_socks s))" and "servlet_ok peer s" and "db_up E"
    and "u \<in> set (s_users s)" and "find_idx (''TOPIC '' @ s_channel_name s @ '' :'') tp = None"
  obtains t where "handle_msg E (''TOPIC '' @ s_channel_name s @ '' :'' @ tp) (u_endpt u) s
      = (Inr (), s\<lparr>s_channel_topic := tp, trace := trace s @ t\<rparr>)"
    and "deliveries peer t = to_all (room_abs s) (topic_notice E (s_channel_name s) u tp)"
    and "executed t = [(s_conn s, q_updateChannelTopic E (s_channel_name s) tp (s_server_name s))]"
proof -
  let ?d = "''TOPIC '' @ s_channel_name s @ '' :''"
  have "pieces ?d (?d @ tp) = [[], tp]" by (rule pieces_after) (use assms(5) in simp_all)
  then have tp: "topic_of (s_channel_name s) (?d @ tp) = tp" by (simp add: topic_of_def)
  have u: "List.find (\<lambda>v. u_endpt v = u_endpt u) (s_users s) = Some u" "s_users s \<noteq> []"
    using assms(2,4) by (auto simp: servlet_ok_def find_member)
  have "wp (handle_topic E (?d @ tp) u) (\<lambda>_ s'. \<exists>t. s' = s\<lparr>s_channel_topic := topic_of (s_channel_name s) (?d @ tp),
        trace := trace s @ t\<rparr>
      \<and> deliveries peer t = to_all (room_abs s) (topic_notice E (s_channel_name s) u (topic_of (s_channel_name s) (?d @ tp)))
      \<and> executed t = [(s_conn s, q_updateChannelTopic E (s_channel_name s)
          (topic_of (s_channel_name s) (?d @ tp)) (s_server_name s))])
      (\<lambda>_ _. False) s"
    by (rule wp_handle_topic [OF assms(1-3) u(2)]) blast
  then show thesis
    unfolding tp by (rule wp_ok_run) (use u that in \<open>auto simp: handle_msg_def deref_def run\<close>)
qed

lemma handle_msg_part:
  assumes "steady E peer (set (s_socks s))" and "servlet_ok peer s"
    and "List.find (\<lambda>u. u_endpt u = e) (s_users s) = Some u" and "take 4 m = ''PART''"
  obtains t where
    "handle_msg E m e s = (Inr (), (without peer e s)\<lparr>trace := trace s @ t\<rparr>)"
    and "room_msg E (s_channel_name s) (room_abs s) u m
      = (leave e (room_abs s), deliveries peer t)"
proof -
  have u: "u \<in> set (s_users s)" "u_endpt u = e"
    using assms(3) by (auto simp: find_Some_iff)
  have m: "take 7 m \<noteq> ''PRIVMSG''"
  proof
    assume "take 7 m = ''PRIVMSG''"
    then have "take 4 (take 7 m) = ''PRIV''" by simp
    with assms(4) show False by simp
  qed
  have "wp (handle_part E m u) (\<lambda>_ s'. \<exists>t. s' = (without peer e s)\<lparr>trace := trace s @ t\<rparr>
      \<and> deliveries peer t = to_others (room_abs s) e (relayed E u m)) (\<lambda>_ _. False) s"
    by (rule wp_handle_part [OF assms(1,2) u(1)]) (use u in auto)
  with m assms(3,4) show ?thesis
    by (elim wp_ok_run exE conjE)
      (rule that, auto simp: handle_msg_def deref_def run room_msg_def u)
qed

lemma handle_msg_unrecognized:
  assumes "List.find (\<lambda>u. u_endpt u = e) (s_users s) = Some u" and "\<not> recognized m"
  obtains t where "handle_msg E m e s = (Inl unrecognized, s\<lparr>trace := trace s @ t\<rparr>)"
    and "sent t = []"
  using assms
  by (intro that [of "[Ev_print_err (''Unrecognized Message:\<newline>Msg begin: '' @ m @ ''\<newline>Msg end'')]"])
    (auto simp: recognized_def handle_msg_def deref_def run print_err_def)

section \<open>A queue of messages\<close>

lemma find_user_ex:
  assumes "e \<in> u_endpt ` set us"
  obtains u where "List.find (\<lambda>u. u_endpt u = e) us = Some u"
  using assms by (cases "List.find (\<lambda>u. u_endpt u = e) us") (auto simp: find_None_iff)

lemma servlet_ok_user:
  assumes "servlet_ok peer s" and "smap_count (s_end_msgs s) e"
  obtains u where "List.find (\<lambda>u. u_endpt u = e) (s_users s) = Some u"
proof -
  have "e \<in> set (smap_keys (s_end_msgs s))"
    using assms(2) by (simp add: smap_count_def smap_keys_find)
  with assms(1) have "e \<in> u_endpt ` set (s_users s)"
    by (auto simp: servlet_ok_def)
  then show ?thesis by (rule find_user_ex) (rule that)
qed

lemma handle_list_append:
  "handle_list E e (xs @ ys) = thenE (handle_list E e xs) (handle_list E e ys)"
proof (induction xs)
  case Nil
  show ?case by (simp add: fun_eq_iff run)
next
  case (Cons x xs)
  show ?case
    by (simp add: Cons fun_eq_iff run split: sum.splits prod.splits)
qed

lemma room_abs_topic [simp]:
  "room_abs (s\<lparr>s_channel_topic := c\<rparr>) = (room_abs s)\<lparr>topic := c\<rparr>"
  by (simp add: room_abs_def)

lemma handle_list_plain:
  assumes "steady E peer (set (s_socks s))" and "servlet_ok peer s" and "db_up E"
    and "smap_count (s_end_msgs s) e" and "list_all plain ms"
  obtains c t where
    "handle_list E e ms s = (Inr (), s\<lparr>s_channel_topic := c, trace := trace s @ t\<rparr>)"
    and "room_run E (s_channel_name s) (room_abs s) (map (Pair e) ms)
      = ((room_abs s)\<lparr>topic := c\<rparr>, deliveries peer t)"
  using assms
proof (induction ms arbitrary: s thesis)
  case Nil
  show ?case by (rule Nil(1) [of "[]" "s_channel_topic s"]) (simp_all add: run room_abs_def)
next
  case (Cons m ms)
  obtain u where u: "List.find (\<lambda>u. u_endpt u = e) (s_users s) = Some u"
    using Cons.prems(3,5) by (rule servlet_ok_user)
  obtain c t where m:
    "handle_msg E m e s = (Inr (), s\<lparr>s_channel_topic := c, trace := trace s @ t\<rparr>)"
    "room_msg E (s_channel_name s) (room_abs s) u m
      = ((room_abs s)\<lparr>topic := c\<rparr>, deliveries peer t)"
    using Cons.prems u by (auto elim: handle_msg_plain)
  let ?s = "s\<lparr>s_channel_topic := c, trace := trace s @ t\<rparr>"
  obtain c' t' where ms:
    "handle_list E e ms ?s = (Inr (), ?s\<lparr>s_channel_topic := c', trace := trace ?s @ t'\<rparr>)"
    "room_run E (s_channel_name ?s) (room_abs ?s) (map (Pair e) ms)
      = ((room_abs ?s)\<lparr>topic := c'\<rparr>, deliveries peer t')"
    by (rule Cons.IH [of ?s]) (use Cons.prems in auto)
  show ?case
    by (rule Cons.prems(1) [of "t @ t'" c'])
      (use m ms u Cons.prems(5) in \<open>simp_all add: run\<close>)
qed

text \<open>A PART ends the walk over its sender's queue in a dangling reference.\<close>

lemma handle_list_part:
  assumes "steady E peer (set (s_socks s))" and "servlet_ok peer s"
    and "smap_count (s_end_msgs s) e" and "take 4 m = ''PART''"
  obtains t where
    "handle_list E e (m # ms) s
      = (Inl (UB Dangling_reference), (without peer e s)\<lparr>trace := trace s @ t\<rparr>)"
    and "room_run E (s_channel_name s) (room_abs s) [(e, m)]
      = (leave e (room_abs s), deliveries peer t)"
proof -
  obtain u where u: "List.find (\<lambda>u. u_endpt u = e) (s_users s) = Some u"
    using assms(2,3) by (rule servlet_ok_user)
  obtain t where m:
    "handle_msg E m e s = (Inr (), (without peer e s)\<lparr>trace := trace s @ t\<rparr>)"
    "room_msg E (s_channel_name s) (room_abs s) u m
      = (leave e (room_abs s), deliveries peer t)"
    using assms u by (auto elim: handle_msg_part)
  have "smap_wf (s_end_msgs s)"
    using assms(2) by (simp add: servlet_ok_def)
  then have gone: "\<not> smap_count (s_end_msgs (without peer e s)) e"
    by (simp add: smap_count_def)
  show ?thesis
    by (rule that [of t]) (use m u gone in \<open>simp_all add: run\<close>)
qed

section \<open>All queues\<close>

definition queued_of :: "(endpoint, string list) smap \<Rightarrow> (endpoint \<times> string) list" where
  "queued_of m = concat (map (\<lambda>(e, q). map (Pair e) q) m)"

definition cleared :: "endpoint set \<Rightarrow> (endpoint, string list) smap \<Rightarrow> (endpoint, string list) smap" where
  "cleared A m = map (\<lambda>(e, q). (e, if e \<in> A then [] else q)) m"

lemma smap_find_cleared [simp]:
  "smap_find (cleared A m) e = map_option (\<lambda>q. if e \<in> A then [] else q) (smap_find m e)"
  by (induction m e rule: smap_find.induct) (auto simp: cleared_def)

lemma smap_keys_cleared [simp]: "smap_keys (cleared A m) = smap_keys m"
  by (auto simp: cleared_def smap_keys_def)

lemma smap_wf_cleared [simp]: "smap_wf (cleared A m) = smap_wf m"
  by (simp add: smap_wf_def flip: smap_keys_def)

lemma cleared_put:
  assumes "smap_wf m" and "smap_count m e"
  shows "smap_put e [] (cleared A m) = cleared (insert e A) m"
  by (rule smap_eqI) (use assms in \<open>auto simp: smap_count_def fun_eq_iff\<close>)

lemma cleared_empty [simp]: "cleared {} m = m"
  by (induction m) (auto simp: cleared_def)

lemma cleared_insert_Nil:
  assumes "smap_wf m" and "smap_find m e = Some []"
  shows "cleared (insert e A) m = cleared A m"
proof (rule smap_eqI)
  show "smap_find (cleared (insert e A) m) = smap_find (cleared A m)"
  proof
    fix x show "smap_find (cleared (insert e A) m) x = smap_find (cleared A m) x"
      using assms by (cases "x = e") auto
  qed
qed (use assms in simp_all)

lemma topic_last [simp]:
  "s\<lparr>s_channel_topic := c, s_end_msgs := m\<rparr> = s\<lparr>s_end_msgs := m, s_channel_topic := c\<rparr>"
  by (cases s) simp

lemma servlet_ok_cleared [simp]:
  "servlet_ok peer (s\<lparr>s_end_msgs := cleared A (s_end_msgs s)\<rparr>) = servlet_ok peer s"
  by (simp add: servlet_ok_def)

lemma room_abs_end_msgs [simp]: "room_abs (s\<lparr>s_end_msgs := m\<rparr>) = room_abs s"
  by (simp add: room_abs_def)

lemma servlet_ok_wf: "servlet_ok peer s \<Longrightarrow> smap_wf (s_end_msgs s)"
  by (simp add: servlet_ok_def)

lemma handle_entry_plain:
  assumes "steady E peer (set (s_socks s))" and "servlet_ok peer s" and "db_up E"
    and "smap_find (s_end_msgs s) e = Some q" and "list_all plain q"
  obtains c t where
    "handle_entry E e s = (Inr (), s\<lparr>s_end_msgs := cleared {e} (s_end_msgs s),
       s_channel_topic := c, trace := trace s @ t\<rparr>)"
    and "room_run E (s_channel_name s) (room_abs s) (map (Pair e) q)
      = ((room_abs s)\<lparr>topic := c\<rparr>, deliveries peer t)"
proof -
  have present: "smap_count (s_end_msgs s) e"
    using assms(4) by (simp add: smap_count_def)
  obtain c t where q:
    "handle_list E e q s = (Inr (), s\<lparr>s_channel_topic := c, trace := trace s @ t\<rparr>)"
    "room_run E (s_channel_name s) (room_abs s) (map (Pair e) q)
      = ((room_abs s)\<lparr>topic := c\<rparr>, deliveries peer t)"
    using assms(1-3) present assms(5) by (rule handle_list_plain)
  have "(if q = [] then s_end_msgs s else smap_put e [] (s_end_msgs s)) = cleared {e} (s_end_msgs s)"
    using cleared_put [OF servlet_ok_wf [OF assms(2)] present, of "{}"]
      cleared_insert_Nil [OF servlet_ok_wf [OF assms(2)], of e "{}"] assms(4) by auto
  moreover have "smap_get [] (s_end_msgs s) e = q"
    using assms(4) by (simp add: smap_get_def)
  moreover have "s\<lparr>s_end_msgs := s_end_msgs s\<rparr> = s" by simp
  ultimately have "handle_entry E e s = (Inr (), s\<lparr>s_end_msgs := cleared {e} (s_end_msgs s),
       s_channel_topic := c, trace := trace s @ t\<rparr>)"
    using present q(1) by (auto simp: handle_entry_def run split: if_splits)
  with q(2) show ?thesis by (rule that [rotated])
qed

definition queues_of :: "(endpoint, string list) smap \<Rightarrow> endpoint list \<Rightarrow> (endpoint \<times> string) list" where
  "queues_of m es = concat (map (\<lambda>e. map (Pair e) (smap_get [] m e)) es)"

lemma for_entries_append:
  "for_entries E (xs @ ys) = thenE (for_entries E xs) (for_entries E ys)"
proof (induction xs)
  case Nil
  show ?case by (simp add: fun_eq_iff run)
next
  case (Cons x xs)
  show ?case by (simp add: Cons fun_eq_iff run split: sum.splits prod.splits)
qed

lemma cleared_cleared [simp]: "cleared A (cleared B m) = cleared (A \<union> B) m"
  by (auto simp: cleared_def)

lemma queues_of_cleared:
  "e \<notin> set es \<Longrightarrow> queues_of (cleared {e} m) es = queues_of m es"
  by (auto simp: queues_of_def smap_get_def option.case_eq_if intro!: arg_cong [where f = concat]
      map_cong)

lemma for_entries_plain:
  assumes "steady E peer (set (s_socks s))" and "servlet_ok peer s" and "db_up E"
    and "distinct es" and "set es \<subseteq> set (smap_keys (s_end_msgs s))"
    and "list_all (\<lambda>(e, m). plain m) (queues_of (s_end_msgs s) es)"
  obtains c t where
    "for_entries E es s = (Inr (), s\<lparr>s_end_msgs := cleared (set es) (s_end_msgs s),
       s_channel_topic := c, trace := trace s @ t\<rparr>)"
    and "room_run E (s_channel_name s) (room_abs s) (queues_of (s_end_msgs s) es)
      = ((room_abs s)\<lparr>topic := c\<rparr>, deliveries peer t)"
  using assms
proof (induction es arbitrary: s thesis)
  case Nil
  show ?case
    by (rule Nil(1) [of "[]" "s_channel_topic s"]) (simp_all add: run room_abs_def queues_of_def)
next
  case (Cons e es)
  obtain q where q: "smap_find (s_end_msgs s) e = Some q"
    using Cons.prems(6) smap_keys_find [of "s_end_msgs s" e] by (cases "smap_find (s_end_msgs s) e") auto
  then have queues: "queues_of (s_end_msgs s) (e # es) = map (Pair e) q @ queues_of (s_end_msgs s) es"
    by (simp add: queues_of_def smap_get_def)
  then have plain_q: "list_all plain q"
    and plain_es: "list_all (\<lambda>(e, m). plain m) (queues_of (s_end_msgs s) es)"
    using Cons.prems(7) by (auto simp: list_all_iff)
  obtain c t where entry:
    "handle_entry E e s = (Inr (), s\<lparr>s_end_msgs := cleared {e} (s_end_msgs s),
       s_channel_topic := c, trace := trace s @ t\<rparr>)"
    "room_run E (s_channel_name s) (room_abs s) (map (Pair e) q)
      = ((room_abs s)\<lparr>topic := c\<rparr>, deliveries peer t)"
    using Cons.prems(2-4) q plain_q by (rule handle_entry_plain)
  let ?s = "s\<lparr>s_end_msgs := cleared {e} (s_end_msgs s), s_channel_topic := c, trace := trace s @ t\<rparr>"
  obtain c' t' where rest:
    "for_entries E es ?s = (Inr (), ?s\<lparr>s_end_msgs := cleared (set es) (s_end_msgs ?s),
       s_channel_topic := c', trace := trace ?s @ t'\<rparr>)"
    "room_run E (s_channel_name ?s) (room_abs ?s) (queues_of (s_end_msgs ?s) es)
      = ((room_abs ?s)\<lparr>topic := c'\<rparr>, deliveries peer t')"
    by (rule Cons.IH [of ?s])
      (use Cons.prems plain_es in \<open>auto simp: queues_of_cleared\<close>)
  show ?case
  proof (rule Cons.prems(1))
    show "for_entries E (e # es) s = (Inr (), s\<lparr>s_end_msgs := cleared (set (e # es)) (s_end_msgs s),
       s_channel_topic := c', trace := trace s @ t @ t'\<rparr>)"
      using entry(1) rest(1) q by (simp add: run smap_count_def)
    show "room_run E (s_channel_name s) (room_abs s) (queues_of (s_end_msgs s) (e # es))
      = ((room_abs s)\<lparr>topic := c'\<rparr>, deliveries peer (t @ t'))"
      using entry(2) rest(2) Cons.prems(5) by (simp add: queues room_run_append queues_of_cleared)
  qed
qed

lemma queues_of_keys: "smap_wf m \<Longrightarrow> queues_of m (smap_keys m) = queued_of m"
  unfolding queues_of_def queued_of_def smap_keys_def map_map
  by (rule arg_cong [where f = concat], rule map_cong)
    (auto simp: smap_get_def smap_mem_find)

lemma queues_of_append: "queues_of m (xs @ ys) = queues_of m xs @ queues_of m ys"
  by (simp add: queues_of_def)

lemma queues_of_split:
  assumes "queues_of m es = pre @ (e, p) # post"
  obtains es1 es2 q1 q2 where "es = es1 @ e # es2" and "smap_get [] m e = q1 @ p # q2"
    and "pre = queues_of m es1 @ map (Pair e) q1"
  using assms
proof (induction es arbitrary: pre thesis)
  case Nil
  then show ?case by (simp add: queues_of_def)
next
  case (Cons f es)
  have "map (Pair f) (smap_get [] m f) @ queues_of m es = pre @ (e, p) # post"
    using Cons.prems(2) by (simp add: queues_of_def)
  then consider
      us where "map (Pair f) (smap_get [] m f) = pre @ us" "us @ queues_of m es = (e, p) # post"
        "us \<noteq> []"
    | us where "pre = map (Pair f) (smap_get [] m f) @ us" "queues_of m es = us @ (e, p) # post"
    by (cases "\<exists>us. map (Pair f) (smap_get [] m f) = pre @ us \<and> us \<noteq> []")
      (auto simp: append_eq_append_conv2)
  then show ?case
  proof cases
    case (1 us)
    then obtain us' where "map (Pair f) (smap_get [] m f) = pre @ (e, p) # us'"
      by (cases us) auto
    then obtain q1 q2 where "smap_get [] m f = q1 @ p # q2" "pre = map (Pair f) q1" "f = e"
      by (auto simp: map_eq_append_conv)
    then show ?thesis
      by (intro Cons.prems(1) [of "[]" es q1 q2]) (auto simp: queues_of_def)
  next
    case (2 us)
    from Cons.IH [OF _ 2(2)] obtain es1 es2 q1 q2 where
      "es = es1 @ e # es2" "smap_get [] m e = q1 @ p # q2" "us = queues_of m es1 @ map (Pair e) q1"
      by blast
    then show ?thesis using 2(1)
      by (intro Cons.prems(1) [of "f # es1" es2 q1 q2]) (auto simp: queues_of_def)
  qed
qed

text \<open>Up to a given message of the queues, all before it being plain.\<close>

lemma handle_endmsgs_upto:
  assumes "steady E peer (set (s_socks s))" and "servlet_ok peer s" and "db_up E"
    and "queued_of (s_end_msgs s) = pre @ (e, p) # post" and "list_all (\<lambda>(e, m). plain m) pre"
    and "\<And>s' ms. servlet_ok peer s' \<Longrightarrow> s_socks s' = s_socks s \<Longrightarrow>
        smap_count (s_end_msgs s') e \<Longrightarrow> s_channel_name s' = s_channel_name s \<Longrightarrow>
        \<exists>err s'' t. handle_list E e (p # ms) s' = (Inl err, s''\<lparr>trace := trace s' @ t\<rparr>)
          \<and> P err \<and> D (room_abs s') (deliveries peer t)"
  shows "\<exists>err s'' t1 t2. handle_endmsgs E s = (Inl err, s''\<lparr>trace := trace s @ t1 @ t2\<rparr>)
      \<and> P err
      \<and> snd (room_run E (s_channel_name s) (room_abs s) pre) = deliveries peer t1
      \<and> D (fst (room_run E (s_channel_name s) (room_abs s) pre)) (deliveries peer t2)"
proof -
  let ?m = "s_end_msgs s" and ?chan = "s_channel_name s"
  note wf = servlet_ok_wf [OF assms(2)]
  have "queues_of ?m (smap_keys ?m) = pre @ (e, p) # post"
    using assms(4) wf by (simp add: queues_of_keys)
  then obtain es1 es2 q1 q2 where split: "smap_keys ?m = es1 @ e # es2"
    "smap_get [] ?m e = q1 @ p # q2" "pre = queues_of ?m es1 @ map (Pair e) q1"
    by (rule queues_of_split)
  then have new: "e \<notin> set es1" "distinct es1"
    using smap_wf_distinct [OF wf] by auto
  have present: "smap_count ?m e"
    using split(1) smap_keys_find [of ?m e] by (simp add: smap_count_def)
  obtain c t where es1:
    "for_entries E es1 s = (Inr (), s\<lparr>s_end_msgs := cleared (set es1) ?m,
       s_channel_topic := c, trace := trace s @ t\<rparr>)"
    "room_run E ?chan (room_abs s) (queues_of ?m es1) = ((room_abs s)\<lparr>topic := c\<rparr>, deliveries peer t)"
    by (rule for_entries_plain [where E = E and es = es1, OF assms(1-3) new(2)])
      (use split assms(5) in auto)
  let ?s = "s\<lparr>s_end_msgs := cleared (set es1) ?m, s_channel_topic := c, trace := trace s @ t\<rparr>"
  have e: "smap_find (s_end_msgs ?s) e = Some (q1 @ p # q2)" "smap_count (s_end_msgs ?s) e"
    using split(2) new present by (auto simp: smap_get_def smap_count_def)
  have plain_q1: "list_all plain q1"
    using assms(5) split(3) by (auto simp: list_all_iff)
  obtain c' t' where q1:
    "handle_list E e q1 ?s = (Inr (), ?s\<lparr>s_channel_topic := c', trace := trace ?s @ t'\<rparr>)"
    "room_run E (s_channel_name ?s) (room_abs ?s) (map (Pair e) q1)
      = ((room_abs ?s)\<lparr>topic := c'\<rparr>, deliveries peer t')"
    by (rule handle_list_plain [where E = E and s = ?s and ms = q1 and e = e and peer = peer])
      (use assms(1-3) e plain_q1 in \<open>auto\<close>)
  let ?s' = "?s\<lparr>s_channel_topic := c', trace := trace ?s @ t'\<rparr>"
  obtain err s'' t2 where bad:
    "handle_list E e (p # q2) ?s' = (Inl err, s''\<lparr>trace := trace ?s' @ t2\<rparr>)"
    "P err" "D (room_abs ?s') (deliveries peer t2)"
    using assms(6) [of ?s' q2] assms(2) e(2) by auto
  have "smap_get [] (s_end_msgs ?s) e = q1 @ p # q2"
    using e(1) unfolding smap_get_def by (cases "smap_find (s_end_msgs ?s) e") auto
  with q1(1) bad(1) have "handle_entry E e ?s = (Inl err, s''\<lparr>trace := trace ?s' @ t2\<rparr>)"
    by (simp add: handle_entry_def handle_list_append run del: handle_list.simps)
  then have "handle_endmsgs E s = (Inl err, s''\<lparr>trace := trace s @ (t @ t') @ t2\<rparr>)"
    using split(1) es1(1) e by (simp add: handle_endmsgs_def run for_entries_append)
  moreover have "room_run E ?chan (room_abs s) pre
      = (room_abs ?s', deliveries peer (t @ t'))"
    using es1(2) q1(2) by (simp add: split(3) room_run_append)
  ultimately show ?thesis using bad(2,3)
    by (intro exI [of _ err] exI [of _ s''] exI [of _ "t @ t'"] exI [of _ t2]) simp
qed

lemma queued_of_cleared_all: "queued_of (cleared (set (smap_keys m)) m) = []"
  by (force simp: queued_of_def cleared_def smap_keys_def)

lemma handle_endmsgs_run:
  assumes "steady E peer (set (s_socks s))" and "servlet_ok peer s" and "db_up E"
    and "\<forall>(e, m) \<in> set (queued_of (s_end_msgs s)). plain m"
  obtains c t where "handle_endmsgs E s =
      (Inr (), s\<lparr>s_end_msgs := cleared (set (smap_keys (s_end_msgs s))) (s_end_msgs s),
         s_channel_topic := c, trace := trace s @ t\<rparr>)"
    and "room_run E (s_channel_name s) (room_abs s) (queued_of (s_end_msgs s))
      = ((room_abs s)\<lparr>topic := c\<rparr>, deliveries peer t)"
proof -
  let ?m = "s_end_msgs s"
  note wf = servlet_ok_wf [OF assms(2)]
  obtain c t where
    "for_entries E (smap_keys ?m) s = (Inr (), s\<lparr>s_end_msgs := cleared (set (smap_keys ?m)) ?m,
       s_channel_topic := c, trace := trace s @ t\<rparr>)"
    "room_run E (s_channel_name s) (room_abs s) (queues_of ?m (smap_keys ?m))
      = ((room_abs s)\<lparr>topic := c\<rparr>, deliveries peer t)"
    by (rule for_entries_plain [where E = E and es = "smap_keys ?m", OF assms(1-3)])
      (use assms(4) wf in \<open>auto simp: smap_wf_distinct queues_of_keys list_all_iff\<close>)
  with wf show ?thesis
    by (intro that) (simp_all add: handle_endmsgs_def run queues_of_keys)
qed

section \<open>Properties\<close>

text \<open>C12: When every queued message is a PRIVMSG or a TOPIC, one pass of \<open>handle_endmsgs\<close> over the
  queues of a channel whose connections are up returns, empties every queue, keeps the members and
  their sockets, and sends exactly what the abstract room delivers for these messages, in the order
  of the senders' endpoints and, for one sender, in the order of arrival; the topic afterwards is
  the room's.\<close>

theorem handle_endmsgs_delivers:
  assumes "steady E peer (set (s_socks s))" and "servlet_ok peer s" and "db_up E"
    and "\<forall>(e, m) \<in> set (queued_of (s_end_msgs s)). plain m"
  shows "\<exists>s' t. handle_endmsgs E s = (Inr (), s') \<and> trace s' = trace s @ t
    \<and> room_run E (s_channel_name s) (room_abs s) (queued_of (s_end_msgs s))
        = (room_abs s', deliveries peer t)
    \<and> servlet_ok peer s' \<and> s_users s' = s_users s \<and> s_socks s' = s_socks s
    \<and> smap_keys (s_end_msgs s') = smap_keys (s_end_msgs s) \<and> queued_of (s_end_msgs s') = []"
proof -
  obtain c t where "handle_endmsgs E s =
      (Inr (), s\<lparr>s_end_msgs := cleared (set (smap_keys (s_end_msgs s))) (s_end_msgs s),
         s_channel_topic := c, trace := trace s @ t\<rparr>)"
    "room_run E (s_channel_name s) (room_abs s) (queued_of (s_end_msgs s))
      = ((room_abs s)\<lparr>topic := c\<rparr>, deliveries peer t)"
    using assms by (rule handle_endmsgs_run)
  with assms(2) show ?thesis
    by (intro exI [of _ "s\<lparr>s_end_msgs := cleared (set (smap_keys (s_end_msgs s))) (s_end_msgs s),
          s_channel_topic := c, trace := trace s @ t\<rparr>"] exI [of _ t])
      (simp add: queued_of_cleared_all)
qed

lemma handle_endmsgs_delivers_witness:
  "\<exists>s' t. handle_endmsgs lab_env (lab_servlet [(lab_peer 2, [''PRIVMSG #lab :hi'']),
        (lab_peer 3, [''TOPIC #lab :new''])]) = (Inr (), s') \<and> trace s' = t
     \<and> s_channel_topic s' = ''new'' \<and> deliveries lab_peer t =
        [(lab_peer 3, '':alice!alice@127.0.0.1 PRIVMSG #lab :hi'' @ crlf),
         (lab_peer 2, ''bob!bob@127.0.0.1 TOPIC #lab :new'' @ crlf),
         (lab_peer 3, ''bob!bob@127.0.0.1 TOPIC #lab :new'' @ crlf)]"
proof -
  let ?q = "[(lab_peer 2, [''PRIVMSG #lab :hi'']), (lab_peer 3, [''TOPIC #lab :new''])]"
  have q: "queued_of ?q = [(lab_peer 2, ''PRIVMSG #lab :hi''), (lab_peer 3, ''TOPIC #lab :new'')]"
    by (simp add: queued_of_def)
  have "topic_of ''#lab'' ''TOPIC #lab :new'' = ''new''"
    by (simp add: topic_of_def pieces.simps starts_with_def)
  then have r: "room_run lab_env ''#lab'' (room_abs (lab_servlet ?q)) (queued_of ?q)
    = (\<lparr>members = s_users (lab_servlet ?q), topic = ''new''\<rparr>,
        [(lab_peer 3, '':alice!alice@127.0.0.1 PRIVMSG #lab :hi'' @ crlf),
         (lab_peer 2, ''bob!bob@127.0.0.1 TOPIC #lab :new'' @ crlf),
         (lab_peer 3, ''bob!bob@127.0.0.1 TOPIC #lab :new'' @ crlf)])"
    unfolding q by (simp add: room_msg_def to_others_def to_all_def relayed_def topic_notice_def
        prefix_of_def address_text_def room_abs_def)
  have "\<forall>(e, m) \<in> set (queued_of (s_end_msgs (lab_servlet ?q))). plain m"
    by (simp add: q plain_def recognized_def)
  with r obtain s' t where s': "handle_endmsgs lab_env (lab_servlet ?q) = (Inr (), s')"
    "trace s' = t" "room_abs s' = \<lparr>members = s_users (lab_servlet ?q), topic = ''new''\<rparr>"
    "deliveries lab_peer t = [(lab_peer 3, '':alice!alice@127.0.0.1 PRIVMSG #lab :hi'' @ crlf),
         (lab_peer 2, ''bob!bob@127.0.0.1 TOPIC #lab :new'' @ crlf),
         (lab_peer 3, ''bob!bob@127.0.0.1 TOPIC #lab :new'' @ crlf)]"
    using handle_endmsgs_delivers [OF lab_steady lab_servlet_ok [of ?q] lab_db_up] by auto
  from s'(3) have "s_channel_topic s' = ''new''" by (simp add: room_abs_def)
  with s' show ?thesis by blast
qed

text \<open>C31: A PART among the queued messages makes \<open>handle_endmsgs\<close> reach undefined behaviour: what
  precedes it and the PART itself are delivered as the room delivers them, then the loop over
  \<open>_end_msgs\<close> goes on with the entry that \<open>remove_trace_of\<close> has erased under it.\<close>

theorem handle_endmsgs_part_dangles:
  assumes "steady E peer (set (s_socks s))" and "servlet_ok peer s" and "db_up E"
    and "queued_of (s_end_msgs s) = pre @ (e, p) # post"
    and "\<forall>(e, m) \<in> set pre. plain m" and "take 4 p = ''PART''"
  shows "\<exists>s' t. handle_endmsgs E s = (Inl (UB Dangling_reference), s') \<and> trace s' = trace s @ t
    \<and> snd (room_run E (s_channel_name s) (room_abs s) (pre @ [(e, p)])) = deliveries peer t"
proof -
  let ?D = "\<lambda>r ds. snd (room_run E (s_channel_name s) r [(e, p)]) = ds"
  have "\<exists>err s'' t1 t2. handle_endmsgs E s = (Inl err, s''\<lparr>trace := trace s @ t1 @ t2\<rparr>)
      \<and> err = UB Dangling_reference
      \<and> snd (room_run E (s_channel_name s) (room_abs s) pre) = deliveries peer t1
      \<and> ?D (fst (room_run E (s_channel_name s) (room_abs s) pre)) (deliveries peer t2)"
  proof (rule handle_endmsgs_upto [OF assms(1-4)])
    fix s' ms
    assume s': "servlet_ok peer s'" "s_socks s' = s_socks s" "smap_count (s_end_msgs s') e"
      "s_channel_name s' = s_channel_name s"
    then have up: "steady E peer (set (s_socks s'))" using assms(1) by simp
    obtain t where
      "handle_list E e (p # ms) s'
        = (Inl (UB Dangling_reference), (without peer e s')\<lparr>trace := trace s' @ t\<rparr>)"
      "room_run E (s_channel_name s') (room_abs s') [(e, p)]
        = (leave e (room_abs s'), deliveries peer t)"
      by (rule handle_list_part [OF up s'(1,3) assms(6)])
    with s'(4) show "\<exists>err s'' t. handle_list E e (p # ms) s' = (Inl err, s''\<lparr>trace := trace s' @ t\<rparr>)
        \<and> err = UB Dangling_reference \<and> ?D (room_abs s') (deliveries peer t)"
      by auto
  qed (use assms(5) in \<open>simp add: list_all_iff\<close>)
  then obtain s'' t1 t2 where
    "handle_endmsgs E s = (Inl (UB Dangling_reference), s''\<lparr>trace := trace s @ t1 @ t2\<rparr>)"
    "snd (room_run E (s_channel_name s) (room_abs s) pre) = deliveries peer t1"
    "?D (fst (room_run E (s_channel_name s) (room_abs s) pre)) (deliveries peer t2)"
    by blast
  then show ?thesis
    by (intro exI [of _ "s''\<lparr>trace := trace s @ t1 @ t2\<rparr>"] exI [of _ "t1 @ t2"])
      (auto simp: room_run_append Let_def simp del: room_run.simps split: prod.splits)
qed

lemma handle_endmsgs_part_dangles_witness:
  "fst (handle_endmsgs lab_env (lab_servlet [(lab_peer 2, [''PRIVMSG #lab :hi'', ''PART #lab :bye''])]))
     = Inl (UB Dangling_reference)"
  using handle_endmsgs_part_dangles [where s = "lab_servlet [(lab_peer 2, [''PRIVMSG #lab :hi'', ''PART #lab :bye''])]",
      OF lab_steady lab_servlet_ok lab_db_up,
      of "[(lab_peer 2, ''PRIVMSG #lab :hi'')]" "lab_peer 2" "''PART #lab :bye''" "[]"]
  by (force simp: queued_of_def plain_def recognized_def)

text \<open>A queued message that is neither a PRIVMSG nor a PART nor a TOPIC ends the pass with the
  exception \<open>invalid_argument\<close>: the messages before it are delivered, nothing is sent for it, and
  every message after it is dropped with the thread.\<close>

lemma handle_endmsgs_unrecognized:
  assumes "steady E peer (set (s_socks s))" and "servlet_ok peer s" and "db_up E"
    and "queued_of (s_end_msgs s) = pre @ (e, p) # post"
    and "\<forall>(e, m) \<in> set pre. plain m" and "\<not> recognized p"
  shows "\<exists>s' t. handle_endmsgs E s = (Inl unrecognized, s') \<and> trace s' = trace s @ t
    \<and> snd (room_run E (s_channel_name s) (room_abs s) pre) = deliveries peer t"
proof -
  have "\<exists>err s'' t1 t2. handle_endmsgs E s = (Inl err, s''\<lparr>trace := trace s @ t1 @ t2\<rparr>)
      \<and> err = unrecognized
      \<and> snd (room_run E (s_channel_name s) (room_abs s) pre) = deliveries peer t1
      \<and> deliveries peer t2 = []"
  proof (rule handle_endmsgs_upto [OF assms(1-4)])
    fix s' ms
    assume s': "servlet_ok peer s'" "smap_count (s_end_msgs s') e"
    obtain u where "List.find (\<lambda>u. u_endpt u = e) (s_users s') = Some u"
      using s' by (rule servlet_ok_user)
    then obtain t where "handle_msg E p e s' = (Inl unrecognized, s'\<lparr>trace := trace s' @ t\<rparr>)"
      "sent t = []"
      using assms(6) by (rule handle_msg_unrecognized)
    then show "\<exists>err s'' t. handle_list E e (p # ms) s' = (Inl err, s''\<lparr>trace := trace s' @ t\<rparr>)
        \<and> err = unrecognized \<and> deliveries peer t = []"
      by (intro exI [of _ unrecognized] exI [of _ s'] exI [of _ t]) (simp add: run)
  qed (use assms(5) in \<open>simp add: list_all_iff\<close>)
  then obtain s'' t1 t2 where
    "handle_endmsgs E s = (Inl unrecognized, s''\<lparr>trace := trace s @ t1 @ t2\<rparr>)"
    "snd (room_run E (s_channel_name s) (room_abs s) pre) = deliveries peer t1"
    "deliveries peer t2 = []"
    by blast
  then show ?thesis
    by (intro exI [of _ "s''\<lparr>trace := trace s @ t1 @ t2\<rparr>"] exI [of _ "t1 @ t2"]) simp
qed

lemma handle_endmsgs_unrecognized_witness:
  "fst (handle_endmsgs lab_env (lab_servlet [(lab_peer 2, [''QUIT :bye''])])) = Inl unrecognized"
  using handle_endmsgs_unrecognized [where s = "lab_servlet [(lab_peer 2, [''QUIT :bye''])]",
      OF lab_steady lab_servlet_ok lab_db_up, of "[]" "lab_peer 2" "''QUIT :bye''" "[]"]
  by (force simp: queued_of_def recognized_def)

section \<open>Storing what was said\<close>

text \<open>C22: A PRIVMSG is relayed and stored once: \<open>handle_priv\<close> sends the message, with its sender in front,
  to every other member and to nobody else, and executes two statements, the second of which inserts
  into the chat log exactly the text after the message's first colon (the whole message if it has
  none) under the sender's nickname, the channel and the server.\<close>

theorem handle_priv_relays_and_stores:
  assumes "steady E peer (set (s_socks s))" and "servlet_ok peer s" and "db_up E"
  shows "\<exists>t d. handle_priv E msg u s = (Inr (), s\<lparr>trace := trace s @ t\<rparr>)
    \<and> deliveries peer t = to_others (room_abs s) (u_endpt u) ('':'' @ prefix_of E u @ '' '' @ msg @ crlf)
    \<and> executed t = [(s_conn s, q_now), (s_conn s, q_insertMsg E (u_nick u) d
        (case find_idx '':'' msg of None \<Rightarrow> msg | Some i \<Rightarrow> drop (i + 1) msg)
        (s_channel_name s) (s_server_name s))]"
proof -
  have said: "drop (pos_plus (find_idx '':'' msg) 1) msg
      = (case find_idx '':'' msg of None \<Rightarrow> msg | Some i \<Rightarrow> drop (i + 1) msg)"
    by (simp add: pos_plus_def npos_def split: option.splits)
  have "wp (handle_priv E msg u) (\<lambda>_ s'. \<exists>t d. s' = s\<lparr>trace := trace s @ t\<rparr>
      \<and> deliveries peer t = to_others (room_abs s) (u_endpt u) (relayed E u msg)
      \<and> executed t = [(s_conn s, q_now), (s_conn s, q_insertMsg E (u_nick u) d
          (drop (pos_plus (find_idx '':'' msg) 1) msg) (s_channel_name s) (s_server_name s))])
      (\<lambda>_ _. False) s"
    by (rule wp_handle_priv [OF assms]) blast
  then show ?thesis
    unfolding said relayed_def by (rule wp_ok_run) auto
qed

lemma handle_priv_relays_and_stores_witness:
  "\<exists>t. handle_priv lab_env ''PRIVMSG #lab :hi: there'' (lab_user ''bob'' 3) (lab_servlet [])
      = (Inr (), (lab_servlet [])\<lparr>trace := t\<rparr>)
     \<and> deliveries lab_peer t = [(lab_peer 2, '':bob!bob@127.0.0.1 PRIVMSG #lab :hi: there'' @ crlf)]"
  using handle_priv_relays_and_stores [OF lab_steady lab_servlet_ok [of "[]"] lab_db_up,
      of "''PRIVMSG #lab :hi: there''" "lab_user ''bob'' 3"]
  by (auto simp: to_others_def room_abs_def prefix_of_def address_text_def)

end
