(* ===== verification/Membership.thy ===== *)
theory Membership
  imports Delivery
begin

text \<open>
  How users enter a channel: \<open>grab_new\<close> takes the users waiting for the channel and their sockets
  out of the shared state, and \<open>handle_newusers\<close> announces them. The abstract counterpart is a room
  that users join one after the other. Here too: \<open>update_endmsgs\<close>, which queues what was received.
\<close>

section \<open>Joining a room\<close>

definition names_of :: "user list \<Rightarrow> string" where
  "names_of us = concat (map (\<lambda>u. ''@'' @ u_nick u @ '' '') us)"

definition room_join :: "env \<Rightarrow> string \<Rightarrow> room \<Rightarrow> user \<Rightarrow> room \<times> delivery list" where
  "room_join E loc_ip r u =
     (let r' = r\<lparr>members := members r @ [u]\<rparr>
      in (r', to_all r' (join_msg E u)
           @ map (Pair (u_endpt u))
              [reply_msg loc_ip RPL_TOPIC u (topic r),
               reply_msg loc_ip RPL_NAMREPLY u (names_of (members r')),
               reply_msg loc_ip RPL_ENDOFNAMES u ''End of NAMES list'']))"

fun room_joins :: "env \<Rightarrow> string \<Rightarrow> room \<Rightarrow> user list \<Rightarrow> room \<times> delivery list" where
  "room_joins E loc_ip r [] = (r, [])"
| "room_joins E loc_ip r (u # us) =
     (let (r1, ds) = room_join E loc_ip r u; (r2, ds') = room_joins E loc_ip r1 us
      in (r2, ds @ ds'))"

section \<open>Taking the waiting users\<close>

lemma wp_sock_matches:
  assumes "us \<noteq> [] \<Longrightarrow> \<forall>t. remote_ep E t k = Some (peer k)"
    and "\<And>t. sent t = [] \<Longrightarrow> executed t = [] \<Longrightarrow>
        Q (peer k \<in> u_endpt ` set us) (s\<lparr>trace := trace s @ t\<rparr>)"
  shows "wp (sock_matches E k us) Q R s"
  using assms
proof (induction us arbitrary: s)
  case Nil
  from Nil(2) [of "[]"] show ?case by (simp add: wp_simps)
next
  case (Cons u us)
  have k: "remote_ep E t k = Some (peer k)" for t using Cons.prems(1) by simp
  let ?s = "s\<lparr>trace := trace s @ [Ev_remote k]\<rparr>"
  show ?case
  proof (cases "u_endpt u = peer k")
    case True
    with k Cons.prems(2) [of "[Ev_remote k]"] show ?thesis
      by (simp add: wp_simps remote_endpoint_def)
  next
    case False
    have "wp (sock_matches E k us) Q R ?s"
    proof (rule Cons.IH)
      show "Q (peer k \<in> u_endpt ` set us) (?s\<lparr>trace := trace ?s @ t\<rparr>)"
        if "sent t = []" "executed t = []" for t
        using that Cons.prems(2) [of "Ev_remote k # t"] False by auto
    qed (use k in simp)
    with k False show ?thesis by (simp add: wp_simps remote_endpoint_def)
  qed
qed

definition wanted :: "(sock \<Rightarrow> endpoint) \<Rightarrow> user list \<Rightarrow> sock \<Rightarrow> bool" where
  "wanted peer us k \<longleftrightarrow> peer k \<in> u_endpt ` set us"

lemma sock_last [simp]:
  "s\<lparr>trace := t, global_socks := g\<rparr> = s\<lparr>global_socks := g, trace := t\<rparr>"
  "s\<lparr>global_socks := g, s_socks := ks\<rparr> = s\<lparr>s_socks := ks, global_socks := g\<rparr>"
  by (cases s; simp)+

lemma wp_grab_socks:
  assumes "connected E peer (set ks)"
    and "global_socks s = kept @ ks"
    and "\<And>t. sent t = [] \<Longrightarrow> executed t = [] \<Longrightarrow>
        Q () (s\<lparr>s_socks := s_socks s @ filter (wanted peer (s_users s)) ks,
                global_socks := kept @ filter (\<lambda>k. \<not> wanted peer (s_users s) k) ks,
                trace := trace s @ t\<rparr>)"
  shows "wp (grab_socks E kept ks) Q R s"
  using assms
proof (induction ks arbitrary: kept s)
  case Nil
  have "s\<lparr>s_socks := s_socks s, global_socks := kept, trace := trace s\<rparr> = s"
    using Nil(2) by (cases s) simp
  with Nil(3) [of "[]"] show ?case by (simp add: wp_simps)
next
  case (Cons k ks)
  note post = Cons.prems(3)
  have up: "connected E peer (set ks)" using Cons.prems(1) by (rule connected_mono) auto
  have k: "\<forall>t. remote_ep E t k = Some (peer k)"
    using connectedD [OF Cons.prems(1)] by simp
  show ?case
    unfolding grab_socks.simps wp_bind wp_gets
  proof (rule wp_sock_matches [where peer = peer])
    fix t
    assume t: "sent t = []" "executed t = []"
    let ?s = "s\<lparr>trace := trace s @ t\<rparr>" and ?w = "wanted peer (s_users s) k"
    have "wp (grab_socks E kept ks) Q R (?s\<lparr>s_socks := s_socks s @ [k], global_socks := kept @ ks\<rparr>)" if ?w
    proof (rule Cons.IH [OF up], goal_cases)
      case (2 t')
      then show ?case using post [of "t @ t'"] t that by simp
    qed simp
    moreover have "wp (grab_socks E (kept @ [k]) ks) Q R ?s" if "\<not> ?w"
    proof (rule Cons.IH [OF up], goal_cases)
      case 1
      show ?case using Cons.prems(2) by simp
    next
      case (2 t')
      then show ?case using post [of "t @ t'"] t that by simp
    qed
    ultimately show "wp (if peer k \<in> u_endpt ` set (s_users s)
          then thenE (update (\<lambda>s. s\<lparr>s_socks := s_socks s @ [k], global_socks := kept @ ks\<rparr>))
                 (grab_socks E kept ks)
          else grab_socks E (kept @ [k]) ks) Q R ?s"
      by (simp add: wp_simps wanted_def)
  qed (use k in simp)
qed

text \<open>The queues after the admission of waiting users.\<close>

fun admitted :: "(user \<times> string list) list \<Rightarrow> (endpoint, string list) smap \<Rightarrow>
    (endpoint, string list) smap" where
  "admitted [] m = m"
| "admitted ((u, ms) # qs) m =
     admitted qs (smap_put (u_endpt u) (smap_get [] m (u_endpt u) @ ms) m)"

lemma push_msgs_eq:
  assumes "smap_wf (s_end_msgs s)"
  shows "push_msgs e ms (s\<lparr>s_end_msgs := smap_put e v (s_end_msgs s)\<rparr>)
    = s\<lparr>s_end_msgs := smap_put e (v @ ms) (s_end_msgs s)\<rparr>"
proof (induction ms arbitrary: v)
  case Nil
  show ?case by simp
next
  case (Cons m ms)
  show ?case using Cons [of "v @ [m]"] assms by simp
qed

lemma admit_eq:
  "smap_wf (s_end_msgs s) \<Longrightarrow>
     admit (u, ms) s = s\<lparr>s_users := s_users s @ [u],
       s_end_msgs := admitted [(u, ms)] (s_end_msgs s)\<rparr>"
  using push_msgs_eq [of "s\<lparr>s_users := s_users s @ [u]\<rparr>" "u_endpt u" ms]
  by (simp add: admit_def smap_index_put)

lemma users_last [simp]:
  "s\<lparr>s_end_msgs := m, s_users := us\<rparr> = s\<lparr>s_users := us, s_end_msgs := m\<rparr>"
  by (cases s) simp

lemma smap_wf_admitted [simp]: "smap_wf m \<Longrightarrow> smap_wf (admitted qs m)"
  by (induction qs m rule: admitted.induct) auto

lemma admit_all_eq:
  "smap_wf (s_end_msgs s) \<Longrightarrow>
     admit_all qs s = s\<lparr>s_users := s_users s @ map fst qs, s_end_msgs := admitted qs (s_end_msgs s)\<rparr>"
proof (induction qs arbitrary: s)
  case Nil
  show ?case by simp
next
  case (Cons q qs)
  then show ?case by (cases q) (simp add: admit_eq)
qed

lemma smap_keys_admitted:
  "set (smap_keys (admitted qs m)) = set (smap_keys m) \<union> u_endpt ` fst ` set qs"
  by (induction qs m rule: admitted.induct) (auto simp: smap_keys_put)

lemma admitted_get:
  "smap_get [] (admitted qs m) e
     = smap_get [] m e @ concat (map snd (filter (\<lambda>(u, ms). u_endpt u = e) qs))"
  by (induction qs m rule: admitted.induct) (auto simp: smap_get_def)

text \<open>The state after \<open>grab_new\<close>, but for the trace.\<close>

definition waiting_for :: "servlet \<Rightarrow> (user \<times> string list) list" where
  "waiting_for s = smap_get [] (chan_newusers s) (s_channel_name s)"

definition grabbed :: "(sock \<Rightarrow> endpoint) \<Rightarrow> servlet \<Rightarrow> servlet" where
  "grabbed peer s =
     (let us = s_users s @ map fst (waiting_for s)
      in s\<lparr>s_users := us, s_end_msgs := admitted (waiting_for s) (s_end_msgs s),
           chan_newusers := smap_put (s_channel_name s) [] (chan_newusers s),
           s_socks := s_socks s @ filter (wanted peer us) (global_socks s),
           global_socks := filter (\<lambda>k. \<not> wanted peer us k) (global_socks s)\<rparr>)"

lemma grabbed_fields [simp]:
  "s_users (grabbed peer s) = s_users s @ map fst (waiting_for s)"
  "s_end_msgs (grabbed peer s) = admitted (waiting_for s) (s_end_msgs s)"
  "chan_newusers (grabbed peer s) = smap_put (s_channel_name s) [] (chan_newusers s)"
  "s_socks (grabbed peer s) = s_socks s
     @ filter (wanted peer (s_users s @ map fst (waiting_for s))) (global_socks s)"
  "global_socks (grabbed peer s)
     = filter (\<lambda>k. \<not> wanted peer (s_users s @ map fst (waiting_for s)) k) (global_socks s)"
  "s_channel_name (grabbed peer s) = s_channel_name s"
  "s_channel_topic (grabbed peer s) = s_channel_topic s"
  "trace (grabbed peer s) = trace s" "flags (grabbed peer s) = flags s"
  by (simp_all add: grabbed_def Let_def)

lemma wp_grab_new:
  assumes "connected E peer (set (global_socks s))" and "smap_wf (s_end_msgs s)"
    and "\<And>t. sent t = [] \<Longrightarrow> executed t = [] \<Longrightarrow>
        Q (map fst (waiting_for s)) ((grabbed peer s)\<lparr>trace := trace s @ t\<rparr>)"
  shows "wp (grab_new E) Q R s"
  unfolding grab_new_def wp_bind wp_then wp_gets wp_update
    waiting_for_def [symmetric]
proof (rule wp_grab_socks [where peer = peer], goal_cases)
  case 1
  then show ?case using assms(1,2) by (simp add: admit_all_eq)
next
  case 2
  then show ?case by simp
next
  case (3 t)
  then show ?case
    using assms(3) [of t] assms(2) by (simp add: admit_all_eq grabbed_def Let_def wp_simps)
qed

section \<open>Greeting\<close>

text \<open>The users who see a new user's JOIN: all but the new ones that are still to be handled.\<close>

definition visible :: "user list \<Rightarrow> user list \<Rightarrow> user list \<Rightarrow> user list" where
  "visible us newusers handled =
     filter (\<lambda>u. \<not> (check_user_in u newusers \<and> \<not> check_user_in u handled)) us"

lemma check_user_in_iff: "check_user_in u us \<longleftrightarrow> u_endpt u \<in> u_endpt ` set us"
  by (auto simp: check_user_in_def list_ex_iff)

lemma visible_eq:
  assumes "distinct (map u_endpt (old @ pre @ u # rest))"
  shows "visible (old @ pre @ u # rest) (pre @ u # rest) (pre @ [u]) = old @ pre @ [u]"
proof -
  have "filter (\<lambda>v. \<not> (check_user_in v (pre @ u # rest) \<and> \<not> check_user_in v (pre @ [u]))) rest = []"
    using assms by (auto simp: filter_empty_conv check_user_in_iff image_iff)
  moreover have "filter (\<lambda>v. \<not> (check_user_in v (pre @ u # rest) \<and> \<not> check_user_in v (pre @ [u]))) old
      = old"
    using assms by (intro filter_True) (auto simp: check_user_in_iff image_iff)
  moreover have "filter (\<lambda>v. \<not> (check_user_in v (pre @ u # rest) \<and> \<not> check_user_in v (pre @ [u]))) pre
      = pre"
    by (intro filter_True) (auto simp: check_user_in_iff)
  ultimately show ?thesis by (simp add: visible_def check_user_in_iff)
qed

lemma ends_crlf_reply [simp]: "ends_crlf (reply_msg l c u x)"
  by (simp add: reply_msg_def)

lemma ends_crlf_join [simp]: "ends_crlf (join_msg E u)"
  by (simp add: join_msg_def)

lemma fold_names:
  "fold (\<lambda>u a. if skip u then a else a @ ''@'' @ u_nick u @ '' '') us a
     = a @ names_of (filter (\<lambda>u. \<not> skip u) us)"
  by (induction us arbitrary: a) (simp_all add: names_of_def)

text \<open>Writing to a member, in any state with the same members and sockets.\<close>

lemma wp_write_member:
  assumes "steady E peer (set (s_socks s))" and "servlet_ok peer s" and "v \<in> set (s_users s)"
    and "ends_crlf msg"
    and "\<And>t. deliveries peer t = [(u_endpt v, msg)] \<Longrightarrow> executed t = [] \<Longrightarrow> Q () (s\<lparr>trace := T @ t\<rparr>)"
  shows "wp (servlet_try_writing E v msg) Q R (s\<lparr>trace := T\<rparr>)"
  using assms by (intro wp_write [where peer = peer]) (auto simp: servlet_ok_def)

text \<open>The three replies to the new user.\<close>

lemma wp_replies:
  assumes "steady E peer (set (s_socks s))" and "servlet_ok peer s" and "u \<in> set (s_users s)"
    and "\<And>t. deliveries peer t = [(u_endpt u, reply_msg l RPL_TOPIC u (s_channel_topic s)),
          (u_endpt u, reply_msg l RPL_NAMREPLY u names),
          (u_endpt u, reply_msg l RPL_ENDOFNAMES u ''End of NAMES list'')] \<Longrightarrow> executed t = [] \<Longrightarrow>
        Q () (s\<lparr>trace := T @ t\<rparr>)"
  shows "wp (servlet_try_writing E u (reply_msg l RPL_TOPIC u (s_channel_topic s))) (\<lambda>_.
      wp (thenE (servlet_try_writing E u (reply_msg l RPL_NAMREPLY u names))
        (servlet_try_writing E u (reply_msg l RPL_ENDOFNAMES u ''End of NAMES list''))) Q R) R
      (s\<lparr>trace := T\<rparr>)"
proof -
  note wr = wp_write_member [OF assms(1-3)]
  show ?thesis
    by (rule wr, simp, unfold wp_then, rule wr, simp, rule wr, simp, unfold append_assoc, rule assms(4))
      simp_all
qed

lemma wp_greet:
  assumes "steady E peer (set (s_socks s))" and "servlet_ok peer s"
    and "\<forall>k \<in> set (s_socks s). \<forall>t. local_ep E t k = Some loc"
    and "u \<in> set (s_users s)"
    and "visible (s_users s) newusers handled = members r @ [u]" and "topic r = s_channel_topic s"
    and "\<And>t. deliveries peer t = snd (room_join E (address_text E loc) r u) \<Longrightarrow> executed t = [] \<Longrightarrow>
        Q () (s\<lparr>trace := trace s @ t\<rparr>)"
  shows "wp (greet E newusers handled u) Q R s"
proof -
  let ?skip = "\<lambda>v. check_user_in v newusers \<and> \<not> check_user_in v handled"
  have seen: "filter (\<lambda>v. \<not> ?skip v) (s_users s) = members r @ [u]"
    using assms(5) by (simp add: visible_def)
  show ?thesis
    unfolding greet_def wp_bind wp_gets
  proof (rule wp_for_users [where peer = peer
        and W = "\<lambda>v. if ?skip v then [] else [(u_endpt v, join_msg E u)]"
        and F = "\<lambda>v a. if ?skip v then a else a @ ''@'' @ u_nick v @ '' ''"], goal_cases)
    case 1
    show ?case by simp
  next
    case (2 v a T Q')
    then show ?case
    proof (cases "?skip v")
      case True
      with 2(2) [of "[]"] show ?thesis by (simp add: wp_simps deliveries_def)
    next
      case False
      with 2 show ?thesis by (auto simp: wp_simps intro!: wp_write_member [OF assms(1,2)])
    qed
  next
    case (3 t)
    have t: "deliveries peer t = map (\<lambda>v. (u_endpt v, join_msg E u)) (members r @ [u])"
      using 3(1) seen by (simp add: concat_map_if_filter)
    have names: "fold (\<lambda>v a. if ?skip v then a else a @ ''@'' @ u_nick v @ '' '') (s_users s) []
        = names_of (members r @ [u])"
      using fold_names [of ?skip "s_users s" "[]"] seen by simp
    show ?case
      unfolding names
    proof (rule wp_get_sock [where peer = peer], goal_cases)
      case 1
      then show ?case using assms(1) by (simp add: steady_connected)
    next
      case (2 t2)
      obtain k where k: "sock_of peer (s_socks s) (u_endpt u) = Some k"
        using sock_of_ex [of "u_endpt u" peer "s_socks s"] assms(2,4) by (auto simp: servlet_ok_def)
      then have "local_ep E T k = Some loc" for T
        using assms(3) by (auto dest: sock_of_Some)
      with 2 3(2) t k show ?case
        by (simp add: deref_def wp_simps local_endpoint_def)
          (rule wp_replies [OF assms(1,2,4)], unfold append_assoc, rule assms(7), auto simp: assms(6) room_join_def to_all_def Let_def)
    qed
  qed
qed

lemma wp_greet_all:
  assumes "steady E peer (set (s_socks s))" and "servlet_ok peer s"
    and "\<forall>k \<in> set (s_socks s). \<forall>t. local_ep E t k = Some loc"
    and "s_users s = old @ handled @ us" and "members r = old @ handled"
    and "topic r = s_channel_topic s"
    and "\<And>t. deliveries peer t = snd (room_joins E (address_text E loc) r us) \<Longrightarrow> executed t = [] \<Longrightarrow>
        Q () (s\<lparr>trace := trace s @ t\<rparr>)"
  shows "wp (greet_all E (handled @ us) handled us) Q R s"
  using assms
proof (induction us arbitrary: handled r s)
  case Nil
  from Nil(7) [of "[]"] show ?case by (simp add: wp_simps deliveries_def)
next
  case (Cons u us)
  let ?r = "fst (room_join E (address_text E loc) r u)"
  have r: "members ?r = old @ handled @ [u]" "topic ?r = topic r"
    using Cons.prems(5) by (simp_all add: room_join_def Let_def)
  have vis: "visible (s_users s) (handled @ u # us) (handled @ [u]) = members r @ [u]"
    using Cons.prems(2,4,5) visible_eq [of old handled u us] by (simp add: servlet_ok_def)
  have "u \<in> set (s_users s)" using Cons.prems(4) by simp
  then show ?case
    unfolding greet_all.simps wp_then
  proof (rule wp_greet [OF Cons.prems(1-3) _ vis Cons.prems(6)])
    fix t
    assume t: "deliveries peer t = snd (room_join E (address_text E loc) r u)" "executed t = []"
    let ?s = "s\<lparr>trace := trace s @ t\<rparr>"
    have "wp (greet_all E ((handled @ [u]) @ us) (handled @ [u]) us) Q R ?s"
    proof (rule Cons.IH [where r = ?r])
      show "Q () (?s\<lparr>trace := trace ?s @ t'\<rparr>)"
        if "deliveries peer t' = snd (room_joins E (address_text E loc) ?r us)" "executed t' = []" for t'
        using that t Cons.prems(7) [of "t @ t'"]
        by (simp add: Let_def split: prod.splits)
    qed (use Cons.prems r in auto)
    then show "wp (greet_all E (handled @ u # us) (handled @ [u]) us) Q R ?s" by simp
  qed
qed

text \<open>
  What the main thread leaves for a channel thread: distinct endpoints, a socket for every waiting
  user, and no socket twice.
\<close>

definition admissible :: "(sock \<Rightarrow> endpoint) \<Rightarrow> servlet \<Rightarrow> bool" where
  "admissible peer s \<longleftrightarrow>
     distinct (map u_endpt (s_users s @ map fst (waiting_for s)))
     \<and> distinct (map peer (s_socks s @ global_socks s))
     \<and> u_endpt ` fst ` set (waiting_for s) \<subseteq> peer ` set (global_socks s)"

lemma servlet_ok_grabbed:
  assumes "servlet_ok peer s" and "admissible peer s"
  shows "servlet_ok peer (grabbed peer s)"
  unfolding servlet_ok_def
proof (intro conjI)
  show "distinct (map u_endpt (s_users (grabbed peer s)))"
    using assms(2) by (simp add: admissible_def)
  show "distinct (map peer (s_socks (grabbed peer s)))"
    using assms(2) by (auto simp: admissible_def distinct_map_filter)
  show "peer ` set (s_socks (grabbed peer s)) = u_endpt ` set (s_users (grabbed peer s))"
  proof -
    define U N G where "U = u_endpt ` set (s_users s)"
      and "N = u_endpt ` fst ` set (waiting_for s)" and "G = peer ` set (global_socks s)"
    have "peer ` set (filter (wanted peer us) ks) = peer ` set ks \<inter> u_endpt ` set us" for us ks
      by (auto simp: wanted_def)
    moreover have "peer ` set (s_socks s) = U"
      using assms(1) by (simp add: servlet_ok_def U_def)
    ultimately have "peer ` set (s_socks (grabbed peer s)) = U \<union> (G \<inter> (U \<union> N))"
      by (simp only: grabbed_fields set_append image_Un set_map U_def N_def G_def)
    moreover have "N \<subseteq> G"
      using assms(2) by (simp add: admissible_def N_def G_def)
    moreover have "u_endpt ` set (s_users (grabbed peer s)) = U \<union> N"
      by (simp add: U_def N_def image_Un)
    ultimately show ?thesis by auto
  qed
  show "smap_wf (s_end_msgs (grabbed peer s))"
    using assms(1) by (simp add: servlet_ok_def)
  show "set (smap_keys (s_end_msgs (grabbed peer s))) \<subseteq> u_endpt ` set (s_users (grabbed peer s))"
    using assms(1) by (auto simp: servlet_ok_def smap_keys_admitted image_image)
qed

lemma room_joins_fst:
  "fst (room_joins E ip r us) = r\<lparr>members := members r @ us\<rparr>"
  by (induction us arbitrary: r) (simp_all add: room_join_def Let_def case_prod_beta)

lemma handle_newusers_run:
  assumes "steady E peer (set (s_socks s) \<union> set (global_socks s))"
    and "servlet_ok peer s" and "admissible peer s"
    and "\<forall>k \<in> set (s_socks s) \<union> set (global_socks s). \<forall>t. local_ep E t k = Some loc"
  obtains t where "handle_newusers E s = (Inr (), (grabbed peer s)\<lparr>trace := trace s @ t\<rparr>)"
    and "room_joins E (address_text E loc) (room_abs s) (map fst (waiting_for s))
      = (room_abs (grabbed peer s), deliveries peer t)"
proof -
  let ?new = "map fst (waiting_for s)" and ?g = "grabbed peer s"
  let ?joins = "room_joins E (address_text E loc) (room_abs s) ?new"
  have ok: "servlet_ok peer ?g" using assms(2,3) by (rule servlet_ok_grabbed)
  have up: "steady E peer (set (s_socks ?g))"
    using assms(1) by (rule steady_mono) auto
  have loc: "\<forall>k \<in> set (s_socks ?g). \<forall>t. local_ep E t k = Some loc"
    using assms(4) by auto
  have "wp (handle_newusers E)
      (\<lambda>_ s'. \<exists>t. s' = ?g\<lparr>trace := trace s @ t\<rparr> \<and> deliveries peer t = snd ?joins) (\<lambda>_ _. False) s"
    unfolding handle_newusers_def wp_bind
  proof (rule wp_grab_new [where peer = peer], goal_cases)
    case 1
    then show ?case using steady_connected [OF assms(1)] by (rule connected_mono) auto
  next
    case 2
    then show ?case using assms(2) by (rule servlet_ok_wf)
  next
    case (3 t)
    let ?s = "?g\<lparr>trace := trace s @ t\<rparr>"
    have "wp (greet_all E ([] @ ?new) [] ?new)
      (\<lambda>_ s'. \<exists>t. s' = ?g\<lparr>trace := trace s @ t\<rparr> \<and> deliveries peer t = snd ?joins) (\<lambda>_ _. False) ?s"
    proof (rule wp_greet_all [where r = "room_abs s" and old = "s_users s" and peer = peer
          and loc = loc], goal_cases)
      case (7 t')
      with 3 show ?case by (intro exI [of _ "t @ t'"]) simp
    qed (use ok up loc in simp_all)
    then show ?case by simp
  qed
  then obtain t where "handle_newusers E s = (Inr (), ?g\<lparr>trace := trace s @ t\<rparr>)"
    "deliveries peer t = snd ?joins"
    by (elim wp_ok_run) auto
  moreover have "?joins = (room_abs ?g, snd ?joins)"
    using room_joins_fst [of E "address_text E loc" "room_abs s" ?new]
    by (cases ?joins) (simp add: room_abs_def)
  ultimately show ?thesis using that by auto
qed

section \<open>A socket that has gone\<close>

lemma sock_matches_gone:
  "us \<noteq> [] \<Longrightarrow> \<forall>t. remote_ep E t k = None \<Longrightarrow>
     wp (sock_matches E k us) Q (\<lambda>e _. e = System_error) s"
  by (cases us) (simp_all add: wp_simps remote_endpoint_def)

lemma grab_socks_gone:
  assumes "connected E peer (set ks)" and "\<forall>t. remote_ep E t k = None"
    and "s_users s \<noteq> []"
  shows "wp (grab_socks E kept (ks @ k # ks')) Q (\<lambda>e _. e = System_error) s"
  using assms
proof (induction ks arbitrary: kept s)
  case Nil
  then show ?case by (simp add: wp_simps sock_matches_gone)
next
  case (Cons x ks)
  have up: "connected E peer (set ks)" using Cons.prems(1) by (rule connected_mono) auto
  show ?case
    unfolding append_Cons grab_socks.simps wp_bind wp_gets
  proof (rule wp_sock_matches [where peer = peer])
    show "\<forall>t. remote_ep E t x = Some (peer x)"
      using connectedD [OF Cons.prems(1)] by simp
    show "wp (if peer x \<in> u_endpt ` set (s_users s)
          then thenE (update (\<lambda>s. s\<lparr>s_socks := s_socks s @ [x], global_socks := kept @ ks @ k # ks'\<rparr>))
                 (grab_socks E kept (ks @ k # ks'))
          else grab_socks E (kept @ [x]) (ks @ k # ks')) Q (\<lambda>e _. e = System_error)
        (s\<lparr>trace := trace s @ t\<rparr>)" for t
      using Cons.IH [OF up Cons.prems(2)] Cons.prems(3) by (simp add: wp_simps)
  qed
qed

section \<open>Receiving\<close>

text \<open>The data that the reads of a trace returned, with the trace before them as their history.\<close>

fun data_read :: "env \<Rightarrow> event list \<Rightarrow> event list \<Rightarrow> (sock \<times> string) list" where
  "data_read E h [] = []"
| "data_read E h (Ev_read k # t) =
     (k, take BUFF_SIZE (read_some E h k)) # data_read E (h @ [Ev_read k]) t"
| "data_read E h (e # t) = data_read E (h @ [e]) t"

lemma data_read_append:
  "data_read E h (t @ u) = data_read E h t @ data_read E (h @ t) u"
  by (induction E h t rule: data_read.induct) simp_all

definition received_from :: "(sock \<Rightarrow> endpoint) \<Rightarrow> (sock \<times> string) list \<Rightarrow> endpoint \<Rightarrow> string list" where
  "received_from peer ds e = concat (map (\<lambda>(k, d). messages_of d) (filter (\<lambda>(k, d). peer k = e) ds))"

definition short_reads :: "env \<Rightarrow> bool" where
  "short_reads E \<longleftrightarrow> (\<forall>t k. length (read_some E t k) < BUFF_SIZE)"

lemma wp_update_sockmsgs:
  assumes "steady E peer {k}" and "short_reads E"
    and "\<And>t. sent t = [] \<Longrightarrow> executed t = [] \<Longrightarrow> set (map fst (data_read E (trace s) t)) \<subseteq> {k} \<Longrightarrow>
        Q (q @ received_from peer (data_read E (trace s) t) (peer k)) (s\<lparr>trace := trace s @ t\<rparr>)"
  shows "wp (update_sockmsgs E k q) Q R s"
proof -
  obtain n where n: "avail E (trace s) k = Some n"
    using steadyD(3) [OF assms(1)] by auto
  let ?s = "s\<lparr>trace := trace s @ [Ev_available k]\<rparr>"
  show ?thesis
  proof (cases "n = 0")
    case True
    with n assms(3) [of "[Ev_available k]"] show ?thesis
      by (simp add: update_sockmsgs_def wp_simps socket_defs received_from_def)
  next
    case False
    have short: "length (read_some E (trace ?s) k) < BUFF_SIZE"
      using assms(2) by (simp add: short_reads_def)
    with n False assms(3) [of "[Ev_available k, Ev_read k]"] show ?thesis
      by (simp add: update_sockmsgs_def wp_simps available_def wp_read_messages [OF short]
          received_from_def)
  qed
qed

text \<open>The queues \<open>m'\<close> are \<open>m\<close> with what was received on the sockets \<open>ks\<close>.\<close>

definition extends ::
  "(sock \<Rightarrow> endpoint) \<Rightarrow> sock list \<Rightarrow> (sock \<times> string) list \<Rightarrow> (endpoint, string list) smap \<Rightarrow>
     (endpoint, string list) smap \<Rightarrow> bool" where
  "extends peer ks ds m m' \<longleftrightarrow>
     smap_wf m' \<and> set (smap_keys m') = set (smap_keys m) \<union> peer ` set ks
     \<and> (\<forall>e. smap_get [] m' e = smap_get [] m e @ received_from peer ds e)"

lemma received_from_append [simp]:
  "received_from peer (ds @ ds') e = received_from peer ds e @ received_from peer ds' e"
  by (simp add: received_from_def)

lemma received_from_other:
  "set (map fst ds) \<subseteq> {k} \<Longrightarrow> peer k \<noteq> e \<Longrightarrow> received_from peer ds e = []"
  by (induction ds) (auto simp: received_from_def)

lemma wp_update_endmsgs_of:
  assumes "steady E peer {k}" and "short_reads E" and "smap_wf (s_end_msgs s)"
    and "\<And>t m'. sent t = [] \<Longrightarrow> executed t = [] \<Longrightarrow>
        extends peer [k] (data_read E (trace s) t) (s_end_msgs s) m' \<Longrightarrow>
        Q () (s\<lparr>s_end_msgs := m', trace := trace s @ t\<rparr>)"
  shows "wp (update_endmsgs_of E k) Q R s"
proof -
  let ?e = "peer k" and ?m = "s_end_msgs s"
  let ?i = "smap_index [] ?e ?m"
  let ?s = "s\<lparr>s_end_msgs := ?i, trace := trace s @ [Ev_remote k]\<rparr>"
  have "wp (update_sockmsgs E k (smap_get [] ?m ?e))
      (\<lambda>q'. wp (update (\<lambda>s. s\<lparr>s_end_msgs := smap_put ?e q' (s_end_msgs s)\<rparr>)) Q R) R ?s"
  proof (rule wp_update_sockmsgs [OF assms(1,2)])
    fix t
    let ?ds = "data_read E (trace ?s) t"
    let ?m' = "smap_put ?e (smap_get [] ?m ?e @ received_from peer ?ds ?e) ?i"
    assume t: "sent t = []" "executed t = []" "set (map fst ?ds) \<subseteq> {k}"
    have "received_from peer ?ds e = []" if "?e \<noteq> e" for e
      using t(3) that by (rule received_from_other)
    then have "extends peer [k] ?ds ?m ?m'"
      using assms(3) by (auto simp: extends_def smap_keys_put smap_keys_index smap_index_put)
    then have "Q () (s\<lparr>s_end_msgs := ?m', trace := trace s @ [Ev_remote k] @ t\<rparr>)"
      using t assms(4) [of "[Ev_remote k] @ t"] by (simp add: data_read_append)
    then show "wp (update (\<lambda>s. s\<lparr>s_end_msgs := smap_put ?e
          (smap_get [] ?m ?e @ received_from peer ?ds ?e) (s_end_msgs s)\<rparr>)) Q R
        (?s\<lparr>trace := trace ?s @ t\<rparr>)"
      by (simp add: wp_simps)
  qed
  moreover have "remote_ep E t k = Some ?e" for t
    using steadyD(1) [OF assms(1)] by simp
  ultimately show ?thesis
    by (simp add: update_endmsgs_of_def wp_simps remote_endpoint_def)
qed

lemma wp_update_endmsgs_loop:
  assumes "steady E peer (set ks)" and "short_reads E" and "smap_wf (s_end_msgs s)"
    and "\<And>t m'. sent t = [] \<Longrightarrow> executed t = [] \<Longrightarrow>
        extends peer ks (data_read E (trace s) t) (s_end_msgs s) m' \<Longrightarrow>
        Q () (s\<lparr>s_end_msgs := m', trace := trace s @ t\<rparr>)"
  shows "wp (for_each (update_endmsgs_of E) ks) Q R s"
  using assms
proof (induction ks arbitrary: s)
  case Nil
  have "s\<lparr>s_end_msgs := s_end_msgs s, trace := trace s\<rparr> = s" by (cases s) simp
  with Nil(3) Nil(4) [of "[]" "s_end_msgs s"] show ?case
    by (simp add: wp_simps extends_def received_from_def)
next
  case (Cons k ks)
  show ?case
    unfolding for_each.simps wp_then
  proof (rule wp_update_endmsgs_of [OF _ Cons.prems(2,3)])
    show "steady E peer {k}" using Cons.prems(1) by (rule steady_mono) auto
    fix t m
    assume t: "sent t = []" "executed t = []"
      "extends peer [k] (data_read E (trace s) t) (s_end_msgs s) m"
    let ?s = "s\<lparr>s_end_msgs := m, trace := trace s @ t\<rparr>"
    show "wp (for_each (update_endmsgs_of E) ks) Q R ?s"
    proof (rule Cons.IH [OF _ Cons.prems(2)])
      show "steady E peer (set ks)" using Cons.prems(1) by (rule steady_mono) auto
      show "smap_wf (s_end_msgs ?s)" using t(3) by (simp add: extends_def)
      fix t' m'
      assume t': "sent t' = []" "executed t' = []"
        "extends peer ks (data_read E (trace ?s) t') (s_end_msgs ?s) m'"
      have "extends peer (k # ks) (data_read E (trace s) (t @ t')) (s_end_msgs s) m'"
        using t(3) t'(3) by (auto simp: extends_def data_read_append)
      with t t' Cons.prems(4) [of "t @ t'" m']
      show "Q () (?s\<lparr>s_end_msgs := m', trace := trace ?s @ t'\<rparr>)" by simp
    qed
  qed
qed

lemma update_endmsgs_run:
  assumes "steady E peer (set (s_socks s))" and "short_reads E" and "servlet_ok peer s"
  obtains t m' where "update_endmsgs E s = (Inr (), s\<lparr>s_end_msgs := m', trace := trace s @ t\<rparr>)"
    and "sent t = []" and "executed t = []"
    and "extends peer (s_socks s) (data_read E (trace s) t) (s_end_msgs s) m'"
    and "servlet_ok peer (s\<lparr>s_end_msgs := m'\<rparr>)"
proof -
  let ?P = "\<lambda>(_::unit) s'. \<exists>t m'. s' = s\<lparr>s_end_msgs := m', trace := trace s @ t\<rparr> \<and> sent t = []
      \<and> executed t = [] \<and> extends peer (s_socks s) (data_read E (trace s) t) (s_end_msgs s) m'"
  have "wp (update_endmsgs E) ?P (\<lambda>_ _. False) s"
    unfolding update_endmsgs_def wp_bind wp_gets
    by (rule wp_update_endmsgs_loop [OF assms(1,2) servlet_ok_wf [OF assms(3)]]) blast
  then obtain t m' where m': "update_endmsgs E s = (Inr (), s\<lparr>s_end_msgs := m', trace := trace s @ t\<rparr>)"
    "sent t = []" "executed t = []"
    "extends peer (s_socks s) (data_read E (trace s) t) (s_end_msgs s) m'"
    by (elim wp_ok_run) auto
  moreover have "servlet_ok peer (s\<lparr>s_end_msgs := m'\<rparr>)"
    using assms(3) m'(4) by (auto simp: servlet_ok_def extends_def)
  ultimately show ?thesis by (rule that)
qed

section \<open>One iteration of the thread\<close>

lemma queued_of_all:
  assumes "smap_wf m"
  shows "(\<forall>(e, x) \<in> set (queued_of m). P x) \<longleftrightarrow> (\<forall>e. list_all P (smap_get [] m e))"
proof
  assume *: "\<forall>(e, x) \<in> set (queued_of m). P x"
  show "\<forall>e. list_all P (smap_get [] m e)"
  proof
    fix e show "list_all P (smap_get [] m e)"
    proof (cases "smap_find m e")
      case None
      then show ?thesis by (simp add: smap_get_def)
    next
      case (Some q)
      then have "(e, q) \<in> set m" using assms by (simp add: smap_mem_find)
      with * Some show ?thesis
        by (fastforce simp: queued_of_def smap_get_def list_all_iff)
    qed
  qed
next
  assume *: "\<forall>e. list_all P (smap_get [] m e)"
  show "\<forall>(e, x) \<in> set (queued_of m). P x"
  proof (clarify)
    fix e x assume "(e, x) \<in> set (queued_of m)"
    then obtain q where "(e, q) \<in> set m" "x \<in> set q" by (auto simp: queued_of_def)
    moreover have "list_all P (smap_get [] m e)" using * by blast
    ultimately show "P x" using assms by (simp add: smap_mem_find smap_get_def list_all_iff)
  qed
qed

lemma check_endmsgs_queued: "check_endmsgs s \<longleftrightarrow> queued_of (s_end_msgs s) \<noteq> []"
  by (force simp: check_endmsgs_def queued_of_def list_ex_iff)

text \<open>Whatever is read, at any time or after the history \<open>h\<close>, consists of PRIVMSG and TOPIC messages.\<close>

definition plain_traffic :: "env \<Rightarrow> bool" where
  "plain_traffic E \<longleftrightarrow> (\<forall>t k. list_all plain (messages_of (take BUFF_SIZE (read_some E t k))))"

definition reads_all :: "(string \<Rightarrow> bool) \<Rightarrow> env \<Rightarrow> event list \<Rightarrow> bool" where
  "reads_all P E h \<longleftrightarrow> (\<forall>t k. list_all P (messages_of (take BUFF_SIZE (read_some E (h @ t) k))))"

abbreviation plain_since :: "env \<Rightarrow> event list \<Rightarrow> bool" where
  "plain_since \<equiv> reads_all plain"

lemma plain_traffic_since [simp]: "plain_traffic E \<Longrightarrow> plain_since E h"
  by (simp add: plain_traffic_def reads_all_def)

lemma reads_all_append [simp]: "reads_all P E h \<Longrightarrow> reads_all P E (h @ t)"
  unfolding reads_all_def append_assoc by blast

lemma received_all:
  "reads_all P E h \<Longrightarrow> list_all P (received_from peer (data_read E h t) e)"
proof (induction E h t rule: data_read.induct)
  case (2 E h k t)
  have "list_all P (messages_of (take BUFF_SIZE (read_some E (h @ []) k)))"
    using 2(2) unfolding reads_all_def by blast
  with 2 show ?case by (auto simp: received_from_def)
qed (auto simp: received_from_def)

lemma endmsgs_stage:
  assumes "steady E peer (set (s_socks s))" and "servlet_ok peer s" and "db_up E"
    and "short_reads E" and "plain_since E (trace s)" and "\<forall>e. list_all plain (smap_get [] (s_end_msgs s) e)"
  obtains s' t t' m m' c where
    "thenE (update_endmsgs E) (bindE (gets check_endmsgs)
       (\<lambda>check. if check then handle_endmsgs E else ret ())) s = (Inr (), s')"
    and "s' = s\<lparr>s_end_msgs := m', s_channel_topic := c, trace := trace s @ t @ t'\<rparr>" and "sent t = []" and "servlet_ok peer s'"
    and "s_socks s' = s_socks s" and "queued_of (s_end_msgs s') = []"
    and "extends peer (s_socks s) (data_read E (trace s) t) (s_end_msgs s) m"
    and "room_run E (s_channel_name s) (room_abs s) (queued_of m) = (room_abs s', deliveries peer t')"
proof -
  obtain t m where upd: "update_endmsgs E s = (Inr (), s\<lparr>s_end_msgs := m, trace := trace s @ t\<rparr>)"
    "sent t = []" "extends peer (s_socks s) (data_read E (trace s) t) (s_end_msgs s) m"
    "servlet_ok peer (s\<lparr>s_end_msgs := m\<rparr>)"
    using assms(1,4,2) by (rule update_endmsgs_run)
  let ?s = "s\<lparr>s_end_msgs := m, trace := trace s @ t\<rparr>"
  have "smap_wf m" and "list_all plain (smap_get [] m e)" for e
    using upd(3) assms(6) received_all [OF assms(5)] by (auto simp: extends_def list_all_iff)
  then have plain: "\<forall>(e, x) \<in> set (queued_of m). plain x" by (simp add: queued_of_all)
  obtain c t' where fin: "handle_endmsgs E ?s =
      (Inr (), ?s\<lparr>s_end_msgs := cleared (set (smap_keys (s_end_msgs ?s))) (s_end_msgs ?s),
         s_channel_topic := c, trace := trace ?s @ t'\<rparr>)"
    "room_run E (s_channel_name ?s) (room_abs ?s) (queued_of (s_end_msgs ?s))
      = ((room_abs ?s)\<lparr>topic := c\<rparr>, deliveries peer t')"
    by (rule handle_endmsgs_run [where s = ?s and E = E and peer = peer])
      (use assms(1,3) upd(4) plain in simp_all)
  show ?thesis
  proof (cases "queued_of m = []")
    case True
    show ?thesis
    proof (rule that [of ?s t "[]" "s_channel_topic s" m m])
      show "thenE (update_endmsgs E) (bindE (gets check_endmsgs)
          (\<lambda>check. if check then handle_endmsgs E else ret ())) s = (Inr (), ?s)"
        using upd(1) True by (simp add: run check_endmsgs_queued)
      show "room_run E (s_channel_name s) (room_abs s) (queued_of m)
          = (room_abs ?s, deliveries peer [])"
        using True by (simp add: deliveries_def)
      show "?s = s\<lparr>s_end_msgs := m, s_channel_topic := s_channel_topic s, trace := trace s @ t @ []\<rparr>"
        by (cases s) simp
    qed (use upd True in simp_all)
  next
    case False
    let ?m = "cleared (set (smap_keys m)) m"
    let ?t = "s\<lparr>s_end_msgs := ?m, s_channel_topic := c, trace := trace s @ t @ t'\<rparr>"
    show ?thesis
    proof (rule that [of ?t t t' c ?m m])
      show "thenE (update_endmsgs E) (bindE (gets check_endmsgs)
          (\<lambda>check. if check then handle_endmsgs E else ret ())) s = (Inr (), ?t)"
        using upd(1) False fin(1) by (simp add: run check_endmsgs_queued)
      show "servlet_ok peer ?t"
        using servlet_ok_cleared [of peer _ "s\<lparr>s_end_msgs := m\<rparr>"] upd(4) by simp
      show "room_run E (s_channel_name s) (room_abs s) (queued_of m) = (room_abs ?t, deliveries peer t')"
        using fin(2) by simp
    qed (use upd(2,3) queued_of_cleared_all in simp_all)
  qed
qed

end
