(* ===== verification/Thread.thy ===== *)
theory Thread
  imports Membership "HOL-Library.Multiset"
begin

text \<open>
  One iteration of a channel's thread (\<open>Servlet::thread_run\<close>) as a whole, and the properties of its
  parts: taking in new users, receiving, writing to a connection that has failed, and leaving the
  loop.
\<close>

section \<open>One iteration\<close>

text \<open>The members and queues after the first stage of an iteration.\<close>

definition newcomers :: "bool \<Rightarrow> servlet \<Rightarrow> user list" where
  "newcomers raised s = (if raised then map fst (waiting_for s) else [])"

definition taken_in :: "(sock \<Rightarrow> endpoint) \<Rightarrow> bool \<Rightarrow> servlet \<Rightarrow> servlet" where
  "taken_in peer raised s = (if raised then grabbed peer s else s)"

lemma servlet_iter_run:
  assumes "steady E peer (set (s_socks s) \<union> set (global_socks s))"
    and "\<forall>k \<in> set (s_socks s) \<union> set (global_socks s). \<forall>t. local_ep E t k = Some loc"
    and "servlet_ok peer s" and "admissible peer s" and "db_up E"
    and "short_reads E" and "plain_since E (trace s)"
    and "\<forall>e. list_all plain (smap_get [] (s_end_msgs s) e)"
    and "\<forall>(u, ms) \<in> set (waiting_for s). list_all plain ms"
    and "load_flag (flags s) notify = Inr raised"
  obtains s' t1 t2 t3 m m' c where "servlet_iter E notify s = (Inr (), s')"
    and "s' = (taken_in peer raised s)\<lparr>s_end_msgs := m', s_channel_topic := c,
      trace := trace s @ t1 @ t2 @ t3\<rparr>" and "servlet_ok peer s'"
    and "s_socks s' = s_socks (taken_in peer raised s)" and "queued_of (s_end_msgs s') = []"
    and "extends peer (s_socks s') (data_read E (trace s @ t1) t2)
      (s_end_msgs (taken_in peer raised s)) m"
    and "sent t2 = []"
    and "room_joins E (address_text E loc) (room_abs s) (newcomers raised s)
      = (room_abs (taken_in peer raised s), deliveries peer t1)"
    and "room_run E (s_channel_name s) (room_abs (taken_in peer raised s)) (queued_of m)
      = (room_abs s', deliveries peer t3)"
proof -
  let ?g = "taken_in peer raised s"
  obtain t1 where join:
    "(if raised then handle_newusers E else ret ()) s = (Inr (), ?g\<lparr>trace := trace s @ t1\<rparr>)"
    "room_joins E (address_text E loc) (room_abs s) (newcomers raised s)
      = (room_abs ?g, deliveries peer t1)"
  proof (cases raised)
    case True
    obtain t where "handle_newusers E s = (Inr (), (grabbed peer s)\<lparr>trace := trace s @ t\<rparr>)"
      "room_joins E (address_text E loc) (room_abs s) (map fst (waiting_for s))
        = (room_abs (grabbed peer s), deliveries peer t)"
      using assms(1,3,4,2) by (rule handle_newusers_run)
    with True that show thesis by (simp add: taken_in_def newcomers_def)
  next
    case False
    with that [of "[]"] show thesis
      by (simp add: taken_in_def newcomers_def run deliveries_def)
  qed
  let ?s1 = "?g\<lparr>trace := trace s @ t1\<rparr>"
  have socks: "set (s_socks ?g) \<subseteq> set (s_socks s) \<union> set (global_socks s)"
    by (auto simp: taken_in_def)
  have ok: "servlet_ok peer ?g"
    using servlet_ok_grabbed [OF assms(3,4)] assms(3) by (simp add: taken_in_def)
  have plain: "list_all plain (smap_get [] (s_end_msgs ?g) e)" for e
    using assms(8,9) by (auto simp: taken_in_def admitted_get list_all_iff)
  obtain s' t2 t3 m m' c where rest:
    "thenE (update_endmsgs E) (bindE (gets check_endmsgs)
       (\<lambda>check. if check then handle_endmsgs E else ret ())) ?s1 = (Inr (), s')"
    "s' = ?s1\<lparr>s_end_msgs := m', s_channel_topic := c, trace := trace ?s1 @ t2 @ t3\<rparr>" "sent t2 = []" "servlet_ok peer s'"
    "s_socks s' = s_socks ?s1" "queued_of (s_end_msgs s') = []"
    "extends peer (s_socks ?s1) (data_read E (trace ?s1) t2) (s_end_msgs ?s1) m"
    "room_run E (s_channel_name ?s1) (room_abs ?s1) (queued_of m) = (room_abs s', deliveries peer t3)"
  proof (rule endmsgs_stage [where s = ?s1 and E = E and peer = peer])
    show "steady E peer (set (s_socks ?s1))"
      using assms(1) by (rule steady_mono) (use socks in simp)
  qed (use assms(5-7) ok plain in auto)
  have chan: "s_channel_name ?g = s_channel_name s" by (simp add: taken_in_def)
  show ?thesis
    by (rule that [of s' t1 t2 t3 c m' m])
      (use join rest chan assms(10) in \<open>simp_all add: servlet_iter_def check_newusers_def run\<close>)
qed

section \<open>A write that fails\<close>

text \<open>The loop over the members, up to one whose write fails.\<close>

lemma remove_trace_of_users:
  assumes "connected E peer (set (s_socks s))" and "servlet_ok peer s" and "u \<in> set (s_users s)"
  shows "wp (remove_trace_of E u) (\<lambda>_ s'. s_users s' = filter (\<lambda>v. u_endpt v \<noteq> u_endpt u) (s_users s))
    R s"
  by (rule wp_remove_trace_of [OF assms]) simp

lemma write_fails:
  assumes "connected E peer (set (s_socks s))" and "servlet_ok peer s" and "u \<in> set (s_users s)"
    and "ends_crlf msg" and "\<forall>k t. peer k = u_endpt u \<longrightarrow> write_ec E t k msg"
  shows "wp (servlet_try_writing E u msg)
    (\<lambda>_ s'. s_users s' = filter (\<lambda>v. u_endpt v \<noteq> u_endpt u) (s_users s)) R s"
  unfolding servlet_try_writing_def wp_bind
proof (rule wp_get_sock [OF assms(1)])
  fix t
  assume "sent t = []" "executed t = []"
  have "u_endpt u \<in> peer ` set (s_socks s)"
    using assms(2,3) by (auto simp: servlet_ok_def)
  then obtain k where k: "sock_of peer (s_socks s) (u_endpt u) = Some k"
    using sock_of_ex by blast
  then have fails: "write_ec E T k msg" for T
    using assms(5) by (auto dest: sock_of_Some)
  have "\<not> length msg < 2" using assms(4) by (simp add: ends_crlf_def)
  with k fails assms(4) show "wp (deref (sock_of peer (s_socks s) (u_endpt u)))
      (\<lambda>k. wp (try_writing_to_sock E k msg)
        (\<lambda>ec. wp (if ec then remove_trace_of E u else ret ())
          (\<lambda>_ s'. s_users s' = filter (\<lambda>v. u_endpt v \<noteq> u_endpt u) (s_users s)) R) R) R
      (s\<lparr>trace := trace s @ t\<rparr>)"
    using remove_trace_of_users [of E peer "s\<lparr>trace := trace s @ t @ [Ev_write k msg]\<rparr>" u R] assms(1-3)
    by (simp add: deref_def wp_simps wp_def [of "try_writing_to_sock E k msg"] try_writing_cases)
qed

lemma write_succeeds:
  assumes "connected E peer (set (s_socks s))" and "servlet_ok peer s" and "u \<in> set (s_users s)"
    and "ends_crlf msg" and "\<forall>k t. peer k = u_endpt u \<longrightarrow> \<not> write_ec E t k msg"
    and "\<And>t. Q () (s\<lparr>trace := trace s @ t\<rparr>)"
  shows "wp (servlet_try_writing E u msg) Q R s"
  unfolding servlet_try_writing_def wp_bind
proof (rule wp_get_sock [OF assms(1)])
  fix t
  have "u_endpt u \<in> peer ` set (s_socks s)"
    using assms(2,3) by (auto simp: servlet_ok_def)
  then obtain k where k: "sock_of peer (s_socks s) (u_endpt u) = Some k"
    using sock_of_ex by blast
  then have fine: "\<not> write_ec E T k msg" for T
    using assms(5) by (auto dest: sock_of_Some)
  have "\<not> length msg < 2" using assms(4) by (simp add: ends_crlf_def)
  with k fine assms(4,6) show "wp (deref (sock_of peer (s_socks s) (u_endpt u)))
      (\<lambda>k. wp (try_writing_to_sock E k msg)
        (\<lambda>ec. wp (if ec then remove_trace_of E u else ret ()) Q R) R) R
      (s\<lparr>trace := trace s @ t\<rparr>)"
    by (simp add: deref_def wp_simps wp_def [of "try_writing_to_sock E k msg"] try_writing_cases)
qed

lemma wp_for_users_Cons:
  assumes "wp (body u a) (\<lambda>a' s'.
      if s_users s' = prev @ u # rest then wp (for_users body (prev @ [u]) rest a') Q R s'
      else s_users s' \<noteq> tl prev @ u # rest \<and> R (UB Invalidated_iterator) s') R s"
  shows "wp (for_users body prev (u # rest) a) Q R s"
  unfolding for_users.simps wp_bind
  by (rule wp_mono [OF assms]) (simp_all add: wp_simps split: if_splits)

lemma for_users_fails:
  assumes "connected E peer (set (s_socks s))" and "servlet_ok peer s"
    and "s_users s = prev @ xs @ u # rest" and "ends_crlf msg" and "\<not> skip u"
    and "\<forall>k t. peer k = u_endpt u \<longrightarrow> write_ec E t k msg"
    and "\<forall>v \<in> set xs. \<forall>k t. peer k = u_endpt v \<longrightarrow> \<not> write_ec E t k msg"
  shows "wp (for_users (\<lambda>v _. if skip v then ret () else servlet_try_writing E v msg) prev
      (xs @ u # rest) ()) Q (\<lambda>e _. e = UB Invalidated_iterator) s"
  using assms
proof (induction xs arbitrary: prev s)
  case Nil
  have gone: "u \<notin> set (filter (\<lambda>v. u_endpt v \<noteq> u_endpt u) (prev @ u # rest))" by simp
  have w: "wp (servlet_try_writing E u msg)
      (\<lambda>_ s'. s_users s' = filter (\<lambda>v. u_endpt v \<noteq> u_endpt u) (prev @ u # rest))
      (\<lambda>e _. e = UB Invalidated_iterator) s"
    using write_fails [OF Nil.prems(1,2) _ Nil.prems(4,6)] Nil.prems(3) by simp
  show ?case
    unfolding append_Nil
  proof (rule wp_for_users_Cons, simp add: Nil.prems(5), rule wp_mono [OF w], goal_cases)
    case (1 x s')
    with gone have "u \<notin> set (s_users s')" by metis
    then have "s_users s' \<noteq> prev @ u # rest" "s_users s' \<noteq> tl prev @ u # rest" by auto
    then show ?case by simp
  qed
next
  case (Cons x xs)
  let ?body = "\<lambda>v (_::unit). if skip v then ret () else servlet_try_writing E v msg"
  have rest: "wp (for_users ?body (prev @ [x]) (xs @ u # rest) ()) Q
      (\<lambda>e _. e = UB Invalidated_iterator) (s\<lparr>trace := t\<rparr>)" for t
    by (rule Cons.IH) (use Cons.prems in simp_all)
  show ?case
    unfolding append_Cons
  proof (rule wp_for_users_Cons)
    let ?Q = "\<lambda>a s'. if s_users s' = prev @ x # xs @ u # rest
      then wp (for_users ?body (prev @ [x]) (xs @ u # rest) a) Q (\<lambda>e _. e = UB Invalidated_iterator) s'
      else s_users s' \<noteq> tl prev @ x # xs @ u # rest \<and> UB Invalidated_iterator = UB Invalidated_iterator"
    show "wp (?body x ()) ?Q (\<lambda>e _. e = UB Invalidated_iterator) s"
    proof (cases "skip x")
      case True
      have "s\<lparr>trace := trace s\<rparr> = s" by (cases s) simp
      with True rest [of "trace s"] Cons.prems(3) show ?thesis by (simp add: wp_simps)
    next
      case False
      have "wp (servlet_try_writing E x msg) ?Q (\<lambda>e _. e = UB Invalidated_iterator) s"
        by (rule write_succeeds [OF Cons.prems(1,2) _ Cons.prems(4)])
          (use Cons.prems(3,7) rest in simp_all)
      with False show ?thesis by simp
    qed
  qed
qed

section \<open>The loop\<close>

text \<open>
  The conditions under which a channel's thread keeps running: connections that stay up, a database
  that answers, reads that fit the buffer, and traffic of PRIVMSG and TOPIC messages; and what its
  state has to satisfy.
\<close>

definition healthy :: "env \<Rightarrow> (sock \<Rightarrow> endpoint) \<Rightarrow> endpoint \<Rightarrow> bool" where
  "healthy E peer loc \<longleftrightarrow>
     steady E peer UNIV \<and> (\<forall>k t. local_ep E t k = Some loc) \<and> db_up E \<and> short_reads E
     \<and> plain_traffic E"

definition thread_ok :: "(sock \<Rightarrow> endpoint) \<Rightarrow> servlet \<Rightarrow> bool" where
  "thread_ok peer s \<longleftrightarrow>
     servlet_ok peer s \<and> admissible peer s
     \<and> (\<forall>e. list_all plain (smap_get [] (s_end_msgs s) e))
     \<and> (\<forall>(u, ms) \<in> set (waiting_for s). list_all plain ms)"

lemma waiting_for_grabbed [simp]: "waiting_for (grabbed peer s) = []"
  by (simp add: waiting_for_def)

lemma admissible_grabbed:
  assumes "admissible peer s"
  shows "admissible peer (grabbed peer s)"
proof -
  let ?w = "wanted peer (s_users s @ map fst (waiting_for s))"
  have d: "distinct (map peer (s_socks s))" "distinct (map peer (global_socks s))"
    "peer ` set (s_socks s) \<inter> peer ` set (global_socks s) = {}"
    using assms by (simp_all add: admissible_def)
  have "inj_on peer (set (global_socks s))"
    using d(2) by (simp add: distinct_map)
  then have "peer ` {k \<in> set (global_socks s). ?w k} \<inter> peer ` {k \<in> set (global_socks s). \<not> ?w k} = {}"
    by (auto simp: inj_on_def)
  moreover have "peer ` set (s_socks s) \<inter> peer ` {k \<in> set (global_socks s). \<not> ?w k} = {}"
    "peer ` set (s_socks s) \<inter> peer ` {k \<in> set (global_socks s). ?w k} = {}"
    using d(3) by blast+
  ultimately show ?thesis
    using assms d(1,2)
    unfolding admissible_def
    by (simp add: distinct_map_filter image_Un Int_Un_distrib Int_Un_distrib2)
qed

lemma admissible_frame [simp]:
  "admissible peer (s\<lparr>s_end_msgs := m, s_channel_topic := c, trace := t\<rparr>) = admissible peer s"
  "waiting_for (s\<lparr>s_end_msgs := m, s_channel_topic := c, trace := t\<rparr>) = waiting_for s"
  by (simp_all add: admissible_def waiting_for_def)

lemma queued_Nil_plain:
  "smap_wf m \<Longrightarrow> queued_of m = [] \<Longrightarrow> list_all plain (smap_get [] m e)"
  using queued_of_all [of m plain] by simp

lemma thread_ok_iter:
  assumes "healthy E peer loc" and "thread_ok peer s" and "load_flag (flags s) notify = Inr raised"
  obtains s' t where "servlet_iter E notify s = (Inr (), s')" and "thread_ok peer s'"
    and "flags s' = flags s" and "trace s' = trace s @ t" and "s_channel_name s' = s_channel_name s"
    and "s_users s' = s_users s @ newcomers raised s"
    and "global_socks s' = global_socks (taken_in peer raised s)"
    and "chan_newusers s' = chan_newusers (taken_in peer raised s)"
    and "s_socks s' = s_socks (taken_in peer raised s)"
proof -
  have E: "steady E peer (set (s_socks s) \<union> set (global_socks s))"
    "\<forall>k \<in> set (s_socks s) \<union> set (global_socks s). \<forall>t. local_ep E t k = Some loc"
    "db_up E" "short_reads E" "plain_since E (trace s)"
    using assms(1) steady_mono [of E peer UNIV] by (auto simp: healthy_def)
  have s: "servlet_ok peer s" "admissible peer s"
    "\<forall>e. list_all plain (smap_get [] (s_end_msgs s) e)"
    "\<forall>(u, ms) \<in> set (waiting_for s). list_all plain ms"
    using assms(2) by (simp_all add: thread_ok_def)
  obtain s' t1 t2 t3 m m' c where iter: "servlet_iter E notify s = (Inr (), s')"
    "s' = (taken_in peer raised s)\<lparr>s_end_msgs := m', s_channel_topic := c,
      trace := trace s @ t1 @ t2 @ t3\<rparr>" "servlet_ok peer s'" "queued_of (s_end_msgs s') = []"
    by (rule servlet_iter_run [OF E(1,2) s(1,2) E(3-5) s(3,4) assms(3)])
  have "list_all plain (smap_get [] (s_end_msgs s') e)" for e
    using servlet_ok_wf [OF iter(3)] iter(4) by (rule queued_Nil_plain)
  moreover have "admissible peer s'" "\<forall>(u, ms) \<in> set (waiting_for s'). list_all plain ms"
    using s admissible_grabbed by (auto simp: iter(2) taken_in_def)
  ultimately have "thread_ok peer s'"
    using iter(3) by (simp add: thread_ok_def)
  then show ?thesis
    by (rule that [OF iter(1)]) (simp_all add: iter(2) taken_in_def newcomers_def)
qed

lemma load_selfdestruct_run:
  "load_selfdestruct E s = (Inr (signal_at E (trace s) \<or> selfdestruct s),
     s\<lparr>selfdestruct := signal_at E (trace s) \<or> selfdestruct s, trace := trace s @ [Ev_poll]\<rparr>)"
  by (cases "signal_at E (trace s)") (simp_all add: load_selfdestruct_def signal_handler_def SIGINT_def run)

lemma thread_ok_poll [simp]:
  "thread_ok peer (s\<lparr>selfdestruct := b, trace := t\<rparr>) = thread_ok peer s"
  by (simp add: thread_ok_def servlet_ok_def admissible_def waiting_for_def)

lemma servlet_loop_exits:
  assumes "healthy E peer loc" and "\<forall>t. n \<le> length t \<longrightarrow> signal_at E t"
    and "thread_ok peer s" and "load_flag (flags s) notify = Inr raised"
  shows "\<exists>s'. servlet_loop E notify s = Some (Inr (), s') \<and> thread_ok peer s' \<and> selfdestruct s'"
  using assms(3,4)
proof (induction "n - length (trace s)" arbitrary: s rule: less_induct)
  case less
  let ?s = "s\<lparr>selfdestruct := signal_at E (trace s) \<or> selfdestruct s, trace := trace s @ [Ev_poll]\<rparr>"
  show ?case
  proof (cases "signal_at E (trace s) \<or> selfdestruct s")
    case True
    with less.prems(1) show ?thesis
      by (subst servlet_loop.simps) (auto simp: load_selfdestruct_run)
  next
    case False
    then have early: "length (trace s) < n" using assms(2) by (meson not_le)
    have "thread_ok peer ?s" "load_flag (flags ?s) notify = Inr raised"
      using less.prems by simp_all
    then obtain s' t where iter: "servlet_iter E notify ?s = (Inr (), s')" "thread_ok peer s'"
      "flags s' = flags ?s" "trace s' = trace ?s @ t"
      by (rule thread_ok_iter [OF assms(1)]) blast
    have "\<exists>s''. servlet_loop E notify s' = Some (Inr (), s'') \<and> thread_ok peer s'' \<and> selfdestruct s''"
      by (rule less.hyps) (use iter early less.prems in auto)
    then show ?thesis
      by (subst servlet_loop.simps) (use False iter(1) in \<open>simp add: load_selfdestruct_run\<close>)
  qed
qed

section \<open>Properties\<close>

text \<open>C13: \<open>handle_newusers\<close> refines users joining the room one after the other: the code first
  takes in all waiting users and sockets and then greets, skipping users who are not handled yet,
  and what it sends is, for each new user in turn, a JOIN to everybody who joined up to and with
  that user, then to the new user the topic, the names of exactly these users, and the end of the
  names.\<close>

theorem handle_newusers_joins:
  assumes "steady E peer (set (s_socks s) \<union> set (global_socks s))"
    and "servlet_ok peer s" and "admissible peer s"
    and "\<forall>k \<in> set (s_socks s) \<union> set (global_socks s). \<forall>t. local_ep E t k = Some loc"
  shows "\<exists>s' t. handle_newusers E s = (Inr (), s') \<and> trace s' = trace s @ t \<and> servlet_ok peer s'
    \<and> room_joins E (address_text E loc) (room_abs s) (map fst (waiting_for s))
        = (room_abs s', deliveries peer t)"
proof -
  obtain t where "handle_newusers E s = (Inr (), (grabbed peer s)\<lparr>trace := trace s @ t\<rparr>)"
    "room_joins E (address_text E loc) (room_abs s) (map fst (waiting_for s))
      = (room_abs (grabbed peer s), deliveries peer t)"
    using assms by (rule handle_newusers_run)
  with servlet_ok_grabbed [OF assms(2,3)] show ?thesis
    by (intro exI [of _ "(grabbed peer s)\<lparr>trace := trace s @ t\<rparr>"] exI [of _ t]) simp
qed

definition lab_arrivals :: servlet where
  "lab_arrivals = (lab_servlet [])\<lparr>global_socks := [4, 9, 5],
     chan_newusers := [(''#lab'', [(lab_user ''carol'' 4, []), (lab_user ''dave'' 5, [''PRIVMSG #lab :hi''])]),
                       (''#other'', [(lab_user ''eve'' 9, [])])]\<rparr>"

lemma lab_arrivals_fields [simp]:
  "waiting_for lab_arrivals = [(lab_user ''carol'' 4, []), (lab_user ''dave'' 5, [''PRIVMSG #lab :hi''])]"
  "global_socks lab_arrivals = [4, 9, 5]" "s_channel_name lab_arrivals = ''#lab''"
  "trace lab_arrivals = []" "flags lab_arrivals = [True]" "s_end_msgs lab_arrivals = []"
  "chan_newusers lab_arrivals =
     [(''#lab'', [(lab_user ''carol'' 4, []), (lab_user ''dave'' 5, [''PRIVMSG #lab :hi''])]),
      (''#other'', [(lab_user ''eve'' 9, [])])]"
  "s_users lab_arrivals = [lab_user ''alice'' 2, lab_user ''bob'' 3]" "s_socks lab_arrivals = [2, 3]"
  "room_abs lab_arrivals = \<lparr>members = [lab_user ''alice'' 2, lab_user ''bob'' 3], topic = ''start''\<rparr>"
  by (simp_all add: lab_arrivals_def waiting_for_def smap_get_def room_abs_def)

lemma lab_peer_distinct: "distinct (map lab_peer [2, 3, 4, 9, 5])"
  by (simp add: lab_peer_def)

lemma lab_arrivals_ok: "servlet_ok lab_peer lab_arrivals" "admissible lab_peer lab_arrivals"
  using lab_peer_distinct by (auto simp: servlet_ok_def admissible_def)

lemma handle_newusers_joins_witness:
  "\<exists>s'. handle_newusers lab_env lab_arrivals = (Inr (), s')
     \<and> map u_nick (s_users s') = [''alice'', ''bob'', ''carol'', ''dave'']
     \<and> length (deliveries lab_peer (trace s')) = 13"
proof -
  have "\<exists>s' t. handle_newusers lab_env lab_arrivals = (Inr (), s') \<and> trace s' = trace lab_arrivals @ t
    \<and> servlet_ok lab_peer s'
    \<and> room_joins lab_env (address_text lab_env (Endpoint 0x7F000001 8080)) (room_abs lab_arrivals)
        (map fst (waiting_for lab_arrivals)) = (room_abs s', deliveries lab_peer t)"
    by (rule handle_newusers_joins [OF lab_steady lab_arrivals_ok]) simp
  then obtain s' where s': "handle_newusers lab_env lab_arrivals = (Inr (), s')"
    "room_joins lab_env (address_text lab_env (Endpoint 0x7F000001 8080)) (room_abs lab_arrivals)
        (map fst (waiting_for lab_arrivals)) = (room_abs s', deliveries lab_peer (trace s'))"
    by auto
  from s'(2) [symmetric] have "map u_nick (members (room_abs s'))
      = [''alice'', ''bob'', ''carol'', ''dave'']" "length (deliveries lab_peer (trace s')) = 13"
    by (simp_all add: room_join_def to_all_def Let_def del: room_abs_fields)
  with s'(1) show ?thesis by simp
qed

text \<open>C17: \<open>grab_new\<close> takes exactly what belongs to its channel out of the shared state: the
  channel's queue is empty afterwards and its users are in \<open>_users\<close> in order, every other channel's
  queue is untouched, no socket is lost or duplicated, no socket of a user of the channel is left
  behind, and the messages the users sent while registering are appended to their queues.\<close>

theorem grab_new_takes_own:
  assumes "connected E peer (set (global_socks s))" and "smap_wf (s_end_msgs s)"
  shows "\<exists>s'. grab_new E s = (Inr (map fst (waiting_for s)), s')
    \<and> waiting_for s' = [] \<and> s_users s' = s_users s @ map fst (waiting_for s)
    \<and> (\<forall>c. c \<noteq> s_channel_name s \<longrightarrow> smap_find (chan_newusers s') c = smap_find (chan_newusers s) c)
    \<and> mset (s_socks s') + mset (global_socks s') = mset (s_socks s) + mset (global_socks s)
    \<and> (\<forall>k \<in> set (global_socks s'). peer k \<notin> u_endpt ` set (s_users s'))
    \<and> (\<forall>e. smap_get [] (s_end_msgs s') e = smap_get [] (s_end_msgs s) e
          @ concat (map snd (filter (\<lambda>(u, ms). u_endpt u = e) (waiting_for s))))"
proof -
  let ?P = "\<lambda>us s'. us = map fst (waiting_for s) \<and> (\<exists>t. s' = (grabbed peer s)\<lparr>trace := trace s @ t\<rparr>)"
  have "wp (grab_new E) ?P (\<lambda>_ _. False) s"
    by (rule wp_grab_new [OF assms]) auto
  then obtain s' where "grab_new E s = (Inr (map fst (waiting_for s)), s')" and "\<exists>t. s' = (grabbed peer s)\<lparr>trace := trace s @ t\<rparr>"
    by (elim wp_ok_run) auto
  moreover have "mset (s_socks (grabbed peer s)) + mset (global_socks (grabbed peer s))
      = mset (s_socks s) + mset (global_socks s)"
    by (simp add: add.assoc flip: multiset_partition)
  moreover have "waiting_for ((grabbed peer s)\<lparr>trace := t\<rparr>) = []" for t
    by (simp add: waiting_for_def)
  ultimately show ?thesis
    by (intro exI [of _ s']) (auto simp: admitted_get wanted_def)
qed

lemma grab_new_takes_own_witness:
  "\<exists>s'. grab_new lab_env lab_arrivals = (Inr [lab_user ''carol'' 4, lab_user ''dave'' 5], s')
     \<and> mset (s_socks s') + mset (global_socks s') = {#2, 3, 4, 9, 5#}"
  using grab_new_takes_own [OF steady_connected [OF lab_steady], of lab_arrivals] by force

text \<open>C33: A single connection that has gone, of whatever channel, takes down the channel thread that
  next looks for its users' sockets: when one of the sockets in the shared deque has no remote
  endpoint any more, \<open>grab_new\<close> throws and its thread ends, with the waiting users already taken out
  of the queue.\<close>

theorem grab_new_dead_socket:
  assumes "global_socks s = ks @ k # ks'" and "connected E peer (set ks)"
    and "\<forall>t. remote_ep E t k = None"
    and "s_users s @ map fst (waiting_for s) \<noteq> []" and "smap_wf (s_end_msgs s)"
  shows "fst (grab_new E s) = Inl System_error"
proof -
  have "wp (grab_new E) (\<lambda>_ _. False) (\<lambda>e _. e = System_error) s"
    unfolding grab_new_def wp_bind wp_then wp_gets wp_update
    using grab_socks_gone [OF assms(2,3)] assms(1,4,5)
    by (simp add: admit_all_eq waiting_for_def)
  then show ?thesis
    by (auto simp: wp_def split: sum.splits prod.splits)
qed

lemma grab_new_dead_socket_witness:
  "fst (grab_new (lab_env\<lparr>remote_ep := \<lambda>t k. if k = 9 then None else Some (lab_peer k)\<rparr>) lab_arrivals)
     = Inl System_error"
  by (rule grab_new_dead_socket [where ks = "[4]" and k = 9 and ks' = "[5]" and peer = lab_peer])
    (simp_all add: connected_def)

text \<open>C18: \<open>update_endmsgs\<close> queues exactly what was received: it sends nothing and touches neither the
  members nor the sockets, every user's queue grows by the non-empty messages of the data that its
  own socket's reads returned in this pass, in order, and nothing else changes in the queues.\<close>

theorem update_endmsgs_exact:
  assumes "steady E peer (set (s_socks s))" and "short_reads E" and "servlet_ok peer s"
  shows "\<exists>s' t. update_endmsgs E s = (Inr (), s') \<and> trace s' = trace s @ t
    \<and> sent t = [] \<and> executed t = [] \<and> servlet_ok peer s'
    \<and> s_users s' = s_users s \<and> s_socks s' = s_socks s
    \<and> (\<forall>e. smap_get [] (s_end_msgs s') e
          = smap_get [] (s_end_msgs s) e @ received_from peer (data_read E (trace s) t) e)"
proof -
  obtain t m' where "update_endmsgs E s = (Inr (), s\<lparr>s_end_msgs := m', trace := trace s @ t\<rparr>)"
    "sent t = []" "executed t = []"
    "extends peer (s_socks s) (data_read E (trace s) t) (s_end_msgs s) m'"
    "servlet_ok peer (s\<lparr>s_end_msgs := m'\<rparr>)"
    using assms by (rule update_endmsgs_run)
  then show ?thesis
    by (intro exI [of _ "s\<lparr>s_end_msgs := m', trace := trace s @ t\<rparr>"] exI [of _ t])
      (simp add: extends_def)
qed

definition lab_talk :: env where
  "lab_talk = lab_env\<lparr>avail := \<lambda>t k. Some 17, read_some := \<lambda>t k. ''PRIVMSG #lab :hi'' @ crlf\<rparr>"

lemma lab_talk_steady: "steady lab_talk lab_peer K"
  by (simp add: steady_def lab_talk_def)

lemma lab_talk_short: "short_reads lab_talk"
  by (simp add: short_reads_def lab_talk_def crlf_def BUFF_SIZE_def)

lemma update_endmsgs_exact_witness:
  "\<exists>s'. update_endmsgs lab_talk (lab_servlet []) = (Inr (), s') \<and> sent (trace s') = []"
  using update_endmsgs_exact [OF lab_talk_steady lab_talk_short lab_servlet_ok [of "[]"]]
  by fastforce

text \<open>C4: One iteration of a channel's thread whose connections are up and whose clients send only
  PRIVMSG and TOPIC messages returns, and is an iteration of the abstract room: if the channel's
  flag is raised the waiting users join, then every message that has been queued or is received in
  this iteration is delivered; no message stays in a queue, and the invariant of the thread holds
  again.\<close>

theorem servlet_iter_refines_room:
  assumes "healthy E peer loc" and "thread_ok peer s" and "load_flag (flags s) notify = Inr raised"
  shows "\<exists>s' t1 t2 t3 m. servlet_iter E notify s = (Inr (), s') \<and> trace s' = trace s @ t1 @ t2 @ t3
    \<and> room_joins E (address_text E loc) (room_abs s) (newcomers raised s)
        = (room_abs (taken_in peer raised s), deliveries peer t1)
    \<and> sent t2 = []
    \<and> extends peer (s_socks s') (data_read E (trace s @ t1) t2)
        (s_end_msgs (taken_in peer raised s)) m
    \<and> room_run E (s_channel_name s) (room_abs (taken_in peer raised s)) (queued_of m)
        = (room_abs s', deliveries peer t3)
    \<and> queued_of (s_end_msgs s') = [] \<and> servlet_ok peer s'"
proof -
  have E: "steady E peer (set (s_socks s) \<union> set (global_socks s))"
    "\<forall>k \<in> set (s_socks s) \<union> set (global_socks s). \<forall>t. local_ep E t k = Some loc"
    "db_up E" "short_reads E" "plain_since E (trace s)"
    using assms(1) steady_mono [of E peer UNIV] by (auto simp: healthy_def)
  have s: "servlet_ok peer s" "admissible peer s"
    "\<forall>e. list_all plain (smap_get [] (s_end_msgs s) e)"
    "\<forall>(u, ms) \<in> set (waiting_for s). list_all plain ms"
    using assms(2) by (simp_all add: thread_ok_def)
  obtain s' t1 t2 t3 m m' c where iter: "servlet_iter E notify s = (Inr (), s')"
    "s' = (taken_in peer raised s)\<lparr>s_end_msgs := m', s_channel_topic := c,
      trace := trace s @ t1 @ t2 @ t3\<rparr>" "servlet_ok peer s'"
    "queued_of (s_end_msgs s') = []"
    "extends peer (s_socks s') (data_read E (trace s @ t1) t2) (s_end_msgs (taken_in peer raised s)) m"
    "sent t2 = []"
    "room_joins E (address_text E loc) (room_abs s) (newcomers raised s)
      = (room_abs (taken_in peer raised s), deliveries peer t1)"
    "room_run E (s_channel_name s) (room_abs (taken_in peer raised s)) (queued_of m)
      = (room_abs s', deliveries peer t3)"
    by (rule servlet_iter_run [OF E(1,2) s(1,2) E(3-5) s(3,4) assms(3)])
  then have "trace s' = trace s @ t1 @ t2 @ t3" by simp
  with iter show ?thesis by blast
qed

lemma lab_healthy: "healthy lab_env lab_peer (Endpoint 0x7F000001 8080)"
  by (simp add: healthy_def lab_steady lab_db_up short_reads_def plain_traffic_def BUFF_SIZE_def)

lemma lab_arrivals_thread_ok: "thread_ok lab_peer lab_arrivals"
  using lab_arrivals_ok by (simp add: thread_ok_def smap_get_def plain_def recognized_def)

lemma servlet_iter_refines_room_witness:
  "\<exists>s'. servlet_iter lab_env (Some 0) lab_arrivals = (Inr (), s') \<and> servlet_ok lab_peer s'"
  using servlet_iter_refines_room [OF lab_healthy lab_arrivals_thread_ok, of "Some 0" True]
  by (auto simp: load_flag_def)

text \<open>C30: A healthy channel thread leaves its loop normally once SIGINT has been delivered: if the
  signal has been seen by any history of at least \<open>n\<close> calls, the loop returns, with its invariant
  intact, whatever arrived in between.\<close>

theorem servlet_loop_stops:
  assumes "healthy E peer loc" and "\<forall>t. n \<le> length t \<longrightarrow> signal_at E t"
    and "thread_ok peer s" and "load_flag (flags s) notify = Inr raised"
  shows "\<exists>s'. servlet_loop E notify s = Some (Inr (), s') \<and> thread_ok peer s' \<and> selfdestruct s'"
  using assms by (rule servlet_loop_exits)

lemma servlet_loop_stops_witness:
  "\<exists>s'. servlet_loop (lab_env\<lparr>signal_at := \<lambda>t. 50 \<le> length t\<rparr>) (Some 0) lab_arrivals = Some (Inr (), s')"
proof -
  have "healthy (lab_env\<lparr>signal_at := \<lambda>t. 50 \<le> length t\<rparr>) lab_peer (Endpoint 0x7F000001 8080)"
    by (simp add: healthy_def steady_def db_up_def short_reads_def plain_traffic_def BUFF_SIZE_def)
  from servlet_loop_stops [OF this _ lab_arrivals_thread_ok, of 50 "Some 0" True] show ?thesis
    by (auto simp: load_flag_def)
qed

text \<open>C32: When a write to one of the members fails while a message is being relayed, the member is
  removed from the vector that the loop is running over, and the loop goes on with invalidated
  iterators: relaying ends in undefined behaviour instead of skipping the member.\<close>

theorem broadcast_failed_write:
  assumes "connected E peer (set (s_socks s))" and "servlet_ok peer s"
    and "s_users s = xs @ u # rest" and "ends_crlf msg" and "\<not> skip u"
    and "\<forall>k t. peer k = u_endpt u \<longrightarrow> write_ec E t k msg"
    and "\<forall>v \<in> set xs. \<forall>k t. peer k = u_endpt v \<longrightarrow> \<not> write_ec E t k msg"
  shows "fst (broadcast E skip msg s) = Inl (UB Invalidated_iterator)"
proof -
  have "wp (broadcast E skip msg) (\<lambda>_ _. False) (\<lambda>e _. e = UB Invalidated_iterator) s"
    unfolding broadcast_def wp_bind wp_gets assms(3)
    by (rule for_users_fails [where peer = peer and skip = skip and xs = xs and u = u])
      (use assms in auto)
  then show ?thesis
    by (auto simp: wp_def split: sum.splits prod.splits)
qed

lemma broadcast_failed_write_witness:
  "fst (broadcast (lab_env\<lparr>write_ec := \<lambda>t k m. lab_peer k = lab_peer 3\<rparr>) (\<lambda>u. False) (''hi'' @ crlf) (lab_servlet []))
     = Inl (UB Invalidated_iterator)"
  by (rule broadcast_failed_write [where xs = "[lab_user ''alice'' 2]" and u = "lab_user ''bob'' 3"
        and rest = "[]" and peer = lab_peer])
    (simp_all add: connected_def lab_servlet_ok)

text \<open>C21: \<open>remove_trace_of\<close> forgets a user completely: afterwards neither a user, nor a queue, nor a
  socket of that endpoint is left, everything that belongs to other endpoints is untouched, and the
  channel's invariant holds.\<close>

theorem remove_trace_of_forgets:
  assumes "connected E peer (set (s_socks s))" and "servlet_ok peer s" and "u \<in> set (s_users s)"
  shows "\<exists>s'. remove_trace_of E u s = (Inr (), s') \<and> servlet_ok peer s'
    \<and> s_users s' = filter (\<lambda>v. u_endpt v \<noteq> u_endpt u) (s_users s)
    \<and> smap_find (s_end_msgs s') = (smap_find (s_end_msgs s))(u_endpt u := None)
    \<and> s_socks s' = filter (\<lambda>k. peer k \<noteq> u_endpt u) (s_socks s)
    \<and> s_channel_topic s' = s_channel_topic s"
proof -
  have "wp (remove_trace_of E u) (\<lambda>_ s'. \<exists>t. s' = (without peer (u_endpt u) s)\<lparr>trace := t\<rparr>)
      (\<lambda>_ _. False) s"
    by (rule wp_remove_trace_of [OF assms]) blast
  then obtain t where "remove_trace_of E u s = (Inr (), (without peer (u_endpt u) s)\<lparr>trace := t\<rparr>)"
    by (elim wp_ok_run) auto
  then show ?thesis
    using servlet_ok_without [OF assms(2), of "u_endpt u"] servlet_ok_wf [OF assms(2)] by simp
qed

lemma remove_trace_of_forgets_witness:
  "\<exists>s'. remove_trace_of lab_env (lab_user ''bob'' 3) (lab_servlet []) = (Inr (), s')
     \<and> s_users s' = [lab_user ''alice'' 2] \<and> s_socks s' = [2]"
  using remove_trace_of_forgets [OF steady_connected [OF lab_steady] lab_servlet_ok [of "[]"],
      of "lab_user ''bob'' 3"] by auto

end
