(* ===== verification/Config.thy ===== *)
theory Config
  imports Sockio
begin

text \<open>
  \<open>shared/configUtils\<close> and \<open>chitter::initiate\<close>: reading the configuration file and the connection
  string made of it. The document tree is pugixml's; a \<open>pugi::xml_node\<close> is a pointer into a document
  and is modelled with whether it can still be read, because \<open>loadSetup\<close> returns a node of a local
  document, which is destroyed when it returns.
\<close>

section \<open>Document nodes\<close>

datatype xml = Elem string "xml list" | Pcdata string

fun xml_name :: "xml \<Rightarrow> string" where
  "xml_name (Elem n xs) = n"
| "xml_name (Pcdata s) = ''''"

fun xml_children :: "xml \<Rightarrow> xml list" where
  "xml_children (Elem n xs) = xs"
| "xml_children (Pcdata s) = []"

fun pcdata_of :: "xml \<Rightarrow> string option" where
  "pcdata_of (Elem n xs) = None"
| "pcdata_of (Pcdata s) = Some s"

text \<open>
  A node handle: null, or a node with whether it can be read: its document exists, or the memory of the
  destroyed document still holds what it did. A read through any other handle is undefined behaviour.
\<close>

type_synonym node = "(bool \<times> xml) option"

definition bindR :: "error + 'a \<Rightarrow> ('a \<Rightarrow> error + 'b) \<Rightarrow> error + 'b" where
  "bindR r f = (case r of Inl e \<Rightarrow> Inl e | Inr x \<Rightarrow> f x)"

lemma bindR_simps [simp]: "bindR (Inl e) f = Inl e" "bindR (Inr x) f = f x"
  by (simp_all add: bindR_def)

definition node_children :: "node \<Rightarrow> error + node list" where
  "node_children n =
     (case n of
        None \<Rightarrow> Inr []
      | Some (alive, x) \<Rightarrow>
          if alive then Inr (map (\<lambda>c. Some (alive, c)) (xml_children x))
          else Inl (UB Dangling_reference))"

definition node_child :: "node \<Rightarrow> string \<Rightarrow> error + node" where
  "node_child n name =
     (case n of
        None \<Rightarrow> Inr None
      | Some (alive, x) \<Rightarrow>
          if alive
          then Inr (map_option (Pair alive) (List.find (\<lambda>c. xml_name c = name) (xml_children x)))
          else Inl (UB Dangling_reference))"

definition node_name :: "node \<Rightarrow> error + string" where
  "node_name n =
     (case n of
        None \<Rightarrow> Inr ''''
      | Some (alive, x) \<Rightarrow> if alive then Inr (xml_name x) else Inl (UB Dangling_reference))"

text \<open>\<open>child_value()\<close>: the text of the first text child.\<close>

definition node_child_value :: "node \<Rightarrow> error + string" where
  "node_child_value n =
     (case n of
        None \<Rightarrow> Inr ''''
      | Some (alive, x) \<Rightarrow>
          if alive
          then Inr (case List.find (\<lambda>c. pcdata_of c \<noteq> None) (xml_children x) of
                      None \<Rightarrow> '''' | Some c \<Rightarrow> the (pcdata_of c))
          else Inl (UB Dangling_reference))"

section \<open>configUtils\<close>

text \<open>
  \<open>load_file\<close> is the library's: the document that a file holds (\<open>None\<close>: it does not load), with
  whether the memory of that document is still intact after its destructor has run, which the
  language does not say and the code relies on.
\<close>

type_synonym load = "string \<Rightarrow> (xml \<times> bool) option"

record db_config =
  db_type :: string
  db_username :: string
  db_password :: string
  db_ip :: string
  db_port :: string
  db_name :: string

record server_config =
  defaultName :: string
  defaultTopic :: string

definition checkNode :: "node \<Rightarrow> error + unit" where
  "checkNode n =
     (if n = None
      then bindR (node_name n) (\<lambda>nm. Inl (Runtime_error (''error looking for <'' @ nm @ ''> node'')))
      else Inr ())"

text \<open>
  The document is a local variable: when \<open>loadSetup\<close> returns, its destructor has run, and the node
  it returns can be read only if the memory is intact.
\<close>

definition loadSetup :: "load \<Rightarrow> string \<Rightarrow> error + node" where
  "loadSetup load_file fileName =
     (case load_file fileName of
        None \<Rightarrow> Inl (Runtime_error (''error loading config file: '' @ fileName))
      | Some (doc, intact) \<Rightarrow>
          bindR (node_child (Some (True, doc)) ''config'') (\<lambda>root.
          bindR (checkNode root) (\<lambda>_. Inr (map_option (\<lambda>(alive, x). (intact, x)) root))))"

definition toString :: "node \<Rightarrow> error + string" where
  "toString n = bindR (node_child_value n) (\<lambda>v. Inr (filter (\<lambda>c. \<not> is_space c) v))"

text \<open>The loop over the children of \<open>databaseInfo\<close>, with the number of fields seen.\<close>

fun read_fields :: "node list \<Rightarrow> nat \<times> db_config \<Rightarrow> error + nat \<times> db_config" where
  "read_fields [] (count, cfg) = Inr (count, cfg)"
| "read_fields (n # ns) (count, cfg) =
     bindR (node_name n) (\<lambda>nm.
       if nm = ''databaseType'' then
         bindR (toString n) (\<lambda>v. read_fields ns (count + 1, cfg\<lparr>db_type := v\<rparr>))
       else if nm = ''username'' then
         bindR (toString n) (\<lambda>v. read_fields ns (count + 1, cfg\<lparr>db_username := v\<rparr>))
       else if nm = ''password'' then
         bindR (toString n) (\<lambda>v. read_fields ns (count + 1, cfg\<lparr>db_password := v\<rparr>))
       else if nm = ''ip'' then
         bindR (toString n) (\<lambda>v. read_fields ns (count + 1, cfg\<lparr>db_ip := v\<rparr>))
       else if nm = ''port'' then
         bindR (toString n) (\<lambda>v. read_fields ns (count + 1, cfg\<lparr>db_port := v\<rparr>))
       else if nm = ''databaseName'' then
         bindR (toString n) (\<lambda>v. read_fields ns (count + 1, cfg\<lparr>db_name := v\<rparr>))
       else read_fields ns (count, cfg))"

definition db_config_empty :: db_config where
  "db_config_empty = \<lparr>db_type = '''', db_username = '''', db_password = '''', db_ip = '''',
     db_port = '''', db_name = ''''\<rparr>"

text \<open>What \<open>loadDbConfig\<close> and \<open>loadServerConfig\<close> do with the node they get.\<close>

definition readDbConfig :: "node \<Rightarrow> error + db_config" where
  "readDbConfig root =
     bindR (node_child root ''databaseInfo'') (\<lambda>root.
     bindR (checkNode root) (\<lambda>_.
     bindR (node_children root) (\<lambda>ns.
     bindR (read_fields ns (0, db_config_empty)) (\<lambda>(count, cfg).
       if count < 6 then Inl (Runtime_error ''not all fields in db xml file are present'')
       else Inr cfg))))"

definition loadDbConfig :: "load \<Rightarrow> string \<Rightarrow> error + db_config" where
  "loadDbConfig load_file fileName = bindR (loadSetup load_file fileName) readDbConfig"

definition readServerConfig :: "node \<Rightarrow> error + server_config" where
  "readServerConfig root =
     bindR (node_child root ''serverInfo'') (\<lambda>root.
     bindR (checkNode root) (\<lambda>_.
     bindR (node_child root ''defaultName'') (\<lambda>node.
     bindR (checkNode node) (\<lambda>_.
     bindR (toString node) (\<lambda>name.
     bindR (node_child root ''defaultTopic'') (\<lambda>node.
     bindR (checkNode node) (\<lambda>_.
     bindR (toString node) (\<lambda>topic. Inr \<lparr>defaultName = name, defaultTopic = topic\<rparr>))))))))"

definition loadServerConfig :: "load \<Rightarrow> string \<Rightarrow> error + server_config" where
  "loadServerConfig load_file fileName = bindR (loadSetup load_file fileName) readServerConfig"

section \<open>initiate\<close>

definition conninfo :: "db_config \<Rightarrow> string" where
  "conninfo cfg = ''user='' @ db_username cfg @ '' host='' @ db_ip cfg
     @ '' password='' @ db_password cfg @ '' dbname='' @ db_name cfg"

definition initiate :: "env \<Rightarrow> db_config \<Rightarrow> ('z, conn) io" where
  "initiate E cfg =
     call (Ev_db_connect (conninfo cfg)) (\<lambda>t. or_throw Pqxx_error (db_connect E t (conninfo cfg)))"

definition initiate_file :: "env \<Rightarrow> load \<Rightarrow> string \<Rightarrow> ('z, conn) io" where
  "initiate_file E load_file fileName =
     bindE (lift (loadDbConfig load_file fileName)) (initiate E)"

section \<open>What the loop over the fields computes\<close>

definition text_of :: "xml \<Rightarrow> string" where
  "text_of x = filter (\<lambda>c. \<not> is_space c)
     (case List.find (\<lambda>c. pcdata_of c \<noteq> None) (xml_children x) of
        None \<Rightarrow> '''' | Some c \<Rightarrow> the (pcdata_of c))"



lemma toString_live [simp]: "toString (Some (True, x)) = Inr (text_of x)"
  by (simp add: toString_def node_child_value_def text_of_def)

lemma node_name_live [simp]: "node_name (Some (True, x)) = Inr (xml_name x)"
  by (simp add: node_name_def)












section \<open>Properties\<close>




end
