(* ===== verification/Server.thy ===== *)
theory Server
  imports Shared Sockio Chitter Config
begin

text \<open>
  \<open>server/Server\<close>: the main thread, which accepts connections, registers users, hands them to the
  channels' threads and starts a thread for every new channel. The state is the shared state
  extended by the members of the class; the notifier's map is one of them, its flags are the shared
  ones. A thread in \<open>_threads\<close> is represented by the arguments it was started with.
\<close>

record thread_args =
  ta_server :: string
  ta_channel :: string
  ta_topic :: string
  ta_notify :: flag_ptr

record server = shared +
  sv_end_msgs :: "(endpoint, string list) smap"
  sv_notify :: "(string, flag_ptr) smap"
  sv_threads :: "(string, thread_args) smap"
  sv_conn :: conn
  sv_config :: server_config

section \<open>Reading and writing\<close>

definition server_try_reading :: "env \<Rightarrow> sock \<Rightarrow> (server, string) cmd" where
  "server_try_reading E k =
     bindE (remote_endpoint E k) (\<lambda>e.
     bindE (gets (\<lambda>s. smap_get [] (sv_end_msgs s) e)) (\<lambda>q.
     thenE (update (\<lambda>s. s\<lparr>sv_end_msgs := smap_index [] e (sv_end_msgs s)\<rparr>))
    (bindE (try_reading_from_sock E k q) (\<lambda>(m, q').
     thenE (update (\<lambda>s. s\<lparr>sv_end_msgs := smap_put e q' (sv_end_msgs s)\<rparr>))
       (ret m)))))"

definition server_try_writing :: "env \<Rightarrow> sock \<Rightarrow> string \<Rightarrow> (server, unit) cmd" where
  "server_try_writing E k msg = bindE (try_writing_to_sock E k msg) (\<lambda>_. ret ())"

section \<open>Registering a user\<close>

text \<open>
  \<open>sha256_md E m\<close> are the bytes that \<open>md\<close> holds after the three calls, \<open>sha256_ok E m\<close> whether all of
  them reported success. A byte that is larger than the largest \<open>char\<close> throws.
\<close>

definition size_issue :: error where
  "size_issue = Runtime_error ''during password hashing, encountered size issue''"

definition convertChar :: "env \<Rightarrow> nat \<Rightarrow> error + char" where
  "convertChar E c = (if c > char_max E then Inl size_issue else Inr (char_of c))"

fun convert_all :: "env \<Rightarrow> nat list \<Rightarrow> error + string" where
  "convert_all E [] = Inr []"
| "convert_all E (c # cs) =
     bindR (convertChar E c) (\<lambda>x. bindR (convert_all E cs) (\<lambda>xs. Inr (x # xs)))"

definition hashPassword :: "env \<Rightarrow> string \<Rightarrow> error + (bool \<times> string)" where
  "hashPassword E password =
     bindR (convert_all E (sha256_md E password)) (\<lambda>hash. Inr (sha256_ok E password, hash))"

text \<open>The line that answers a registration.\<close>

definition welcome_msg :: "string \<Rightarrow> string \<Rightarrow> string \<Rightarrow> string \<Rightarrow> string \<Rightarrow> string \<Rightarrow> string" where
  "welcome_msg loc_ip replyCode nick replyMessage user_name rem_ip =
     loc_ip @ '' '' @ replyCode @ '' '' @ nick @ '' '' @ replyMessage
     @ '' '' @ nick @ ''!'' @ user_name
     @ ''@'' @ rem_ip @ crlf"

definition register_session :: "env \<Rightarrow> sock \<Rightarrow> (server, user \<times> bool) cmd" where
  "register_session E k =
     bindE (server_try_reading E k) (\<lambda>msg.
     bindE (lift (substr msg 5)) (\<lambda>nick.
     bindE (server_try_reading E k) (\<lambda>msg.
     bindE (split_msg msg '' * * :'') (\<lambda>parts.
     bindE (server_try_reading E k) (\<lambda>msg.
     bindE (lift (substr msg 5)) (\<lambda>password.
     bindE (lift (hashPassword E password)) (\<lambda>(success, hash).
     bindE (lift (substr (hd parts) 5)) (\<lambda>user_name.
     let real_name = last parts in
     bindE (remote_endpoint E k) (\<lambda>e.
     let client = set_endpoint e (user4 nick user_name real_name hash) in
     bindE (gets sv_conn) (\<lambda>c.
     bindE (handleUser E c client) (\<lambda>ok.
     bindE (if \<not> ok then ret (ERR_PASSWDMISMATCH, '':Password incorrect'')
            else bindE (remote_endpoint E k) (\<lambda>e'.
                   thenE (insertLogin E c (u_nick client) e')
                     (ret (RPL_WELCOME, '':Welcome to the Internet Relay Network''))))
       (\<lambda>(replyCode, replyMessage).
     bindE (remote_endpoint E k) (\<lambda>rem.
     bindE (local_endpoint E k) (\<lambda>loc.
     thenE (server_try_writing E k
              (welcome_msg (address_text E loc) replyCode nick replyMessage user_name
                 (address_text E rem)))
       (ret (client, ok))))))))))))))))"

definition get_channel_name :: "env \<Rightarrow> sock \<Rightarrow> (server, string) cmd" where
  "get_channel_name E k = bindE (server_try_reading E k) (\<lambda>msg. lift (substr msg 5))"

section \<open>Handing a user over\<close>

definition update_comm_structs :: "user \<Rightarrow> string list \<Rightarrow> sock \<Rightarrow> (server, unit) cmd" where
  "update_comm_structs u msgs k = update (\<lambda>s.
     s\<lparr>chan_newusers := smap_put (u_chan u)
         (smap_get [] (chan_newusers s) (u_chan u) @ [(u, msgs)]) (chan_newusers s),
       global_socks := global_socks s @ [k]\<rparr>)"

text \<open>The calls on \<open>_notify_of_newusers\<close>.\<close>

definition the_notifier :: "server \<Rightarrow> notifier" where
  "the_notifier s = \<lparr>flag_map = sv_notify s, flag_heap = flags s\<rparr>"

definition set_notifier :: "notifier \<Rightarrow> server \<Rightarrow> server" where
  "set_notifier n s = s\<lparr>sv_notify := flag_map n, flags := flag_heap n\<rparr>"

definition notify_update :: "string \<Rightarrow> (server, unit) cmd" where
  "notify_update chan =
     bindE (gets (\<lambda>s. notifier_update chan (the_notifier s))) (\<lambda>r.
     bindE (lift r) (\<lambda>n. update (set_notifier n)))"

definition notify_pass_ptr :: "string \<Rightarrow> (server, flag_ptr) cmd" where
  "notify_pass_ptr chan =
     bindE (gets (\<lambda>s. pass_ptr chan (the_notifier s))) (\<lambda>(p, n).
     thenE (update (set_notifier n)) (ret p))"

text \<open>The block that starts a thread for a channel that has none.\<close>

definition start_channel :: "env \<Rightarrow> string \<Rightarrow> (server, unit) cmd" where
  "start_channel E chan =
     bindE (gets (\<lambda>s. (sv_config s, sv_conn s))) (\<lambda>(cfg, c).
     bindE (checkChannelExists E c chan (defaultName cfg)) (\<lambda>channel_exists.
     bindE (if channel_exists then getChannelTopic E c chan (defaultName cfg)
            else thenE (insertChannel E c chan (defaultTopic cfg) (defaultName cfg))
                   (ret (defaultTopic cfg))) (\<lambda>channelTopic.
     bindE (notify_pass_ptr chan) (\<lambda>p.
       update (\<lambda>s. s\<lparr>sv_threads := smap_put chan
         \<lparr>ta_server = defaultName cfg, ta_channel = chan, ta_topic = channelTopic, ta_notify = p\<rparr>
         (sv_threads s)\<rparr>)))))"

text \<open>
  After a successful registration. The local variable \<open>sock\<close> is moved into the shared deque; where
  the function is left before that, its destructor closes the connection.
\<close>

definition hand_over :: "env \<Rightarrow> user \<Rightarrow> sock \<Rightarrow> (server, unit) cmd" where
  "hand_over E client k =
     bindE (remote_endpoint E k) (\<lambda>e.
     bindE (gets (\<lambda>s. smap_get [] (sv_end_msgs s) e)) (\<lambda>temp_msgs.
     thenE (update (\<lambda>s. s\<lparr>sv_end_msgs := smap_index [] e (sv_end_msgs s)\<rparr>))
    (bindE (remote_endpoint E k) (\<lambda>e'.
     thenE (update (\<lambda>s. s\<lparr>sv_end_msgs := smap_erase e' (sv_end_msgs s)\<rparr>))
       (update_comm_structs client temp_msgs k)))))"

text \<open>A computation that owns the socket: it closes it when it throws.\<close>

definition owning :: "sock \<Rightarrow> ('z, 'a) io \<Rightarrow> ('z, 'a) io" where
  "owning k m = (\<lambda>s. case m s of
       (Inl e, s') \<Rightarrow> if is_ub e \<or> e = Hangs then (Inl e, s') else (Inl e, snd (close_sock k s'))
     | (Inr x, s') \<Rightarrow> (Inr x, s'))"

definition set_keep_alive :: "env \<Rightarrow> sock \<Rightarrow> ('z, unit) io" where
  "set_keep_alive E k =
     call (Ev_set_option k) (\<lambda>t. if set_option_ok E t k then Inr () else Inl System_error)"

definition inner_scope_run :: "env \<Rightarrow> (server, unit) cmd" where
  "inner_scope_run E =
     bindE (call Ev_accept (\<lambda>t. Inr (accept_sock E t))) (\<lambda>a.
       case a of
         Would_block \<Rightarrow> ret ()
       | Accept_failed \<Rightarrow> throw System_error
       | Accepted k \<Rightarrow>
           bindE (owning k (
             thenE (set_keep_alive E k)
            (bindE (register_session E k) (\<lambda>(client, success).
               if \<not> success then ret None
               else bindE (get_channel_name E k) (\<lambda>channel.
                 thenE (hand_over E (set_channel channel client) k) (ret (Some channel)))))))
             (\<lambda>handed.
               case handed of
                 None \<Rightarrow> close_sock k
               | Some channel \<Rightarrow>
                   thenE (notify_update channel)
                  (bindE (gets (\<lambda>s. smap_count (sv_threads s) channel)) (\<lambda>running.
                     if running then ret () else start_channel E channel))))"

section \<open>The main loop\<close>

partial_function (option) server_loop :: "env \<Rightarrow> server \<Rightarrow> ((error + unit) \<times> server) option" where
  "server_loop E s =
     (case load_selfdestruct E s of
        (Inl e, s1) \<Rightarrow> Some (Inl e, s1)
      | (Inr stop, s1) \<Rightarrow>
          (if stop then Some (Inr (), s1)
           else (case inner_scope_run E s1 of
                   (Inl e, s2) \<Rightarrow> Some (Inl e, s2)
                 | (Inr _, s2) \<Rightarrow> server_loop E s2)))"

declare server_loop.simps [code]

text \<open>
  \<open>run\<close>: \<open>bind_to p\<close> is the local endpoint of an acceptor opened on port \<open>p\<close>, \<open>None\<close> when the
  constructor throws; the port is the argument's conversion to \<open>unsigned short\<close>. An exception ends
  the server by setting \<open>selfdestruct\<close>, on which the channels' threads end too.
\<close>

definition greeting :: string where
  "greeting = ''Starting server...\<newline>Type CTRL+C to quit\<newline>''"

definition set_up :: "env \<Rightarrow> (16 word \<Rightarrow> endpoint option) \<Rightarrow> int \<Rightarrow> (server, unit) cmd" where
  "set_up E bind_to listen_port =
     thenE (print_out greeting)
    (thenE set_globals
    (bindE (lift (or_throw System_error (bind_to (word_of_int listen_port)))) (\<lambda>local.
     bindE (gets (\<lambda>s. (sv_config s, sv_conn s))) (\<lambda>(cfg, c).
       handleServer E c (defaultName cfg) local))))"

definition server_run ::
  "env \<Rightarrow> (16 word \<Rightarrow> endpoint option) \<Rightarrow> int \<Rightarrow> server \<Rightarrow> ((error + unit) \<times> server) option" where
  "server_run E bind_to listen_port s =
     map_option (\<lambda>(r, s'). catch_exception r
         (\<lambda>_. print_out ''\<newline>got signal to selfdestruct, going to cleanup _threads\<newline>'')
         (\<lambda>e. thenE (print_err (what E e @ ''\<newline>'')) (update (\<lambda>s. s\<lparr>selfdestruct := True\<rparr>))) s')
       (case set_up E bind_to listen_port s of
          (Inl e, s1) \<Rightarrow> Some (Inl e, s1)
        | (Inr _, s1) \<Rightarrow> server_loop E s1)"

end
