(* ===== verification/Store.thy ===== *)
theory Store
  imports Chitter Lab
begin

text \<open>
  What the functions of \<open>shared/chitter\<close> guarantee against a database that answers as it should: an
  account's password decides a login and is never replaced by one, the list of friends is pruned,
  every value that reaches the database is one string literal of its statement, and where roles are
  read and written.
\<close>

section \<open>Accounts\<close>

text \<open>The database's answers for user \<open>n\<close>, whose stored password is \<open>r\<close> (\<open>None\<close>: no such user).\<close>

definition account :: "env \<Rightarrow> string \<Rightarrow> string option \<Rightarrow> bool" where
  "account E n r \<longleftrightarrow>
     (\<forall>t c. \<exists>f. exec_sql E t c (q_checkUserExists E n) = Some [[f]] \<and> field_bool E f = Some (r \<noteq> None))
     \<and> (\<forall>p t c. r = Some p \<longrightarrow> exec_sql E t c (q_password E n) = Some [[Some p]])"

definition accepts :: "string option \<Rightarrow> string \<Rightarrow> bool" where
  "accepts r p \<longleftrightarrow> (case r of None \<Rightarrow> True | Some q \<Rightarrow> q = p)"

definition user_statements :: "env \<Rightarrow> string option \<Rightarrow> user \<Rightarrow> string list" where
  "user_statements E r u =
     [q_checkUserExists E (u_nick u), if r = None then q_insertUser E u else q_password E (u_nick u)]"

lemma wp_checkUserExists:
  assumes "db_up E" and "account E n r"
    and "\<And>t. sent t = [] \<Longrightarrow> executed t = [(c, q_checkUserExists E n)] \<Longrightarrow> reads t = [] \<Longrightarrow>
        Q (r \<noteq> None) (s\<lparr>trace := trace s @ t\<rparr>)"
  shows "wp (checkUserExists E c n) Q R s"
  unfolding checkUserExists_def wp_bind
proof (rule wp_run_query [OF assms(1)])
  fix rs t
  assume rs: "exec_sql E (trace s @ [Ev_begin c]) c (q_checkUserExists E n) = Some rs"
    and t: "t = [Ev_begin c, Ev_exec c (q_checkUserExists E n), Ev_commit c]"
  obtain f where "rs = [[f]]" "field_bool E f = Some (r \<noteq> None)"
    using assms(2) rs unfolding account_def by (metis option.inject)
  with assms(3) [of t] t show "wp (cell_bool E rs) Q R (s\<lparr>trace := trace s @ t\<rparr>)"
    by (simp add: cell_bool_def cell_def wp_simps)
qed

lemma wp_verifyPassword:
  assumes "db_up E" and "account E n (Some p)"
    and "\<And>t. sent t = [] \<Longrightarrow> executed t = [(c, q_password E n)] \<Longrightarrow> reads t = [] \<Longrightarrow>
        Q (p = pw) (s\<lparr>trace := trace s @ t\<rparr>)"
  shows "wp (verifyPassword E c n pw) Q R s"
  unfolding verifyPassword_def wp_bind
proof (rule wp_run_query [OF assms(1)])
  fix rs t
  assume rs: "exec_sql E (trace s @ [Ev_begin c]) c (q_password E n) = Some rs"
    and t: "t = [Ev_begin c, Ev_exec c (q_password E n), Ev_commit c]"
  have "rs = [[Some p]]"
    using assms(2) rs by (simp add: account_def)
  with assms(3) [of t] t assms(1)
  show "wp (cell_string E rs 0) (\<lambda>p. wp (ret (p = pw)) Q R) R (s\<lparr>trace := trace s @ t\<rparr>)"
    by (simp add: cell_string_def cell_def wp_simps db_upD)
qed

lemma wp_handleUser:
  assumes "db_up E" and "account E (u_nick u) r"
    and "\<And>t. sent t = [] \<Longrightarrow> executed t = map (Pair c) (user_statements E r u) \<Longrightarrow> reads t = [] \<Longrightarrow>
        Q (accepts r (u_pass u)) (s\<lparr>trace := trace s @ t\<rparr>)"
  shows "wp (handleUser E c u) Q R s"
  unfolding handleUser_def wp_bind
proof (rule wp_checkUserExists [OF assms(1,2)])
  fix t
  assume t: "sent t = []" "executed t = [(c, q_checkUserExists E (u_nick u))]" "reads t = []"
  let ?s = "s\<lparr>trace := trace s @ t\<rparr>"
  show "wp (if r \<noteq> None then verifyPassword E c (u_nick u) (u_pass u)
      else thenE (insertUser E c u) (ret True)) Q R ?s"
  proof (cases r)
    case None
    have "wp (insertUser E c u) (\<lambda>_. wp (ret True) Q R) R ?s"
      unfolding insertUser_def
    proof (rule wp_run_statement [OF assms(1)])
      show "wp (ret True) Q R (?s\<lparr>trace := trace ?s @ t'\<rparr>)"
        if "sent t' = []" "executed t' = [(c, q_insertUser E u)]" "reads t' = []" for t'
        using that t None assms(3) [of "t @ t'"]
        by (simp add: wp_simps accepts_def user_statements_def)
    qed
    with None show ?thesis by (simp add: wp_then)
  next
    case (Some p)
    have "wp (verifyPassword E c (u_nick u) (u_pass u)) Q R ?s"
    proof (rule wp_verifyPassword [OF assms(1)])
      show "account E (u_nick u) (Some p)" using assms(2) Some by simp
      show "Q (p = u_pass u) (?s\<lparr>trace := trace ?s @ t'\<rparr>)"
        if "sent t' = []" "executed t' = [(c, q_password E (u_nick u))]" "reads t' = []" for t'
        using that t Some assms(3) [of "t @ t'"]
        by (simp add: accepts_def user_statements_def)
    qed
    with Some show ?thesis by simp
  qed
qed

lemma wp_insertLogin:
  assumes "db_up E"
    and "\<And>d t. sent t = [] \<Longrightarrow> executed t = [(c, q_now), (c, q_insertLogin E (address_text E e)
          (to_string (unat (ep_port e))) d n)] \<Longrightarrow> reads t = [] \<Longrightarrow> Q () (s\<lparr>trace := trace s @ t\<rparr>)"
  shows "wp (insertLogin E c n e) Q R s"
  unfolding insertLogin_def wp_bind
proof (rule wp_getCurrentDatetime [OF assms(1)])
  fix d t
  assume t: "sent t = []" "executed t = [(c, q_now)]" "reads t = []"
  show "wp (run_query E c (q_insertLogin E (address_text E e) (to_string (unat (ep_port e))) d n))
          (\<lambda>x. wp (ret ()) Q R) R (s\<lparr>trace := trace s @ t\<rparr>)"
    by (rule wp_run_query [OF assms(1)]) (use t assms(2) in \<open>auto simp: wp_simps\<close>)
qed

section \<open>Friends\<close>

lemma prune_row_eq:
  assumes "\<forall>f \<in> set row. field_string E f \<noteq> None"
  shows "prune_row E u row ids =
    Inr (fold (\<lambda>i ids. if i = u \<or> i \<in> set ids then ids else ids @ [i])
      (map (\<lambda>f. the (field_string E f)) row) ids)"
  using assms by (induction row arbitrary: ids) (auto simp: Let_def)

lemma prune_rows_eq:
  assumes "\<forall>row \<in> set rs. \<forall>f \<in> set row. field_string E f \<noteq> None"
  shows "prune_rows E u rs ids =
    Inr (fold (\<lambda>i ids. if i = u \<or> i \<in> set ids then ids else ids @ [i])
      (map (\<lambda>f. the (field_string E f)) (concat rs)) ids)"
  using assms by (induction rs arbitrary: ids) (simp_all add: prune_row_eq)

lemma remdups_snoc: "remdups (ys @ [x]) = remdups (filter (\<lambda>y. y \<noteq> x) ys) @ [x]"
  by (induction ys) auto

lemma prune_fold:
  "fold (\<lambda>i ids. if i = u \<or> i \<in> set ids then ids else ids @ [i]) xs ids =
     ids @ rev (remdups (rev (filter (\<lambda>i. i \<noteq> u \<and> i \<notin> set ids) xs)))"
proof (induction xs arbitrary: ids)
  case Nil
  show ?case by simp
next
  case (Cons x xs)
  show ?case
  proof (cases "x = u \<or> x \<in> set ids")
    case True
    then show ?thesis using Cons by auto
  next
    case False
    have "rev (remdups (rev (filter (\<lambda>i. i \<noteq> u \<and> i \<notin> set ids) xs) @ [x]))
        = x # rev (remdups (rev (filter (\<lambda>i. i \<noteq> u \<and> i \<notin> set ids \<and> i \<noteq> x) xs)))"
      by (simp add: remdups_snoc conj_assoc flip: rev_filter)
    with False Cons show ?thesis by (simp add: conj_commute conj_left_commute)
  qed
qed

section \<open>Statements\<close>

text \<open>
  The lexical structure of a statement, as PostgreSQL defines it: a string literal runs from an
  apostrophe to the next one that is not doubled, and stands for the characters between, a doubled
  apostrophe for one. Everything else is taken character by character.
\<close>

fun literal_end :: "string \<Rightarrow> (string \<times> string) option" where
  "literal_end [] = None"
| "literal_end (c # s) =
     (if c = CHR 0x27
      then (case s of
              d # s' \<Rightarrow>
                if d = CHR 0x27 then map_option (\<lambda>(v, r). (d # v, r)) (literal_end s') else Some ([], s)
            | [] \<Rightarrow> Some ([], []))
      else map_option (\<lambda>(v, r). (c # v, r)) (literal_end s))"

lemma literal_end_shorter: "literal_end s = Some (v, r) \<Longrightarrow> length r < length s"
  by (induction s arbitrary: v r rule: literal_end.induct)
    (auto split: if_splits list.splits, fastforce+)

datatype token = Chr char | Literal string

function sql_lex :: "string \<Rightarrow> token list option" where
  "sql_lex [] = Some []"
| "sql_lex (c # s) =
     (if c = CHR 0x27
      then (case literal_end s of
              None \<Rightarrow> None
            | Some (v, r) \<Rightarrow> map_option ((#) (Literal v)) (sql_lex r))
      else map_option ((#) (Chr c)) (sql_lex s))"
  by pat_completeness auto
termination
  by (relation "measure length") (auto dest: literal_end_shorter)

text \<open>The documented behaviour of \<open>quote\<close>: the literal that stands for its argument.\<close>

definition quotes_well :: "env \<Rightarrow> bool" where
  "quotes_well E \<longleftrightarrow>
     (\<forall>v. \<exists>body. sql_quote E v = CHR 0x27 # body
        \<and> (\<forall>r. (r = [] \<or> hd r \<noteq> CHR 0x27) \<longrightarrow> literal_end (body @ r) = Some (v, r)))"

text \<open>A statement as text with values in it.\<close>

datatype part = Txt string | Val string

fun part_tokens :: "part \<Rightarrow> token list" where
  "part_tokens (Txt s) = map Chr s"
| "part_tokens (Val v) = [Literal v]"

fun render :: "env \<Rightarrow> part list \<Rightarrow> string" where
  "render E [] = []"
| "render E (Txt s # ps) = s @ render E ps"
| "render E (Val v # ps) = sql_quote E v @ render E ps"

text \<open>Text without apostrophes, and some text between two values.\<close>

fun well_formed :: "part list \<Rightarrow> bool" where
  "well_formed [] = True"
| "well_formed (Txt s # ps) = (CHR 0x27 \<notin> set s \<and> well_formed ps)"
| "well_formed (Val v # ps) =
     (case ps of [] \<Rightarrow> True | Txt s # qs \<Rightarrow> s \<noteq> [] \<and> well_formed ps | Val w # qs \<Rightarrow> False)"

lemma sql_lex_text:
  "CHR 0x27 \<notin> set s \<Longrightarrow> sql_lex (s @ t) = map_option ((@) (map Chr s)) (sql_lex t)"
  by (induction s; cases "sql_lex t") auto

lemma render_head:
  "well_formed (Val v # ps) \<Longrightarrow> render E ps = [] \<or> hd (render E ps) \<noteq> CHR 0x27"
  by (cases ps rule: well_formed.cases) (auto dest: hd_in_set)

lemma sql_lex_render:
  assumes "quotes_well E"
  shows "well_formed ps \<Longrightarrow> sql_lex (render E ps) = Some (concat (map part_tokens ps))"
proof (induction ps rule: well_formed.induct)
  case 1
  show ?case by simp
next
  case (2 s ps)
  then show ?case by (simp add: sql_lex_text)
next
  case (3 v ps)
  obtain body where body: "sql_quote E v = CHR 0x27 # body"
    "\<And>r. r = [] \<or> hd r \<noteq> CHR 0x27 \<Longrightarrow> literal_end (body @ r) = Some (v, r)"
    using assms unfolding quotes_well_def by blast
  have "literal_end (body @ render E ps) = Some (v, render E ps)"
    using body(2) render_head [OF 3(2)] by blast
  moreover have "sql_lex (render E ps) = Some (concat (map part_tokens ps))"
    using 3 by (cases ps rule: well_formed.cases) auto
  ultimately show ?case using body(1) by simp
qed

fun vals_parts :: "string list \<Rightarrow> part list" where
  "vals_parts [] = []"
| "vals_parts [v] = [Val v]"
| "vals_parts (v # w # vs) = Val v # Txt '', '' # vals_parts (w # vs)"

definition insert_parts :: "string \<Rightarrow> string list \<Rightarrow> part list" where
  "insert_parts pre vals = Txt (pre @ ''('') # vals_parts vals @ [Txt '')'']"

definition tokens :: "part list \<Rightarrow> token list" where
  "tokens ps = concat (map part_tokens ps)"

lemma render_append: "render E (ps @ qs) = render E ps @ render E qs"
  by (induction E ps rule: render.induct) simp_all

lemma render_vals: "render E (vals_parts vs) = join '', '' (map (sql_quote E) vs)"
  by (induction vs rule: vals_parts.induct) simp_all

lemma passValues_render: "passValues (sql_quote E) pre vals = render E (insert_parts pre vals)"
  by (simp add: passValues_eq insert_parts_def render_append render_vals)

lemma well_formed_vals:
  "s \<noteq> [] \<Longrightarrow> CHR 0x27 \<notin> set s \<Longrightarrow> well_formed (vals_parts vs @ [Txt s])"
  by (induction vs rule: vals_parts.induct) auto

lemma lex_insert:
  assumes "quotes_well E" and "CHR 0x27 \<notin> set pre"
  shows "sql_lex (passValues (sql_quote E) pre vals) = Some (tokens (insert_parts pre vals))"
proof -
  have "well_formed (insert_parts pre vals)"
    unfolding insert_parts_def
    using assms(2) well_formed_vals [of "'')''" vals] by simp
  from sql_lex_render [OF assms(1) this] show ?thesis
    by (simp add: passValues_render tokens_def)
qed

lemma lex_render:
  assumes "quotes_well E" and "q = render E ps" and "well_formed ps"
  shows "sql_lex q = Some (tokens ps)"
  using sql_lex_render [OF assms(1,3)] assms(2) by (simp add: tokens_def)

section \<open>Properties\<close>

text \<open>C28: A login is decided by the stored password, and nobody takes over an account by registering
  again: \<open>handleUser\<close> accepts a name that is unknown, after inserting it with the given password,
  accepts a known name exactly when the password is the stored one, and for a known name executes
  nothing but the two queries.\<close>

theorem handleUser_decides:
  assumes "db_up E" and "account E (u_nick u) r"
  shows "\<exists>t. handleUser E c u s = (Inr (accepts r (u_pass u)), s\<lparr>trace := trace s @ t\<rparr>)
    \<and> sent t = [] \<and> executed t = map (Pair c) (user_statements E r u)"
proof -
  have "wp (handleUser E c u) (\<lambda>b s'. b = accepts r (u_pass u) \<and> (\<exists>t. s' = s\<lparr>trace := trace s @ t\<rparr>
      \<and> sent t = [] \<and> executed t = map (Pair c) (user_statements E r u))) (\<lambda>_ _. False) s"
    by (rule wp_handleUser [OF assms]) blast
  then show ?thesis by (elim wp_ok_run) auto
qed

definition lab_accounts :: "string \<Rightarrow> string \<Rightarrow> env" where
  "lab_accounts n p = lab_env\<lparr>exec_sql := \<lambda>t c q.
     if q = q_checkUserExists lab_env n then Some [[Some ''1'']]
     else if q = q_password lab_env n then Some [[Some p]]
     else if take 18 q = ''SELECT COUNT(1) FR'' then Some [[Some ''0'']]
     else Some [[Some ''now'']]\<rparr>"

lemma lab_accounts_up: "db_up (lab_accounts n p)"
  by (simp add: db_up_def lab_accounts_def lab_env_def)

lemma lab_accounts_known: "account (lab_accounts n p) n (Some p)"
  by (simp add: account_def lab_accounts_def q_checkUserExists_def q_password_def lab_env_def)

lemma handleUser_decides_witness:
  "fst (handleUser (lab_accounts ''alice'' ''secret'') 0
     (user4 ''alice'' ''a'' ''b'' ''guess'') \<lparr>trace = []\<rparr>) = Inr False"
proof -
  have "u_nick (user4 ''alice'' ''a'' ''b'' ''guess'') = ''alice''"
    by (simp add: user4_def)
  then show ?thesis
    using handleUser_decides [OF lab_accounts_up, of "''alice''" "''secret''"
        "user4 ''alice'' ''a'' ''b'' ''guess''" "Some ''secret''" 0 "\<lparr>trace = []\<rparr>"]
      lab_accounts_known [of "''alice''" "''secret''"]
    by (auto simp: accepts_def user4_def)
qed

text \<open>\<open>fetchFriends\<close> returns the identifiers of the rows, in the order in which they first occur,
  each once, and never the user's own.\<close>

lemma fetchFriends_prunes:
  assumes "db_up E" and "exec_sql E (trace s @ [Ev_begin c]) c (q_fetchFriends E u) = Some rs"
    and "\<forall>row \<in> set rs. \<forall>f \<in> set row. field_string E f \<noteq> None"
  shows "\<exists>ids s'. fetchFriends E c u s = (Inr ids, s')
    \<and> ids = rev (remdups (rev (filter (\<lambda>i. i \<noteq> u) (map (\<lambda>f. the (field_string E f)) (concat rs)))))
    \<and> distinct ids \<and> u \<notin> set ids
    \<and> set ids = (\<lambda>f. the (field_string E f)) ` set (concat rs) - {u}"
  using assms
  by (simp add: fetchFriends_def run run_query_def work_begin_def work_exec_def work_commit_def db_upD
      prune_rows_eq prune_fold) auto

definition lab_friends :: env where
  "lab_friends = lab_env\<lparr>exec_sql := \<lambda>t c q. if q = q_now then Some [[Some ''now'']] else
     Some [[Some ''me'', Some ''al''], [Some ''bo'', Some ''me''], [Some ''al'', Some ''me'']]\<rparr>"

lemma fetchFriends_prunes_witness:
  "fst (fetchFriends lab_friends 0 ''me'' \<lparr>trace = []\<rparr>) = Inr [''al'', ''bo'']"
proof -
  let ?rs = "[[Some ''me'', Some ''al''], [Some ''bo'', Some ''me''], [Some ''al'', Some ''me'']]"
  have up: "db_up lab_friends"
    by (simp add: db_up_def lab_friends_def)
  have other: "q_fetchFriends lab_friends ''me'' \<noteq> q_now"
    by (simp add: q_now_def q_fetchFriends_def)
  have rs: "exec_sql lab_friends t 0 (q_fetchFriends lab_friends ''me'') = Some ?rs" for t
    using other by (simp add: lab_friends_def)
  have f: "field_string lab_friends f = f" for f by (simp add: lab_friends_def)
  have "rev (remdups (rev (filter (\<lambda>i. i \<noteq> ''me'') (map (\<lambda>f. the (field_string lab_friends f)) (concat ?rs)))))
      = [''al'', ''bo'']"
    by (simp add: f)
  moreover obtain ids s' where "fetchFriends lab_friends 0 ''me'' \<lparr>trace = []\<rparr> = (Inr ids, s')"
    "ids = rev (remdups (rev (filter (\<lambda>i. i \<noteq> ''me'') (map (\<lambda>f. the (field_string lab_friends f)) (concat ?rs)))))"
    using fetchFriends_prunes [OF up rs, where s = "\<lparr>trace = []\<rparr>"] f by auto
  ultimately show ?thesis by simp
qed

text \<open>C29: No value can change a statement: with a \<open>quote\<close> that yields the literal of its argument,
  each statement that a client's input reaches is lexed into the same tokens whatever the values
  are, except that every value is one string literal standing for exactly that value.\<close>

theorem statements_carry_values:
  assumes "quotes_well E"
  shows "sql_lex (q_checkUserExists E n)
      = Some (tokens [Txt ''SELECT COUNT(1) FROM Users WHERE userID = '', Val n])
    \<and> sql_lex (q_password E n)
      = Some (tokens [Txt ''SELECT password FROM Users WHERE userid = '', Val n])
    \<and> sql_lex (q_insertUser E u)
      = Some (tokens (insert_parts ''INSERT INTO Users (userID, password, realName, whoami) VALUES ''
          [u_nick u, u_pass u, u_real u, u_whoami u]))
    \<and> sql_lex (q_insertLogin E ip port d n)
      = Some (tokens (insert_parts
          ''INSERT INTO UserMetaData (loginIp, loginPort, loginTime, userID) VALUES '' [ip, port, d, n]))
    \<and> sql_lex (q_insertMsg E n d m chan server)
      = Some (tokens (insert_parts
          ''INSERT INTO ChatLogs (userID, originTime, content, channelName, serverName) VALUES ''
          [n, d, m, chan, server]))
    \<and> sql_lex (q_updateChannelTopic E chan topic server)
      = Some (tokens [Txt ''UPDATE Channels SET    ChannelTopic = '', Val topic,
          Txt ''WHERE  ChannelName = '', Val chan, Txt ''AND    ServerName = '', Val server])
    \<and> sql_lex (q_checkChannelExists E chan server)
      = Some (tokens [Txt ''SELECT COUNT(1) FROM  Channels WHERE channelName = '', Val chan,
          Txt ''AND   serverName  = '', Val server])
    \<and> sql_lex (q_insertChannel E chan topic server)
      = Some (tokens (insert_parts
          ''INSERT INTO Channels (channelName, channelTopic, serverName)  VALUES '' [chan, topic, server]))
    \<and> sql_lex (q_getChannelTopic E chan server)
      = Some (tokens [Txt ''SELECT ChannelTopic FROM   Channels WHERE  ChannelName = '', Val chan,
          Txt ''AND    ServerName  = '', Val server])"
  unfolding q_insertUser_def q_insertLogin_def q_insertMsg_def q_insertChannel_def
  by (intro conjI; ((rule lex_insert [OF assms], simp) |
      (rule lex_render [OF assms], simp add: q_checkUserExists_def q_password_def
        q_updateChannelTopic_def q_checkChannelExists_def q_getChannelTopic_def, simp)))

lemma literal_end_quoted:
  "r = [] \<or> hd r \<noteq> CHR 0x27 \<Longrightarrow>
     literal_end (concat (map (\<lambda>c. if c = CHR 0x27 then [c, c] else [c]) v) @ [CHR 0x27] @ r) = Some (v, r)"
proof (induction v)
  case Nil
  then show ?case by (cases r) auto
next
  case (Cons c v)
  then show ?case by (cases "c = CHR 0x27") auto
qed

lemma lab_quotes_well: "quotes_well lab_env"
  unfolding quotes_well_def
proof
  fix v
  let ?body = "concat (map (\<lambda>c. if c = CHR 0x27 then [c, c] else [c]) v) @ [CHR 0x27]"
  have "sql_quote lab_env v = CHR 0x27 # ?body"
    by (simp add: lab_quote_def)
  moreover have "\<forall>r. r = [] \<or> hd r \<noteq> CHR 0x27 \<longrightarrow> literal_end (?body @ r) = Some (v, r)"
    using literal_end_quoted by simp
  ultimately show "\<exists>body. sql_quote lab_env v = CHR 0x27 # body
      \<and> (\<forall>r. r = [] \<or> hd r \<noteq> CHR 0x27 \<longrightarrow> literal_end (body @ r) = Some (v, r))"
    by blast
qed

lemma statements_carry_values_witness:
  "\<exists>ts. sql_lex (q_checkUserExists lab_env ([CHR 0x27] @ '' OR 1=1; --'')) = Some ts
     \<and> last ts = Literal ([CHR 0x27] @ '' OR 1=1; --'')"
  using statements_carry_values [OF lab_quotes_well, of "[CHR 0x27] @ '' OR 1=1; --''"]
  by (simp add: tokens_def)

section \<open>Roles\<close>

text \<open>Reading a channel role gives back the status that \<open>insertChannelRoles\<close> writes as text, a user
  without a row has the status \<open>Nonexistent\<close>, and a text that is no status throws: for the server's
  roles the row is not looked for first, and no row is undefined behaviour.\<close>

lemma roles_read:
  assumes "db_up E"
    and "exec_sql E (trace s @ [Ev_begin c]) c (q_getChannelRoles E u chan server) = Some rs"
    and "exec_sql E (trace s @ [Ev_begin c]) c (q_getServerRoles E u server) = Some []"
    and "rs = [] \<or> rs = [[Some p]]"
  shows "fst (getChannelRoles E c u chan server s) =
      (if rs = [] then Inr Nonexistent else getStatusEnum p)
    \<and> (\<forall>st. rs \<noteq> [] \<and> p = getStatusString st \<longrightarrow>
          fst (getChannelRoles E c u chan server s) = Inr st)
    \<and> fst (getServerRoles E c u server s) = Inl (UB Result_index)"
  using assms(4) assms(1-3)
  by (auto simp: getChannelRoles_def getServerRoles_def run run_query_def work_begin_def work_exec_def
      work_commit_def db_upD cell_string_def cell_def status_codec.dec_enc)

definition lab_roles :: env where
  "lab_roles = lab_env\<lparr>exec_sql := \<lambda>t c q. if q = q_now then Some [[Some ''now'']]
     else if q = q_getChannelRoles lab_env ''al'' ''#lab'' ''lab'' then Some [[Some ''Banned'']] else Some []\<rparr>"

lemma roles_read_witness:
  "fst (getChannelRoles lab_roles 0 ''al'' ''#lab'' ''lab'' \<lparr>trace = []\<rparr>) = Inr Banned
     \<and> fst (getServerRoles lab_roles 0 ''al'' ''lab'' \<lparr>trace = []\<rparr>) = Inl (UB Result_index)"
proof -
  have q: "q_getChannelRoles lab_roles = q_getChannelRoles lab_env"
    "q_getServerRoles lab_roles ''al'' ''lab'' \<noteq> q_getChannelRoles lab_env ''al'' ''#lab'' ''lab''"
    "q_getServerRoles lab_roles ''al'' ''lab'' \<noteq> q_now"
    "q_getChannelRoles lab_env ''al'' ''#lab'' ''lab'' \<noteq> q_now"
    by (simp_all add: q_getChannelRoles_def q_getServerRoles_def q_now_def lab_roles_def fun_eq_iff)
  have up: "db_up lab_roles" by (simp add: db_up_def lab_roles_def)
  have a: "exec_sql lab_roles t 0 (q_getChannelRoles lab_roles ''al'' ''#lab'' ''lab'') = Some [[Some ''Banned'']]" for t
    using q by (simp add: lab_roles_def)
  have b: "exec_sql lab_roles t 0 (q_getServerRoles lab_roles ''al'' ''lab'') = Some []" for t
    using q by (simp add: lab_roles_def)
  have "getStatusEnum ''Banned'' = Inr Banned" by (simp add: getStatusEnum_def)
  then show ?thesis
    using roles_read [OF up a b, of "''Banned''" "\<lparr>trace = []\<rparr>"] by simp
qed

text \<open>Inserting a server role without a display name assigns through an empty optional: the
  default that the code means to use, the user's name, is never stored.\<close>

lemma insertServerRoles_default:
  assumes "begin_ok E (trace s) c"
  shows "insertServerRoles E c u server st None s
    = (Inl (UB Empty_optional), s\<lparr>trace := trace s @ [Ev_begin c]\<rparr>)"
  using assms by (simp add: insertServerRoles_def work_begin_def run)

lemma insertServerRoles_default_witness:
  "fst (insertServerRoles lab_env 0 ''al'' ''lab'' User None \<lparr>trace = []\<rparr>) = Inl (UB Empty_optional)"
  using insertServerRoles_default [of lab_env "\<lparr>trace = []\<rparr>" 0] by simp

end
