(* ===== verification/Registration.thy ===== *)
theory Registration
  imports Server Store
begin

text \<open>
  How the main thread of \<open>Server\<close> registers a user, for clients whose bytes arrive in any chunks of
  complete lines: the reading of lines, the database's part in it, \<open>register_session\<close>, and one pass
  of \<open>inner_scope_run\<close>.
\<close>

section \<open>Reading lines\<close>

definition reads_of :: "sock \<Rightarrow> event list \<Rightarrow> nat" where
  "reads_of k t = count_list (reads t) k"

lemma reads_of_simps [simp]:
  "reads_of k [] = 0" "reads_of k (t @ u) = reads_of k t + reads_of k u"
  "reads_of k (Ev_read k # t) = Suc (reads_of k t)" "reads_of k (Ev_remote j # t) = reads_of k t"
  "reads_of k (Ev_print m # t) = reads_of k t" "reads_of k (Ev_write j m # t) = reads_of k t"
  by (simp_all add: reads_of_def)

lemma reads_of_quiet [simp]: "reads t = [] \<Longrightarrow> reads_of k t = 0"
  by (simp add: reads_of_def)

text \<open>The \<open>i\<close>-th read of the connection returns the \<open>i\<close>-th chunk, a number of complete lines.\<close>

definition delivers :: "env \<Rightarrow> sock \<Rightarrow> string list list \<Rightarrow> bool" where
  "delivers E k chunks \<longleftrightarrow>
     (\<forall>t. reads_of k t < length chunks \<longrightarrow> read_some E t k = lines_text (chunks ! reads_of k t))
     \<and> (\<forall>c \<in> set chunks. c \<noteq> [] \<and> list_all line c \<and> length (lines_text c) < BUFF_SIZE)"

definition pending :: "endpoint \<Rightarrow> sock \<Rightarrow> string list list \<Rightarrow> server \<Rightarrow> string list" where
  "pending e k chunks s =
     smap_get [] (sv_end_msgs s) e @ concat (drop (reads_of k (trace s)) chunks)"

text \<open>The state \<open>s'\<close> is \<open>s\<close> after reading from endpoint \<open>e\<close>.\<close>

definition read_only :: "endpoint \<Rightarrow> server \<Rightarrow> server \<Rightarrow> bool" where
  "read_only e s s' \<longleftrightarrow> (\<exists>m t. s' = s\<lparr>sv_end_msgs := m, trace := trace s @ t\<rparr> \<and> sent t = []
     \<and> executed t = [] \<and> smap_wf m
     \<and> (\<forall>e'. e' \<noteq> e \<longrightarrow> smap_find m e' = smap_find (sv_end_msgs s) e'))"

lemma trace_last_server [simp]:
  "s\<lparr>trace := t, sv_end_msgs := m\<rparr> = s\<lparr>sv_end_msgs := m, trace := t\<rparr>"
  by (cases s) simp

lemma delivers_read:
  assumes "delivers E k chunks" and "reads_of k t < length chunks"
  shows "take BUFF_SIZE (read_some E t k) = read_some E t k"
    and "length (read_some E t k) < BUFF_SIZE"
    and "messages_of (read_some E t k) = chunks ! reads_of k t"
    and "chunks ! reads_of k t \<noteq> []"
proof -
  have "chunks ! reads_of k t \<in> set chunks" using assms(2) by simp
  with assms show "length (read_some E t k) < BUFF_SIZE"
    "messages_of (read_some E t k) = chunks ! reads_of k t" "chunks ! reads_of k t \<noteq> []"
    by (auto simp: delivers_def messages_of_lines)
  then show "take BUFF_SIZE (read_some E t k) = read_some E t k" by simp
qed

lemma wp_server_read:
  assumes "connected E peer {k}" and "delivers E k chunks" and "smap_wf (sv_end_msgs s)"
    and "pending (peer k) k chunks s = m # ms"
    and "\<And>s'. read_only (peer k) s s' \<Longrightarrow> pending (peer k) k chunks s' = ms \<Longrightarrow> Q m s'"
  shows "wp (server_try_reading E k) Q R s"
proof -
  let ?e = "peer k" and ?M = "sv_end_msgs s"
  let ?q = "smap_get [] ?M ?e"
  have k: "remote_ep E t k = Some ?e" for t
    using connectedD [OF assms(1)] by simp
  show ?thesis
  proof (cases ?q)
    case (Cons x q)
    let ?s' = "s\<lparr>sv_end_msgs := smap_put ?e q (smap_index [] ?e ?M), trace := trace s @ [Ev_remote k]\<rparr>"
    from Cons assms(4) have "m = x" "ms = q @ concat (drop (reads_of k (trace s)) chunks)"
      by (simp_all add: pending_def)
    moreover have "read_only ?e s ?s'"
      unfolding read_only_def
      by (intro exI [of _ "smap_put ?e q (smap_index [] ?e ?M)"] exI [of _ "[Ev_remote k]"])
        (use assms(3) in auto)
    moreover have "pending ?e k chunks ?s' = q @ concat (drop (reads_of k (trace s)) chunks)"
      by (simp add: pending_def)
    ultimately have "Q m ?s'" using assms(5) by blast
    with Cons \<open>m = x\<close> k show ?thesis
      by (simp add: server_try_reading_def wp_simps remote_endpoint_def try_reading_from_sock_def
          pop_front_def)
  next
    case Nil
    let ?t = "trace s @ [Ev_remote k]" and ?i = "reads_of k (trace s)"
    have left: "concat (drop ?i chunks) = m # ms" using assms(4) Nil by (simp add: pending_def)
    then have i: "?i < length chunks" by (metis concat.simps(1) drop_all not_le list.distinct(1))
    note rd = delivers_read [OF assms(2), of ?t]
    obtain q where q: "chunks ! ?i = m # q" "ms = q @ concat (drop (Suc ?i) chunks)"
      using rd(4) i left by (cases "chunks ! ?i") (auto simp: Cons_nth_drop_Suc [symmetric])
    let ?s' = "s\<lparr>sv_end_msgs := smap_put ?e q (smap_index [] ?e ?M), trace := trace s @ [Ev_remote k, Ev_read k]\<rparr>"
    have "read_only ?e s ?s'"
      unfolding read_only_def
      by (intro exI [of _ "smap_put ?e q (smap_index [] ?e ?M)"] exI [of _ "[Ev_remote k, Ev_read k]"])
        (use assms(3) in auto)
    moreover have "pending ?e k chunks ?s' = ms"
      by (simp add: pending_def q)
    ultimately have "Q m ?s'" using assms(5) by blast
    moreover have "length (read_some E (trace (s\<lparr>sv_end_msgs := smap_index [] ?e ?M, trace := ?t\<rparr>)) k) < BUFF_SIZE"
      using rd(2) i by simp
    ultimately show ?thesis
      using rd(3) i q(1) k Nil
      by (simp add: server_try_reading_def wp_simps remote_endpoint_def try_reading_from_sock_def
          wp_read_messages pop_front_def)
  qed
qed

section \<open>Registering\<close>

lemma read_only_trans: "read_only e s s1 \<Longrightarrow> read_only e s1 s2 \<Longrightarrow> read_only e s s2"
  unfolding read_only_def
  by (elim exE conjE, rule_tac x = ma in exI, rule_tac x = "t @ ta" in exI) simp

lemma read_only_wf: "read_only e s s' \<Longrightarrow> smap_wf (sv_end_msgs s')"
  by (auto simp: read_only_def)

text \<open>The state after the registration lines were read, answered by the events \<open>t\<close>.\<close>

lemma pending_quiet [simp]:
  "reads t = [] \<Longrightarrow> pending e k chunks (s\<lparr>trace := trace s @ t\<rparr>) = pending e k chunks s"
  by (simp add: pending_def)

definition registration_lines :: "string \<Rightarrow> string \<Rightarrow> string \<Rightarrow> string \<Rightarrow> string list" where
  "registration_lines n u r p = [''NICK '' @ n, ''USER '' @ u @ '' * * :'' @ r, ''PASS '' @ p]"

definition reply_of :: "bool \<Rightarrow> string \<times> string" where
  "reply_of ok = (if ok then (RPL_WELCOME, '':Welcome to the Internet Relay Network'')
     else (ERR_PASSWDMISMATCH, '':Password incorrect''))"

definition login_statements :: "env \<Rightarrow> bool \<Rightarrow> endpoint \<Rightarrow> string \<Rightarrow> string \<Rightarrow> string list" where
  "login_statements E ok e n d =
     (if ok then [q_now, q_insertLogin E (address_text E e) (to_string (unat (ep_port e))) d n] else [])"

text \<open>The part of \<open>register_session\<close> after the lines: answer the user with endpoint \<open>e\<close>.\<close>

lemma wp_answer:
  assumes "steady E peer {k}" and "\<forall>t. local_ep E t k = Some loc" and "db_up E"
    and "\<And>t d. sent t = [(k, welcome_msg (address_text E loc) (fst (reply_of ok)) (u_nick client)
          (snd (reply_of ok)) un (address_text E (peer k)))] \<Longrightarrow>
        executed t = map (Pair c) (login_statements E ok (peer k) (u_nick client) d) \<Longrightarrow> reads t = [] \<Longrightarrow>
        Q (client, ok) (s\<lparr>trace := trace s @ t\<rparr>)"
  shows "wp (bindE (if \<not> ok then ret (ERR_PASSWDMISMATCH, '':Password incorrect'')
            else bindE (remote_endpoint E k) (\<lambda>e'.
                   thenE (insertLogin E c (u_nick client) e')
                     (ret (RPL_WELCOME, '':Welcome to the Internet Relay Network''))))
       (\<lambda>(replyCode, replyMessage).
     bindE (remote_endpoint E k) (\<lambda>rem.
     bindE (local_endpoint E k) (\<lambda>loc.
     thenE (server_try_writing E k
              (welcome_msg (address_text E loc) replyCode (u_nick client) replyMessage un
                 (address_text E rem)))
       (ret (client, ok)))))) Q R s"
proof -
  have k: "remote_ep E t k = Some (peer k)" "write_ec E t k m = False" for t m
    using steadyD [OF assms(1), of k] by auto
  let ?msg = "welcome_msg (address_text E loc) (fst (reply_of ok)) (u_nick client)
          (snd (reply_of ok)) un (address_text E (peer k))"
  have crlf: "ends_crlf ?msg" "\<not> length ?msg < 2" by (simp_all add: welcome_msg_def)
  have last: "wp (bindE (remote_endpoint E k) (\<lambda>rem.
     bindE (local_endpoint E k) (\<lambda>loc.
     thenE (server_try_writing E k
              (welcome_msg (address_text E loc) (fst (reply_of ok)) (u_nick client) (snd (reply_of ok)) un
                 (address_text E rem)))
       (ret (client, ok))))) Q R (s\<lparr>trace := trace s @ t\<rparr>)"
    if "sent t = []" "executed t = map (Pair c) (login_statements E ok (peer k) (u_nick client) d)"
      "reads t = []" for t d
    using that k crlf assms(2) assms(4) [of "t @ [Ev_remote k, Ev_local k, Ev_write k ?msg]" d]
    by (simp add: wp_simps remote_endpoint_def local_endpoint_def server_try_writing_def
        wp_def [of "try_writing_to_sock E k ?msg"] try_writing_cases)
  show ?thesis
  proof (cases ok)
    case False
    with last [of "[]"] show ?thesis by (simp add: wp_simps reply_of_def login_statements_def)
  next
    case True
    let ?s = "s\<lparr>trace := trace s @ [Ev_remote k]\<rparr>"
    have "wp (insertLogin E c (u_nick client) (peer k)) (\<lambda>_. wp (bindE (remote_endpoint E k) (\<lambda>rem.
     bindE (local_endpoint E k) (\<lambda>loc.
     thenE (server_try_writing E k
              (welcome_msg (address_text E loc) (fst (reply_of ok)) (u_nick client) (snd (reply_of ok)) un
                 (address_text E rem)))
       (ret (client, ok))))) Q R) R ?s"
    proof (rule wp_insertLogin [OF assms(3)], goal_cases)
      case (1 d t)
      with last [of "Ev_remote k # t" d] True show ?case by (simp add: login_statements_def)
    qed
    with True show ?thesis
      by (simp add: wp_bind wp_eta reply_of_def)
        (rule wp_remote_endpoint [OF steady_connected [OF assms(1)]], simp_all)
  qed
qed

lemma wp_three_reads:
  assumes "connected E peer {k}" and "delivers E k chunks" and "smap_wf (sv_end_msgs s)"
    and "pending (peer k) k chunks s = l1 # l2 # l3 # ms"
    and "A l1 = Inr a" and "\<And>F s'. wp (B l2) F R s' = F b s'"
    and "\<And>s3. read_only (peer k) s s3 \<Longrightarrow> pending (peer k) k chunks s3 = ms \<Longrightarrow> wp (C a b l3) Q R s3"
  shows "wp (bindE (server_try_reading E k) (\<lambda>m. bindE (lift (A m)) (\<lambda>a.
     bindE (server_try_reading E k) (\<lambda>m. bindE (B m) (\<lambda>b.
     bindE (server_try_reading E k) (C a b)))))) Q R s"
  unfolding wp_bind
proof (rule wp_server_read [OF assms(1-4)], goal_cases)
  case rd1: (1 s1)
  show ?case
    unfolding wp_lift assms(5) sum.case wp_bind
  proof (rule wp_server_read [OF assms(1,2) read_only_wf [OF rd1(1)] rd1(2)], goal_cases)
    case rd2: (1 s2)
    show ?case
      unfolding assms(6) wp_bind
    proof (rule wp_server_read [OF assms(1,2) read_only_wf [OF rd2(1)] rd2(2)], goal_cases)
      case rd3: (1 s3)
      show ?case
        using read_only_trans [OF read_only_trans [OF rd1(1) rd2(1)] rd3(1)] rd3(2) by (rule assms(7))
    qed
  qed
qed

lemma wp_register_session:
  assumes "steady E peer {k}" and "\<forall>t. local_ep E t k = Some loc" and "db_up E"
    and "delivers E k chunks" and "smap_wf (sv_end_msgs s)"
    and "pending (peer k) k chunks s = registration_lines n u r p @ ms"
    and "separated '' * * :'' [''USER '' @ u, r]"
    and "hashPassword E p = Inr (success, h)" and "account E n acc"
    and "\<And>s1 t d. read_only (peer k) s s1 \<Longrightarrow> pending (peer k) k chunks s1 = ms \<Longrightarrow>
        sent t = [(k, welcome_msg (address_text E loc) (fst (reply_of (accepts acc h))) n
          (snd (reply_of (accepts acc h))) u (address_text E (peer k)))] \<Longrightarrow>
        executed t = map (Pair (sv_conn s)) (user_statements E acc (set_endpoint (peer k) (user4 n u r h))
          @ login_statements E (accepts acc h) (peer k) n d) \<Longrightarrow> reads t = [] \<Longrightarrow>
        Q (set_endpoint (peer k) (user4 n u r h), accepts acc h) (s1\<lparr>trace := trace s1 @ t\<rparr>)"
  shows "wp (register_session E k) Q R s"
proof -
  let ?client = "set_endpoint (peer k) (user4 n u r h)"
  note con = steady_connected [OF assms(1)]
  have client [simp]: "u_nick ?client = n" "u_pass ?client = h"
    by (simp_all add: set_endpoint_def user4_def)
  have "pieces '' * * :'' (''USER '' @ u @ '' * * :'' @ r) = [''USER '' @ u, r]"
    using pieces_join [OF _ assms(7)] by simp
  then have split: "wp (split_msg (''USER '' @ u @ '' * * :'' @ r) '' * * :'') F R s' = F [''USER '' @ u, r] s'"
    for F and s' :: server
    using wp_split_msg [of "'' * * :''" "''USER '' @ u @ '' * * :'' @ r" F R s'] by simp
  have cut: "substr (''NICK '' @ n) 5 = Inr n" "substr (''PASS '' @ p) 5 = Inr p"
    "substr (''USER '' @ u) 5 = Inr u"
    by (simp_all add: substr_def)
  have lines: "pending (peer k) k chunks s
      = (''NICK '' @ n) # (''USER '' @ u @ '' * * :'' @ r) # (''PASS '' @ p) # ms"
    using assms(6) by (simp add: registration_lines_def)
  show ?thesis
    unfolding register_session_def
  proof (rule wp_three_reads [where A = "\<lambda>m. substr m 5" and B = "\<lambda>m. split_msg m '' * * :''",
        OF con assms(4,5) lines cut(1) split], goal_cases)
    case rd: (1 s3)
    have same: "sv_conn s3 = sv_conn s" using rd(1) by (auto simp: read_only_def)
    show ?case
      unfolding wp_lift cut assms(8) sum.case prod.case list.sel last.simps wp_bind Let_def
    proof (simp add: wp_bind wp_lift cut same, rule wp_remote_endpoint [OF con], simp,
        simp add: wp_bind wp_gets same, rule wp_handleUser [OF assms(3), where r = acc], goal_cases)
      case 1
      show ?case using assms(9) by simp
    next
      case hu: (2 t)
      show ?case
        unfolding client wp_bind [symmetric]
      proof (rule wp_answer [OF assms(1-3), where client = ?client, unfolded client], goal_cases)
        case (1 t' d)
        have "Q (?client, accepts acc h) (s3\<lparr>trace := trace s3 @ [Ev_remote k] @ t @ t'\<rparr>)"
          by (rule assms(10) [OF rd, where d = d]) (use 1 hu in \<open>simp_all add: same\<close>)
        then show ?case by simp
      qed
    qed
  qed
qed

section \<open>Handing over and starting a thread\<close>

lemma wp_owning: "wp m Q (\<lambda>_ _. False) s \<Longrightarrow> wp (owning k m) Q R s"
  by (auto simp: wp_def owning_def split: sum.splits prod.splits)

lemma read_only_fields:
  assumes "read_only e s s'"
  shows "chan_newusers s' = chan_newusers s" and "global_socks s' = global_socks s"
    and "sv_notify s' = sv_notify s" and "flags s' = flags s" and "sv_threads s' = sv_threads s"
    and "sv_conn s' = sv_conn s" and "sv_config s' = sv_config s"
    and "selfdestruct s' = selfdestruct s" and "the_notifier s' = the_notifier s"
  using assms by (auto simp: read_only_def the_notifier_def)

lemma wp_hand_over:
  assumes "connected E peer {k}"
    and "\<And>t. sent t = [] \<Longrightarrow> executed t = [] \<Longrightarrow> reads t = [] \<Longrightarrow>
        Q () (s\<lparr>sv_end_msgs := smap_erase (peer k) (smap_index [] (peer k) (sv_end_msgs s)),
          chan_newusers := smap_put (u_chan u) (smap_get [] (chan_newusers s) (u_chan u)
            @ [(u, smap_get [] (sv_end_msgs s) (peer k))]) (chan_newusers s),
          global_socks := global_socks s @ [k], trace := trace s @ t\<rparr>)"
  shows "wp (hand_over E u k) Q R s"
proof -
  have k: "remote_ep E t k = Some (peer k)" for t
    using connectedD [OF assms(1)] by simp
  let ?m = "smap_erase (peer k) (smap_index [] (peer k) (sv_end_msgs s))"
  let ?w = "smap_put (u_chan u) (smap_get [] (chan_newusers s) (u_chan u)
            @ [(u, smap_get [] (sv_end_msgs s) (peer k))]) (chan_newusers s)"
  have swap: "s\<lparr>sv_end_msgs := ?m, trace := t, chan_newusers := ?w, global_socks := g\<rparr>
      = s\<lparr>sv_end_msgs := ?m, chan_newusers := ?w, global_socks := g, trace := t\<rparr>" for t g
    by (cases s) simp
  from k assms(2) [of "[Ev_remote k, Ev_remote k]"] show ?thesis
    by (simp add: hand_over_def wp_simps remote_endpoint_def update_comm_structs_def swap)
qed

lemma wp_notify_update:
  assumes "notifier_ok (the_notifier s)"
    and "\<And>n. notifier_update c (the_notifier s) = Inr n \<Longrightarrow> Q () (set_notifier n s)"
  shows "wp (notify_update c) Q R s"
proof -
  obtain n where "notifier_update c (the_notifier s) = Inr n"
    using notify_board.upd_total [OF assms(1)] by blast
  with assms(2) show ?thesis by (simp add: notify_update_def wp_simps)
qed

lemma the_notifier_set [simp]: "the_notifier (set_notifier n s) = n"
  by (simp add: the_notifier_def set_notifier_def)

lemma the_notifier_frame [simp]:
  "the_notifier (s\<lparr>sv_threads := th, trace := t\<rparr>) = the_notifier s"
  by (simp add: the_notifier_def)

lemma set_notifier_same [simp]: "set_notifier (the_notifier s) s = s"
  by (cases s) (simp add: the_notifier_def set_notifier_def)

text \<open>The database's answers for a channel, whose stored topic is \<open>r\<close> (\<open>None\<close>: no such channel).\<close>

definition channel_row :: "env \<Rightarrow> string \<Rightarrow> string \<Rightarrow> string option \<Rightarrow> bool" where
  "channel_row E server chan r \<longleftrightarrow>
     (\<forall>t c. \<exists>f. exec_sql E t c (q_checkChannelExists E chan server) = Some [[f]]
        \<and> field_bool E f = Some (r \<noteq> None))
     \<and> (\<forall>p t c. r = Some p \<longrightarrow> exec_sql E t c (q_getChannelTopic E chan server) = Some [[Some p]])"

definition channel_statements :: "env \<Rightarrow> server_config \<Rightarrow> string \<Rightarrow> string option \<Rightarrow> string list" where
  "channel_statements E cfg chan r =
     [q_checkChannelExists E chan (defaultName cfg),
      if r = None then q_insertChannel E chan (defaultTopic cfg) (defaultName cfg)
      else q_getChannelTopic E chan (defaultName cfg)]"

definition topic_at_start :: "server_config \<Rightarrow> string option \<Rightarrow> string" where
  "topic_at_start cfg r = (case r of None \<Rightarrow> defaultTopic cfg | Some t \<Rightarrow> t)"

lemma wp_checkChannelExists:
  assumes "db_up E" and "channel_row E server chan r"
    and "\<And>t. sent t = [] \<Longrightarrow> executed t = [(c, q_checkChannelExists E chan server)] \<Longrightarrow> reads t = [] \<Longrightarrow>
        Q (r \<noteq> None) (s\<lparr>trace := trace s @ t\<rparr>)"
  shows "wp (checkChannelExists E c chan server) Q R s"
  unfolding checkChannelExists_def wp_bind
proof (rule wp_run_query [OF assms(1)])
  fix rs t
  assume rs: "exec_sql E (trace s @ [Ev_begin c]) c (q_checkChannelExists E chan server) = Some rs"
    and t: "t = [Ev_begin c, Ev_exec c (q_checkChannelExists E chan server), Ev_commit c]"
  obtain f where "rs = [[f]]" "field_bool E f = Some (r \<noteq> None)"
    using assms(2) rs unfolding channel_row_def by (metis option.inject)
  with assms(3) [of t] t show "wp (cell_bool E rs) Q R (s\<lparr>trace := trace s @ t\<rparr>)"
    by (simp add: cell_bool_def cell_def wp_simps)
qed

lemma wp_channel_topic:
  assumes "db_up E" and "channel_row E (defaultName cfg) chan r"
    and "\<And>t. sent t = [] \<Longrightarrow> executed t = map (Pair c) (channel_statements E cfg chan r) \<Longrightarrow>
        Q (topic_at_start cfg r) (s\<lparr>trace := trace s @ t\<rparr>)"
  shows "wp (bindE (checkChannelExists E c chan (defaultName cfg)) (\<lambda>channel_exists.
     if channel_exists then getChannelTopic E c chan (defaultName cfg)
     else thenE (insertChannel E c chan (defaultTopic cfg) (defaultName cfg)) (ret (defaultTopic cfg)))) Q R s"
  unfolding wp_bind
proof (rule wp_checkChannelExists [OF assms(1,2)])
  fix t
  assume t: "sent t = []" "executed t = [(c, q_checkChannelExists E chan (defaultName cfg))]"
  let ?s = "s\<lparr>trace := trace s @ t\<rparr>"
  show "wp (if r \<noteq> None then getChannelTopic E c chan (defaultName cfg)
      else thenE (insertChannel E c chan (defaultTopic cfg) (defaultName cfg)) (ret (defaultTopic cfg))) Q R ?s"
  proof (cases r)
    case None
    have "wp (insertChannel E c chan (defaultTopic cfg) (defaultName cfg)) (\<lambda>_. Q (defaultTopic cfg)) R ?s"
      unfolding insertChannel_def
    proof (rule wp_run_statement [OF assms(1)], goal_cases)
      case (1 t')
      with t None assms(3) [of "t @ t'"] show ?case
        by (simp add: channel_statements_def topic_at_start_def)
    qed
    with None show ?thesis by (simp add: wp_simps wp_eta)
  next
    case (Some p)
    let ?q = "q_getChannelTopic E chan (defaultName cfg)"
    have "wp (getChannelTopic E c chan (defaultName cfg)) Q R ?s"
      unfolding getChannelTopic_def wp_bind
    proof (rule wp_run_query [OF assms(1)])
      fix rs t'
      assume rs: "exec_sql E (trace ?s @ [Ev_begin c]) c ?q = Some rs"
        and t': "t' = [Ev_begin c, Ev_exec c ?q, Ev_commit c]"
      have "rs = [[Some p]]" using assms(2) rs Some by (simp add: channel_row_def)
      with t t' Some assms(1) assms(3) [of "t @ t'"]
      show "wp (cell_string E rs 0) Q R (?s\<lparr>trace := trace ?s @ t'\<rparr>)"
        by (simp add: cell_string_def cell_def wp_simps db_upD channel_statements_def topic_at_start_def)
    qed
    with Some show ?thesis by simp
  qed
qed

lemma wp_start_channel:
  assumes "db_up E" and "channel_row E (defaultName (sv_config s)) chan r"
    and "smap_find (sv_notify s) chan \<noteq> None"
    and "\<And>t. sent t = [] \<Longrightarrow> executed t = map (Pair (sv_conn s)) (channel_statements E (sv_config s) chan r) \<Longrightarrow>
        Q () (s\<lparr>sv_threads := smap_put chan
          \<lparr>ta_server = defaultName (sv_config s), ta_channel = chan,
           ta_topic = topic_at_start (sv_config s) r, ta_notify = smap_get None (sv_notify s) chan\<rparr>
          (sv_threads s), trace := trace s @ t\<rparr>)"
  shows "wp (start_channel E chan) Q R s"
proof -
  let ?cfg = "sv_config s" and ?c = "sv_conn s"
  have same: "pass_ptr chan (the_notifier (s\<lparr>trace := T\<rparr>))
      = (smap_get None (sv_notify s) chan, the_notifier (s\<lparr>trace := T\<rparr>))" for T
    using pass_ptr_known [of "the_notifier s" chan] assms(3)
    by (simp add: the_notifier_def pass_ptr_def)
  have swap: "s\<lparr>trace := T, sv_threads := m\<rparr> = s\<lparr>sv_threads := m, trace := T\<rparr>" for T m
    by (cases s) simp
  let ?rest = "\<lambda>channelTopic. bindE (notify_pass_ptr chan) (\<lambda>p.
       update (\<lambda>s. s\<lparr>sv_threads := smap_put chan
         \<lparr>ta_server = defaultName ?cfg, ta_channel = chan, ta_topic = channelTopic, ta_notify = p\<rparr>
         (sv_threads s)\<rparr>))"
  have "wp (bindE (checkChannelExists E ?c chan (defaultName ?cfg)) (\<lambda>channel_exists.
     if channel_exists then getChannelTopic E ?c chan (defaultName ?cfg)
     else thenE (insertChannel E ?c chan (defaultTopic ?cfg) (defaultName ?cfg))
       (ret (defaultTopic ?cfg)))) (\<lambda>x. wp (?rest x) Q R) R s"
  proof (rule wp_channel_topic [OF assms(1,2)], goal_cases)
    case (1 t)
    with assms(4) [OF 1] show ?case
      by (simp add: notify_pass_ptr_def wp_simps same swap)
  qed
  then show ?thesis
    by (simp add: start_channel_def wp_bind wp_gets wp_eta)
qed

section \<open>One pass of the main loop\<close>

text \<open>A connection whose client registers as \<open>n\<close> and joins \<open>chan\<close>, then sends \<open>ms\<close>.\<close>

record arrival =
  ar_sock :: sock
  ar_nick :: string
  ar_user :: string
  ar_real :: string
  ar_pass :: string
  ar_chan :: string
  ar_more :: "string list"

definition arrival_lines :: "arrival \<Rightarrow> string list" where
  "arrival_lines a = registration_lines (ar_nick a) (ar_user a) (ar_real a) (ar_pass a)
     @ (''JOIN '' @ ar_chan a) # ar_more a"

definition arrives ::
  "env \<Rightarrow> (sock \<Rightarrow> endpoint) \<Rightarrow> endpoint \<Rightarrow> string list list \<Rightarrow> arrival \<Rightarrow> server \<Rightarrow> bool" where
  "arrives E peer loc chunks a s \<longleftrightarrow>
     accept_sock E (trace s) = Accepted (ar_sock a) \<and> (\<forall>t. set_option_ok E t (ar_sock a))
     \<and> steady E peer {ar_sock a} \<and> (\<forall>t. local_ep E t (ar_sock a) = Some loc)
     \<and> delivers E (ar_sock a) chunks
     \<and> pending (peer (ar_sock a)) (ar_sock a) chunks s = arrival_lines a
     \<and> separated '' * * :'' [''USER '' @ ar_user a, ar_real a]"

definition client_of :: "(sock \<Rightarrow> endpoint) \<Rightarrow> arrival \<Rightarrow> string \<Rightarrow> user" where
  "client_of peer a h =
     set_endpoint (peer (ar_sock a)) (user4 (ar_nick a) (ar_user a) (ar_real a) h)"

definition answer_to :: "env \<Rightarrow> (sock \<Rightarrow> endpoint) \<Rightarrow> endpoint \<Rightarrow> arrival \<Rightarrow> bool \<Rightarrow> string" where
  "answer_to E peer loc a ok =
     welcome_msg (address_text E loc) (fst (reply_of ok)) (ar_nick a) (snd (reply_of ok)) (ar_user a)
       (address_text E (peer (ar_sock a)))"

text \<open>What \<open>register_session\<close> leaves to the rest of \<open>inner_scope_run\<close>.\<close>

lemma wp_inner_register:
  assumes "arrives E peer loc chunks a s" and "db_up E" and "smap_wf (sv_end_msgs s)"
    and "hashPassword E (ar_pass a) = Inr (success, h)" and "account E (ar_nick a) acc"
    and "\<And>s1 t d. read_only (peer (ar_sock a)) (s\<lparr>trace := trace s @ [Ev_accept, Ev_set_option (ar_sock a)]\<rparr>) s1 \<Longrightarrow>
        pending (peer (ar_sock a)) (ar_sock a) chunks s1 = (''JOIN '' @ ar_chan a) # ar_more a \<Longrightarrow>
        sent t = [(ar_sock a, answer_to E peer loc a (accepts acc h))] \<Longrightarrow>
        executed t = map (Pair (sv_conn s)) (user_statements E acc (client_of peer a h)
          @ login_statements E (accepts acc h) (peer (ar_sock a)) (ar_nick a) d) \<Longrightarrow> reads t = [] \<Longrightarrow>
        Q (client_of peer a h, accepts acc h) (s1\<lparr>trace := trace s1 @ t\<rparr>)"
  shows "wp (thenE (set_keep_alive E (ar_sock a)) (register_session E (ar_sock a))) Q R
    (s\<lparr>trace := trace s @ [Ev_accept]\<rparr>)"
proof -
  let ?k = "ar_sock a"
  let ?s = "s\<lparr>trace := trace s @ [Ev_accept, Ev_set_option ?k]\<rparr>"
  note a = assms(1) [unfolded arrives_def arrival_lines_def]
  have "wp (register_session E ?k) Q R ?s"
  proof (rule wp_register_session [where E = E and peer = peer and k = ?k and loc = loc and s = ?s
        and chunks = chunks and n = "ar_nick a" and u = "ar_user a" and r = "ar_real a" and p = "ar_pass a"
        and ms = "(''JOIN '' @ ar_chan a) # ar_more a" and h = h and acc = acc and success = success], goal_cases)
    case 6
    then show ?case using a by (simp add: pending_def reads_of_def)
  next
    case (10 s1 t d)
    then show ?case
      using assms(6) [of s1 t d] by (simp add: client_of_def answer_to_def)
  qed (use a assms(2-5) in simp_all)
  with a show ?thesis
    by (simp add: wp_simps set_keep_alive_def)
qed

lemma wp_then_bind_assoc:
  "wp (thenE m (bindE n f)) Q R s = wp (thenE m n) (\<lambda>x. wp (f x) Q R) R s"
  by (simp add: wp_simps wp_eta)

text \<open>The end of \<open>inner_scope_run\<close>, after the user has been handed over.\<close>

lemma wp_announce:
  assumes "notifier_ok (the_notifier s)" and "db_up E"
    and "channel_row E (defaultName (sv_config s)) chan r"
    and "\<And>s'. chan_newusers s' = chan_newusers s \<Longrightarrow> global_socks s' = global_socks s \<Longrightarrow>
        sv_end_msgs s' = sv_end_msgs s \<Longrightarrow>
        notifier_update chan (the_notifier s) = Inr (the_notifier s') \<Longrightarrow>
        sv_threads s' = (if smap_count (sv_threads s) chan then sv_threads s
          else smap_put chan \<lparr>ta_server = defaultName (sv_config s), ta_channel = chan,
             ta_topic = topic_at_start (sv_config s) r, ta_notify = smap_get None (sv_notify s') chan\<rparr>
           (sv_threads s)) \<Longrightarrow>
        \<exists>t. trace s' = trace s @ t \<and> sent t = [] \<Longrightarrow> Q () s'"
  shows "wp (thenE (notify_update chan) (bindE (gets (\<lambda>s. smap_count (sv_threads s) chan))
      (\<lambda>running. if running then ret () else start_channel E chan))) Q R s"
  unfolding wp_then
proof (rule wp_notify_update [OF assms(1)])
  fix n
  assume n: "notifier_update chan (the_notifier s) = Inr n"
  let ?s = "set_notifier n s"
  have fields: "chan_newusers ?s = chan_newusers s" "global_socks ?s = global_socks s"
    "sv_end_msgs ?s = sv_end_msgs s" "sv_threads ?s = sv_threads s" "trace ?s = trace s"
    "sv_config ?s = sv_config s" "sv_notify ?s = flag_map n"
    by (simp_all add: set_notifier_def)
  have known: "smap_find (sv_notify ?s) chan \<noteq> None"
    using notifier_update_known [OF n] by (simp add: fields)
  show "wp (bindE (gets (\<lambda>s. smap_count (sv_threads s) chan))
      (\<lambda>running. if running then ret () else start_channel E chan)) Q R ?s"
  proof (cases "smap_count (sv_threads s) chan")
    case True
    then have "Q () ?s" using n by (intro assms(4)) (simp_all add: fields)
    with True show ?thesis by (simp add: wp_simps fields)
  next
    case False
    have "wp (start_channel E chan) Q R ?s"
    proof (rule wp_start_channel [OF assms(2) _ known, where r = r], goal_cases)
      case 1
      show ?case using assms(3) by (simp add: fields)
    next
      case (2 t)
      show ?case
        by (rule assms(4)) (use 2 n False in \<open>simp_all add: fields\<close>)
    qed
    with False show ?thesis by (simp add: wp_simps fields)
  qed
qed

lemma inner_scope_run_accepted:
  assumes "accept_sock E (trace s) = Accepted k"
  shows "wp (inner_scope_run E) Q R s = wp (owning k (
             thenE (set_keep_alive E k)
            (bindE (register_session E k) (\<lambda>(client, success).
               if \<not> success then ret None
               else bindE (get_channel_name E k) (\<lambda>channel.
                 thenE (hand_over E (set_channel channel client) k) (ret (Some channel)))))))
       (\<lambda>handed. wp (case handed of
                 None \<Rightarrow> close_sock k
               | Some channel \<Rightarrow>
                   thenE (notify_update channel)
                  (bindE (gets (\<lambda>s. smap_count (sv_threads s) channel)) (\<lambda>running.
                     if running then ret () else start_channel E channel))) Q R) R
       (s\<lparr>trace := trace s @ [Ev_accept]\<rparr>)"
  using assms by (simp add: inner_scope_run_def wp_simps)

text \<open>The state \<open>s'\<close> is \<open>s\<close> after user \<open>u\<close> with connection \<open>k\<close> has been handed over to its channel.\<close>

definition handed_on :: "endpoint \<Rightarrow> sock \<Rightarrow> user \<Rightarrow> string \<Rightarrow> string list \<Rightarrow> server \<Rightarrow> server \<Rightarrow> bool" where
  "handed_on e k u topic tmp s s' \<longleftrightarrow>
     (\<exists>t. trace s' = trace s @ t \<and> sent t = [])
     \<and> chan_newusers s' = smap_put (u_chan u) (smap_get [] (chan_newusers s) (u_chan u) @ [(u, tmp)])
         (chan_newusers s)
     \<and> global_socks s' = global_socks s @ [k] \<and> smap_find (sv_end_msgs s') e = None
     \<and> notifier_update (u_chan u) (the_notifier s) = Inr (the_notifier s')
     \<and> sv_threads s' = (if smap_count (sv_threads s) (u_chan u) then sv_threads s
         else smap_put (u_chan u) \<lparr>ta_server = defaultName (sv_config s), ta_channel = u_chan u,
           ta_topic = topic, ta_notify = smap_get None (sv_notify s') (u_chan u)\<rparr> (sv_threads s))"

lemma u_chan_set_channel: "u_chan (set_channel c u) = c"
  by (simp add: set_channel_def)

lemma wp_hand_and_announce:
  assumes "connected E peer {k}" and "db_up E" and "notifier_ok (the_notifier s)"
    and "smap_wf (sv_end_msgs s)" and "channel_row E (defaultName (sv_config s)) (u_chan u) row"
    and "\<And>s'. handed_on (peer k) k u (topic_at_start (sv_config s) row)
           (smap_get [] (sv_end_msgs s) (peer k)) s s' \<Longrightarrow> Q () s'"
  shows "wp (hand_over E u k) (\<lambda>_. wp (thenE (notify_update (u_chan u))
      (bindE (gets (\<lambda>s. smap_count (sv_threads s) (u_chan u)))
        (\<lambda>running. if running then ret () else start_channel E (u_chan u)))) Q R) R s"
proof (rule wp_hand_over [OF assms(1)], goal_cases)
  case (1 t)
  let ?e = "peer k"
  let ?s = "s\<lparr>sv_end_msgs := smap_erase ?e (smap_index [] ?e (sv_end_msgs s)),
    chan_newusers := smap_put (u_chan u) (smap_get [] (chan_newusers s) (u_chan u)
      @ [(u, smap_get [] (sv_end_msgs s) ?e)]) (chan_newusers s),
    global_socks := global_socks s @ [k], trace := trace s @ t\<rparr>"
  have n: "the_notifier ?s = the_notifier s" by (simp add: the_notifier_def)
  show ?case
  proof (rule wp_announce [OF _ assms(2), where r = row], goal_cases)
    case (3 s')
    obtain t' where "trace s' = trace ?s @ t'" "sent t' = []" using 3(6) by blast
    with 3(1-5) 1(1) n assms(4) show ?case
      by (intro assms(6)) (simp add: handed_on_def)
  qed (use n assms(3,5) in simp_all)
qed

text \<open>An accepted user names its channel, is handed over, and the channel is told.\<close>

lemma wp_name_and_hand:
  assumes "connected E peer {k}" and "db_up E" and "delivers E k chunks" and "smap_wf (sv_end_msgs s)"
    and "pending (peer k) k chunks s = (''JOIN '' @ c) # ms" and "notifier_ok (the_notifier s)"
    and "channel_row E (defaultName (sv_config s)) c row"
    and "\<And>s1 s' tmp. read_only (peer k) s s1 \<Longrightarrow> ms = tmp @ concat (drop (reads_of k (trace s1)) chunks) \<Longrightarrow>
           handed_on (peer k) k (set_channel c u) (topic_at_start (sv_config s) row) tmp s1 s' \<Longrightarrow> Q () s'"
  shows "wp (bindE (get_channel_name E k) (\<lambda>channel.
        thenE (hand_over E (set_channel channel u) k) (ret (Some channel))))
      (\<lambda>handed. wp (case handed of
          None \<Rightarrow> close_sock k
        | Some channel \<Rightarrow> thenE (notify_update channel)
           (bindE (gets (\<lambda>s. smap_count (sv_threads s) channel)) (\<lambda>running.
              if running then ret () else start_channel E channel))) Q R) R s"
  unfolding get_channel_name_def wp_bind
proof (rule wp_server_read [OF assms(1,3-5)])
  fix s1 :: server
  assume s1: "read_only (peer k) s s1" "pending (peer k) k chunks s1 = ms"
  have f: "sv_config s1 = sv_config s" "the_notifier s1 = the_notifier s"
    using read_only_fields [OF s1(1)] by (simp_all add: the_notifier_def)
  have "wp (hand_over E (set_channel c u) k) (\<lambda>_. wp (thenE (notify_update c)
      (bindE (gets (\<lambda>s. smap_count (sv_threads s) c))
        (\<lambda>running. if running then ret () else start_channel E c))) Q R) R s1"
  proof (rule wp_hand_and_announce [OF assms(1,2), where u = "set_channel c u", unfolded u_chan_set_channel])
    show "Q () s'" if "handed_on (peer k) k (set_channel c u) (topic_at_start (sv_config s1) row)
        (smap_get [] (sv_end_msgs s1) (peer k)) s1 s'" for s'
      using that s1 f by (intro assms(8) [OF s1(1)]) (auto simp: pending_def)
  qed (use f assms(6,7) read_only_wf [OF s1(1)] in simp_all)
  then show "wp (lift (substr (''JOIN '' @ c) 5)) (\<lambda>channel.
      wp (thenE (hand_over E (set_channel channel u) k) (ret (Some channel)))
        (\<lambda>handed. wp (case handed of
            None \<Rightarrow> close_sock k
          | Some channel \<Rightarrow> thenE (notify_update channel)
             (bindE (gets (\<lambda>s. smap_count (sv_threads s) channel)) (\<lambda>running.
                if running then ret () else start_channel E channel))) Q R) R) R s1"
    by (simp add: wp_lift substr_def wp_then wp_eta)
qed

lemma inner_run_success:
  assumes "arrives E peer loc chunks a s" and "db_up E" and "smap_wf (sv_end_msgs s)"
    and "hashPassword E (ar_pass a) = Inr (success, h)" and "account E (ar_nick a) acc"
    and "accepts acc h" and "notifier_ok (the_notifier s)"
    and "channel_row E (defaultName (sv_config s)) (ar_chan a) row"
  obtains s' tmp rest t n where "inner_scope_run E s = (Inr (), s')"
    and "trace s' = trace s @ t" and "sent t = [(ar_sock a, answer_to E peer loc a True)]"
    and "chan_newusers s' = smap_put (ar_chan a) (smap_get [] (chan_newusers s) (ar_chan a)
          @ [(set_channel (ar_chan a) (client_of peer a h), tmp)]) (chan_newusers s)"
    and "ar_more a = tmp @ rest"
    and "global_socks s' = global_socks s @ [ar_sock a]"
    and "smap_find (sv_end_msgs s') (peer (ar_sock a)) = None"
    and "notifier_update (ar_chan a) (the_notifier s) = Inr (the_notifier s')"
    and "sv_threads s' = (if smap_count (sv_threads s) (ar_chan a) then sv_threads s
          else smap_put (ar_chan a) \<lparr>ta_server = defaultName (sv_config s), ta_channel = ar_chan a,
             ta_topic = topic_at_start (sv_config s) row,
             ta_notify = smap_get None (sv_notify s') (ar_chan a)\<rparr> (sv_threads s))"
    and "rest = concat (drop n chunks)" and "n \<le> reads_of (ar_sock a) (trace s')"
proof -
  let ?k = "ar_sock a" and ?c = "ar_chan a"
  let ?topic = "topic_at_start (sv_config s) row"
  note a = assms(1) [unfolded arrives_def]
  have con: "connected E peer {?k}" using a by (simp add: steady_connected)
  define P where "P = (\<lambda>(_::unit) s'. \<exists>s1 t1 tmp. trace s1 = trace s @ t1
    \<and> sent t1 = [(?k, answer_to E peer loc a True)] \<and> ar_more a = tmp @ concat (drop (reads_of ?k (trace s1)) chunks)
    \<and> chan_newusers s1 = chan_newusers s \<and> global_socks s1 = global_socks s
    \<and> sv_threads s1 = sv_threads s \<and> sv_config s1 = sv_config s \<and> the_notifier s1 = the_notifier s
    \<and> handed_on (peer ?k) ?k (set_channel ?c (client_of peer a h)) ?topic tmp s1 s')"
  have "wp (inner_scope_run E) P (\<lambda>_ _. False) s"
    unfolding inner_scope_run_accepted [OF conjunct1 [OF a]]
  proof (rule wp_owning, unfold wp_then_bind_assoc, rule wp_inner_register [OF assms(1-5)], goal_cases)
    case reg: (1 s1 t d)
    let ?s0 = "s\<lparr>trace := trace s @ [Ev_accept, Ev_set_option ?k]\<rparr>"
    let ?s1 = "s1\<lparr>trace := trace s1 @ t\<rparr>"
    note s1 = reg(1,2) and t = reg(3,5)
    note f1 = read_only_fields [OF s1(1)]
    have acc: "(\<not> accepts acc h) = False" using assms(6) by simp
    obtain t1 where t1: "trace s1 = trace ?s0 @ t1" "sent t1 = []"
      using s1(1) by (auto simp: read_only_def)
    show ?case
      unfolding prod.case acc if_False
    proof (rule wp_name_and_hand [OF con assms(2), where chunks = chunks and c = ?c])
      fix s2 s' tmp
      assume s2: "read_only (peer ?k) ?s1 s2" "ar_more a = tmp @ concat (drop (reads_of ?k (trace s2)) chunks)"
        "handed_on (peer ?k) ?k (set_channel ?c (client_of peer a h))
           (topic_at_start (sv_config ?s1) row) tmp s2 s'"
      obtain t2 where "trace s2 = trace ?s1 @ t2" "sent t2 = []"
        using s2(1) by (auto simp: read_only_def)
      with s2(2,3) t1 t(1) assms(6) f1 read_only_fields [OF s2(1)] show "P () s'"
        unfolding P_def
        by (intro exI [of _ s2] exI [of _ "[Ev_accept, Ev_set_option ?k] @ t1 @ t @ t2"]
            exI [of _ tmp]) (simp add: the_notifier_def)
    qed (use a f1 s1 t assms(7,8) read_only_wf [OF s1(1)] in \<open>simp_all add: the_notifier_def\<close>)
  qed
  then show thesis
    unfolding P_def handed_on_def u_chan_set_channel
    by (elim wp_ok_run exE conjE) (rule that, simp, simp, simp_all add: u_chan_set_channel, linarith?)
qed

lemma inner_run_rejected:
  assumes "arrives E peer loc chunks a s" and "db_up E" and "smap_wf (sv_end_msgs s)"
    and "hashPassword E (ar_pass a) = Inr (success, h)" and "account E (ar_nick a) acc"
    and "\<not> accepts acc h"
  obtains s' t where "inner_scope_run E s = (Inr (), s')"
    and "trace s' = trace s @ t @ [Ev_close (ar_sock a)]"
    and "sent t = [(ar_sock a, answer_to E peer loc a False)]"
    and "executed t = map (Pair (sv_conn s)) (user_statements E acc (client_of peer a h))"
    and "chan_newusers s' = chan_newusers s" and "global_socks s' = global_socks s"
    and "sv_threads s' = sv_threads s" and "the_notifier s' = the_notifier s"
    and "pending (peer (ar_sock a)) (ar_sock a) chunks s' = (''JOIN '' @ ar_chan a) # ar_more a"
proof -
  let ?k = "ar_sock a"
  let ?e = "peer ?k"
  define P where "P = (\<lambda>(_::unit) s'. \<exists>t. trace s' = trace s @ t @ [Ev_close ?k]
    \<and> sent t = [(?k, answer_to E peer loc a False)]
    \<and> executed t = map (Pair (sv_conn s)) (user_statements E acc (client_of peer a h))
    \<and> chan_newusers s' = chan_newusers s \<and> global_socks s' = global_socks s
    \<and> sv_threads s' = sv_threads s \<and> the_notifier s' = the_notifier s
    \<and> pending ?e ?k chunks s' = (''JOIN '' @ ar_chan a) # ar_more a)"
  have acc: "accept_sock E (trace s) = Accepted ?k"
    using assms(1) by (simp add: arrives_def)
  have "wp (inner_scope_run E) P (\<lambda>_ _. False) s"
    unfolding inner_scope_run_accepted [OF acc]
  proof (rule wp_owning, unfold wp_then_bind_assoc, rule wp_inner_register [OF assms(1-5)], goal_cases)
    case reg: (1 s1 t d)
    obtain t1 where t1: "trace s1 = trace s @ [Ev_accept, Ev_set_option ?k] @ t1" "sent t1 = []" "executed t1 = []"
      using reg(1) by (auto simp: read_only_def)
    let ?s2 = "s1\<lparr>trace := trace s1 @ t @ [Ev_close ?k]\<rparr>"
    have "P () ?s2"
      unfolding P_def
      using reg(2-5) t1 assms(6) read_only_fields [OF reg(1)]
      by (intro exI [of _ "[Ev_accept, Ev_set_option ?k] @ t1 @ t"])
        (simp add: login_statements_def the_notifier_def pending_def reads_of_def)
    then show ?case
      using assms(6) by (simp add: wp_simps close_sock_def)
  qed
  then show thesis
    unfolding P_def by (elim wp_ok_run exE conjE) (rule that, simp_all)
qed

section \<open>Connections that stop the server\<close>

lemma inner_run_short_line:
  assumes "accept_sock E (trace s) = Accepted k" and "\<forall>t. set_option_ok E t k"
    and "connected E peer {k}" and "delivers E k chunks" and "smap_wf (sv_end_msgs s)"
    and "pending (peer k) k chunks s = m # ms" and "length m < 5"
  obtains s' t where "inner_scope_run E s = (Inl Out_of_range, s')"
    and "trace s' = trace s @ t @ [Ev_close k]"
proof -
  let ?R = "\<lambda>e s'. e = Out_of_range \<and> (\<exists>t. trace s' = trace s @ t)"
  have "wp (register_session E k) (\<lambda>_ _. False) ?R
      (s\<lparr>trace := trace s @ [Ev_accept, Ev_set_option k]\<rparr>)"
    unfolding register_session_def wp_bind
  proof (rule wp_server_read [OF assms(3,4), where m = m and ms = ms], goal_cases)
    case 2
    then show ?case using assms(6) by (simp add: pending_def reads_of_def)
  next
    case (3 s')
    then show ?case using assms(7) by (auto simp: wp_lift substr_def read_only_def)
  qed (use assms(5) in simp)
  then have "wp (owning k (
             thenE (set_keep_alive E k)
            (bindE (register_session E k) (\<lambda>(client, success).
               if \<not> success then ret None
               else bindE (get_channel_name E k) (\<lambda>channel.
                 thenE (hand_over E (set_channel channel client) k) (ret (Some channel)))))))
       Q (\<lambda>e s'. e = Out_of_range \<and> (\<exists>t. trace s' = trace s @ t @ [Ev_close k]))
       (s\<lparr>trace := trace s @ [Ev_accept]\<rparr>)" for Q
    using assms(2)
    by (auto simp: wp_def owning_def set_keep_alive_def run close_sock_def split: sum.splits prod.splits)
  then have "wp (inner_scope_run E) (\<lambda>_ _. False)
      (\<lambda>e s'. e = Out_of_range \<and> (\<exists>t. trace s' = trace s @ t @ [Ev_close k])) s"
    unfolding inner_scope_run_accepted [OF assms(1)] .
  then show thesis
    using that by (cases "inner_scope_run E s"; cases "fst (inner_scope_run E s)") (auto simp: wp_def)
qed

lemma inner_run_closed:
  assumes "accept_sock E (trace s) = Accepted k" and "\<forall>t. set_option_ok E t k"
    and "connected E peer {k}" and "\<forall>t. read_some E t k = []"
    and "smap_get [] (sv_end_msgs s) (peer k) = []"
  shows "fst (inner_scope_run E s) = Inl (UB Front_of_empty)"
proof -
  have "remote_ep E t k = Some (peer k)" for t
    using connectedD [OF assms(3)] by simp
  with assms show ?thesis
    by (simp add: inner_scope_run_def owning_def set_keep_alive_def register_session_def
        server_try_reading_def try_reading_from_sock_def remote_endpoint_def run
        run_read_messages BUFF_SIZE_def pop_front_def)
qed

end
