(* ===== verification/Stable.thy ===== *)
theory Stable
  imports Sockio Chitter Servlet
begin

text \<open>
  What an operation leaves alone whatever the environment answers and however the operation ends: a
  calculus of predicates that a computation keeps in its normal and in its exceptional outcomes, and
  the operations on sockets and on the database, which change nothing but the trace.
\<close>

section \<open>Computations that only log\<close>

definition quiet :: "('z, 'a) io \<Rightarrow> bool" where
  "quiet m \<longleftrightarrow> (\<forall>s. \<exists>t. snd (m s) = s\<lparr>trace := trace s @ t\<rparr>)"

named_theorems quiet_intros

lemma quietI: "(\<And>s. \<exists>t. snd (m s) = s\<lparr>trace := trace s @ t\<rparr>) \<Longrightarrow> quiet m"
  by (simp add: quiet_def)

lemma quiet_still [simp]: "\<exists>t. s = s\<lparr>trace := trace s @ t\<rparr>"
  by (rule exI [of _ "[]"]) simp

lemma quiet_ret [quiet_intros]: "quiet (ret x)"
  by (rule quietI) (simp add: run)

lemma quiet_throw [quiet_intros]: "quiet (throw e)"
  by (rule quietI) (simp add: run)

lemma quiet_gets [quiet_intros]: "quiet (gets f)"
  by (rule quietI) (simp add: run)

lemma quiet_lift [quiet_intros]: "quiet (lift r)"
  by (rule quietI) (simp add: run)

lemma quiet_log [quiet_intros]: "quiet (log_event e)"
  by (rule quietI) (auto simp: run)

lemma quiet_call [quiet_intros]: "quiet (call e f)"
  by (rule quietI) (auto simp: run)

lemma quietE:
  assumes "quiet m"
  obtains t where "snd (m s) = s\<lparr>trace := trace s @ t\<rparr>"
  using assms by (auto simp: quiet_def)

lemma quiet_bind [quiet_intros]:
  assumes "quiet m" and "\<And>x. quiet (f x)"
  shows "quiet (bindE m f)"
proof (rule quietI)
  fix s
  obtain t where t: "snd (m s) = s\<lparr>trace := trace s @ t\<rparr>" using assms(1) by (rule quietE)
  show "\<exists>t. snd (bindE m f s) = s\<lparr>trace := trace s @ t\<rparr>"
  proof (cases "fst (m s)")
    case (Inl e)
    with t show ?thesis by (cases "m s") (auto simp: run)
  next
    case (Inr x)
    obtain u where "snd (f x (snd (m s))) = (snd (m s))\<lparr>trace := trace (snd (m s)) @ u\<rparr>"
      using assms(2) by (rule quietE)
    with Inr t show ?thesis by (cases "m s") (auto simp: run)
  qed
qed

lemma quiet_then [quiet_intros]: "quiet m \<Longrightarrow> quiet n \<Longrightarrow> quiet (thenE m n)"
  unfolding thenE_def by (rule quiet_bind)

lemma quiet_if [quiet_intros]: "(b \<Longrightarrow> quiet m) \<Longrightarrow> (\<not> b \<Longrightarrow> quiet n) \<Longrightarrow> quiet (if b then m else n)"
  by simp

lemma quiet_option [quiet_intros]:
  "quiet m \<Longrightarrow> (\<And>x. quiet (f x)) \<Longrightarrow> quiet (case r of None \<Rightarrow> m | Some x \<Rightarrow> f x)"
  by (cases r) simp_all

lemma quiet_list [quiet_intros]:
  "quiet m \<Longrightarrow> (\<And>x xs. quiet (f x xs)) \<Longrightarrow> quiet (case r of [] \<Rightarrow> m | x # xs \<Rightarrow> f x xs)"
  by (cases r) simp_all

lemma quiet_prod [quiet_intros]: "(\<And>x y. quiet (f x y)) \<Longrightarrow> quiet (case p of (x, y) \<Rightarrow> f x y)"
  by (cases p) simp

lemma quiet_let [quiet_intros]: "(\<And>x. quiet (f x)) \<Longrightarrow> quiet (let x = v in f x)"
  by simp

lemma quiet_sock [quiet_intros]:
  "quiet (remote_endpoint E k)" "quiet (remote_endpoint_ec E k)" "quiet (local_endpoint E k)"
  "quiet (available E k)" "quiet (read_into E k n)" "quiet (write_all E k m)" "quiet (close_sock k)"
  "quiet (print_out m)" "quiet (print_err m)"
  unfolding socket_defs by (intro quiet_intros)+

lemma quiet_split [quiet_intros]: "quiet (split_msg s d)"
  unfolding split_msg_def by (intro quiet_intros)

lemma quiet_read_messages [quiet_intros]: "quiet (read_messages E k q)"
  unfolding read_messages_def by (intro quiet_intros)

lemma quiet_sockio [quiet_intros]:
  "quiet (try_reading_from_sock E k q)" "quiet (update_sockmsgs E k q)" "quiet (try_writing_to_sock E k m)"
  unfolding try_reading_from_sock_def update_sockmsgs_def try_writing_to_sock_def pop_front_def
  by (intro quiet_intros)+

lemma quiet_query [quiet_intros]: "quiet (run_query E c q)"
  unfolding run_query_def work_begin_def work_exec_def work_commit_def by (intro quiet_intros)

lemma quiet_cell [quiet_intros]: "quiet (cell_bool E r)" "quiet (cell_string E r j)"
  unfolding cell_bool_def cell_string_def by (intro quiet_intros)+

lemma quiet_now [quiet_intros]: "quiet (getCurrentDatetime E c)"
  unfolding getCurrentDatetime_def by (intro quiet_intros)

lemma quiet_channels [quiet_intros]:
  "quiet (checkChannelExists E c chan server)" "quiet (insertChannel E c chan tp server)"
  "quiet (getChannelTopic E c chan server)" "quiet (updateChannelTopic E c chan tp server)"
  "quiet (insertMsg E c chan n m server)"
  unfolding checkChannelExists_def insertChannel_def getChannelTopic_def updateChannelTopic_def insertMsg_def
  by (intro quiet_intros)+

lemma quiet_users [quiet_intros]:
  "quiet (checkUserExists E c n)" "quiet (verifyPassword E c n p)" "quiet (insertUser E c u)"
  "quiet (insertLogin E c n e)"
  unfolding checkUserExists_def verifyPassword_def insertUser_def insertLogin_def
  by (intro quiet_intros)+

lemma quiet_handleUser [quiet_intros]: "quiet (handleUser E c u)"
  unfolding handleUser_def by (intro quiet_intros)

lemma quiet_find_sock [quiet_intros]: "quiet (find_sock E e ks)"
  by (induction ks) (simp_all add: quiet_intros)

lemma quiet_erase_sock [quiet_intros]: "quiet (erase_sock E e ks)"
  by (induction ks) (auto intro!: quiet_intros)

lemma quiet_sock_matches [quiet_intros]: "quiet (sock_matches E k us)"
  by (induction us) (auto intro!: quiet_intros)

lemma quiet_deref [quiet_intros]: "quiet (deref x)"
  unfolding deref_def by (intro quiet_intros)

lemma quiet_get_sock [quiet_intros]: "quiet (get_sock_for_user E u)"
  unfolding get_sock_for_user_def by (intro quiet_intros)

section \<open>What a computation returns\<close>

definition returns :: "('a \<Rightarrow> bool) \<Rightarrow> ('s, 'a) cmd \<Rightarrow> bool" where
  "returns P m \<longleftrightarrow> (\<forall>s x s'. m s = (Inr x, s') \<longrightarrow> P x)"

lemma returnsI: "(\<And>s x s'. m s = (Inr x, s') \<Longrightarrow> P x) \<Longrightarrow> returns P m"
  by (simp add: returns_def)

lemma returns_ret: "P x \<Longrightarrow> returns P (ret x)"
  by (simp add: returns_def run)

lemma returns_bind: "returns P m \<Longrightarrow> (\<And>x. P x \<Longrightarrow> returns Q (f x)) \<Longrightarrow> returns Q (bindE m f)"
  by (fastforce simp: returns_def run split: sum.splits prod.splits)

lemma returns_if: "(b \<Longrightarrow> returns P m) \<Longrightarrow> (\<not> b \<Longrightarrow> returns P n) \<Longrightarrow> returns P (if b then m else n)"
  by simp

text \<open>
  The messages that a reader can produce, whatever arrives: not empty, without a NUL or a line end,
  and shorter than the buffer.
\<close>

definition wire_msg :: "string \<Rightarrow> bool" where
  "wire_msg m \<longleftrightarrow> m \<noteq> [] \<and> nul \<notin> set m \<and> find_idx crlf m = None \<and> length m < BUFF_SIZE"

lemma separated_no_delim: "d \<noteq> [] \<Longrightarrow> separated d ps \<Longrightarrow> p \<in> set ps \<Longrightarrow> find_idx d p = None"
proof (induction d ps rule: separated.induct)
  case (3 d p' q ps)
  show ?case
  proof (cases "p = p'")
    case True
    show ?thesis
    proof (rule ccontr)
      assume "find_idx d p \<noteq> None"
      then obtain i where i: "find_idx d p = Some i" by blast
      have "find_idx d (p @ d) = Some i" using find_idx_append [OF i] .
      with 3(2,3) True find_idx_Some_bound [OF i] show False by auto
    qed
  next
    case False
    with 3 show ?thesis by simp
  qed
qed simp_all

lemma pieces_of_text: "p \<in> set (pieces d s) \<Longrightarrow> set p \<subseteq> set s \<and> length p \<le> length s"
proof (induction d s rule: pieces.induct)
  case (1 d s)
  show ?case
  proof (cases "find_idx d s")
    case None
    with 1 show ?thesis by (simp add: pieces_None)
  next
    case (Some i)
    show ?thesis
    proof (cases "d = [] \<or> p = take i s")
      case True
      with 1(2) Some show ?thesis
        by (cases "d = []") (auto simp: pieces_Nil_delim dest: in_set_takeD)
    next
      case False
      then have "p \<in> set (pieces d (drop (i + length d) s))"
        using 1(2) Some by (simp add: pieces_Some)
      with 1(1) [OF Some] False show ?thesis by (auto dest: in_set_dropD)
    qed
  qed
qed

lemma buff_string_text:
  assumes "buff_string data = Inr s" and "length data \<le> BUFF_SIZE"
  shows "nul \<notin> set s" and "length s < BUFF_SIZE"
proof -
  let ?b = "data @ replicate (BUFF_SIZE - length data) nul"
  have s: "nul \<in> set ?b" "s = takeWhile (\<lambda>c. c \<noteq> nul) ?b"
    using assms(1) by (auto simp: buff_string_def Let_def split: if_splits)
  from s(2) show "nul \<notin> set s" by (auto dest: set_takeWhileD)
  obtain u v where "?b = u @ nul # v" "nul \<notin> set u" using s(1) by (meson split_list_first)
  then have "length s < length ?b" using s(2) by (simp add: takeWhile_nul)
  with assms(2) show "length s < BUFF_SIZE" by simp
qed

lemma read_messages_typed:
  "returns (\<lambda>q'. \<exists>ms. q' = q @ ms \<and> list_all wire_msg ms) (read_messages E k q)"
proof (rule returnsI)
  fix s :: "'a world_scheme" and x s'
  assume r: "read_messages E k q s = (Inr x, s')"
  then obtain full where full: "buff_string (take BUFF_SIZE (read_some E (trace s) k)) = Inr full"
    "x = q @ filter (\<lambda>m. m \<noteq> []) (pieces crlf full)"
    by (auto simp: read_messages_def socket_defs run crlf_def split: sum.splits)
  have "wire_msg m" if "m \<in> set (pieces crlf full)" "m \<noteq> []" for m
    using buff_string_text [OF full(1)] pieces_of_text [OF that(1)] that(2)
      separated_no_delim [OF _ separated_pieces that(1)]
    by (auto simp: wire_msg_def crlf_def)
  then show "\<exists>ms. x = q @ ms \<and> list_all wire_msg ms"
    using full(2) by (auto simp: list_all_iff)
qed

lemma update_sockmsgs_typed:
  "returns (\<lambda>q'. \<exists>ms. q' = q @ ms \<and> list_all wire_msg ms) (update_sockmsgs E k q)"
  unfolding update_sockmsgs_def
proof (rule returns_bind [where P = "\<lambda>_. True"], goal_cases)
  case (2 len)
  show ?case by (rule returns_if) (auto intro: returns_ret read_messages_typed)
qed (simp add: returns_def)

lemma try_reading_typed:
  "returns (\<lambda>(m, q'). if q = [] then list_all wire_msg (m # q') else q = m # q') (try_reading_from_sock E k q)"
proof (cases q)
  case Nil
  have "returns (\<lambda>(m, q'). list_all wire_msg (m # q')) (bindE (read_messages E k []) pop_front)"
    by (rule returns_bind [OF read_messages_typed])
      (auto simp: pop_front_def returns_def run split: list.splits)
  with Nil show ?thesis by (simp add: try_reading_from_sock_def)
next
  case (Cons m ms)
  then show ?thesis by (simp add: try_reading_from_sock_def pop_front_def returns_def run)
qed

section \<open>What a computation keeps\<close>

text \<open>
  From every state that satisfies \<open>I\<close> the computation ends in one that does, whether it returns or
  throws, and what it returns satisfies \<open>P\<close>.
\<close>

definition yields :: "('s \<Rightarrow> bool) \<Rightarrow> ('a \<Rightarrow> bool) \<Rightarrow> ('s, 'a) cmd \<Rightarrow> bool" where
  "yields I P m \<longleftrightarrow> (\<forall>s. I s \<longrightarrow> wp m (\<lambda>x s'. P x \<and> I s') (\<lambda>_. I) s)"

abbreviation keeps :: "('s \<Rightarrow> bool) \<Rightarrow> ('s, 'a) cmd \<Rightarrow> bool" where
  "keeps I m \<equiv> yields I (\<lambda>_. True) m"

named_theorems keeps_intros

lemma yieldsI: "(\<And>s. I s \<Longrightarrow> wp m (\<lambda>x s'. P x \<and> I s') (\<lambda>_. I) s) \<Longrightarrow> yields I P m"
  by (simp add: yields_def)

lemma yieldsD: "yields I P m \<Longrightarrow> I s \<Longrightarrow> wp m (\<lambda>x s'. P x \<and> I s') (\<lambda>_. I) s"
  by (simp add: yields_def)

lemma keepsD: "keeps I m \<Longrightarrow> I s \<Longrightarrow> I (snd (m s))"
  by (cases "m s"; cases "fst (m s)") (fastforce simp: yields_def wp_def)+

lemma keepsI: "(\<And>s. I s \<Longrightarrow> I (snd (m s))) \<Longrightarrow> keeps I m"
  by (rule yieldsI) (auto simp: wp_def split: sum.splits prod.splits, (metis snd_conv)+)

lemma yields_keeps: "yields I P m \<Longrightarrow> keeps I m"
  by (auto simp: yields_def elim: wp_mono)

lemma yields_bind: "yields I P m \<Longrightarrow> (\<And>x. P x \<Longrightarrow> yields I Q (f x)) \<Longrightarrow> yields I Q (bindE m f)"
  by (fastforce simp: yields_def wp_bind elim: wp_mono)

lemma yields_gets: "(\<And>s. I s \<Longrightarrow> P (f s)) \<Longrightarrow> yields I P (gets f)"
  by (simp add: yields_def wp_simps)

lemma keeps_bind [keeps_intros]: "keeps I m \<Longrightarrow> (\<And>x. keeps I (f x)) \<Longrightarrow> keeps I (bindE m f)"
  by (rule yields_bind)

lemma keeps_then [keeps_intros]: "keeps I m \<Longrightarrow> keeps I n \<Longrightarrow> keeps I (thenE m n)"
  unfolding thenE_def by (rule yields_bind)

lemma keeps_ret [keeps_intros]: "keeps I (ret x)"
  by (simp add: yields_def wp_simps)

lemma keeps_throw [keeps_intros]: "keeps I (throw e)"
  by (simp add: yields_def wp_simps)

lemma keeps_gets [keeps_intros]: "keeps I (gets f)"
  by (rule yields_gets) simp

lemma keeps_lift [keeps_intros]: "keeps I (lift r)"
  by (simp add: yields_def wp_simps split: sum.splits)

lemma keeps_update: "(\<And>s. I s \<Longrightarrow> I (f s)) \<Longrightarrow> keeps I (update f)"
  by (simp add: yields_def wp_simps)

lemma keeps_if [keeps_intros]:
  "(b \<Longrightarrow> keeps I m) \<Longrightarrow> (\<not> b \<Longrightarrow> keeps I n) \<Longrightarrow> keeps I (if b then m else n)"
  by simp

lemma keeps_option [keeps_intros]:
  "keeps I m \<Longrightarrow> (\<And>x. keeps I (f x)) \<Longrightarrow> keeps I (case r of None \<Rightarrow> m | Some x \<Rightarrow> f x)"
  by (cases r) simp_all

lemma keeps_prod [keeps_intros]: "(\<And>x y. keeps I (f x y)) \<Longrightarrow> keeps I (case p of (x, y) \<Rightarrow> f x y)"
  by (cases p) simp

lemma keeps_let [keeps_intros]: "(\<And>x. keeps I (f x)) \<Longrightarrow> keeps I (let x = v in f x)"
  by simp

lemma keeps_for_each [keeps_intros]: "(\<And>x. keeps I (f x)) \<Longrightarrow> keeps I (for_each f xs)"
  by (induction xs) (auto intro: keeps_intros)

text \<open>Predicates that the growth of the trace does not disturb are kept by quiet computations.\<close>

definition trace_stable :: "('z world_scheme \<Rightarrow> bool) \<Rightarrow> bool" where
  "trace_stable I \<longleftrightarrow> (\<forall>s t. I s \<longrightarrow> I (s\<lparr>trace := trace s @ t\<rparr>))"

lemma yields_quiet:
  assumes "trace_stable I" and "quiet m" and "returns P m"
  shows "yields I P m"
proof (rule yieldsI)
  fix s assume "I s"
  obtain t where "snd (m s) = s\<lparr>trace := trace s @ t\<rparr>" using assms(2) by (rule quietE)
  moreover have "P x" if "m s = (Inr x, s')" for x s'
    using assms(3) that unfolding returns_def by blast
  ultimately show "wp m (\<lambda>x s'. P x \<and> I s') (\<lambda>_. I) s"
    using \<open>I s\<close> assms(1) by (cases "m s") (auto simp: wp_def trace_stable_def split: sum.splits)
qed

lemma keeps_quiet: "trace_stable I \<Longrightarrow> quiet m \<Longrightarrow> keeps I m"
  by (rule yields_quiet) (simp_all add: returns_def)

end
