(* ===== verification/Servlet_Stable.thy ===== *)
theory Servlet_Stable
  imports Stable Membership "HOL-Library.Multiset"
begin

text \<open>
  What an iteration of a channel's thread keeps in every environment: with connections that fail,
  a database that throws, and any traffic. The walk through the operations of \<open>Servlet\<close> is done once,
  for every predicate that the primitive changes of its state keep.
\<close>

section \<open>The contract of an invariant\<close>

lemma push_msgs_shared [simp]:
  "chan_newusers (push_msgs e ms s) = chan_newusers s" "global_socks (push_msgs e ms s) = global_socks s"
  "s_channel_name (push_msgs e ms s) = s_channel_name s" "s_socks (push_msgs e ms s) = s_socks s"
  "flags (push_msgs e ms s) = flags s" "selfdestruct (push_msgs e ms s) = selfdestruct s"
  "trace (push_msgs e ms s) = trace s" "s_server_name (push_msgs e ms s) = s_server_name s"
  "s_conn (push_msgs e ms s) = s_conn s"
  by (induction e ms s rule: push_msgs.induct) simp_all

lemma admit_all_shared [simp]:
  "chan_newusers (admit_all qs s) = chan_newusers s" "global_socks (admit_all qs s) = global_socks s"
  "s_channel_name (admit_all qs s) = s_channel_name s" "s_socks (admit_all qs s) = s_socks s"
  "flags (admit_all qs s) = flags s" "selfdestruct (admit_all qs s) = selfdestruct s"
  "trace (admit_all qs s) = trace s" "s_server_name (admit_all qs s) = s_server_name s"
  "s_conn (admit_all qs s) = s_conn s"
  by (induction qs s rule: admit_all.induct) (auto simp: admit_def Let_def)

text \<open>
  \<open>V\<close> is what the invariant says of a queue of messages. The primitive changes: the growth of the
  trace, the members, the topic, a queue replaced by one that was received into it or cleared, a
  queue erased, sockets dropped, waiting users taken in, and sockets taken from the shared deque.
  These are all of an iteration; the loop's poll may also find SIGINT.
\<close>

locale iteration_invariant =
  fixes I :: "servlet \<Rightarrow> bool"
    and V :: "string list \<Rightarrow> bool"
  assumes I_trace: "I s \<Longrightarrow> I (s\<lparr>trace := trace s @ t\<rparr>)"
    and I_users: "I s \<Longrightarrow> I (s\<lparr>s_users := us\<rparr>)"
    and I_topic: "I s \<Longrightarrow> I (s\<lparr>s_channel_topic := c\<rparr>)"
    and I_queue: "I s \<Longrightarrow> V (smap_get [] (s_end_msgs s) e)"
    and V_Nil: "V []"
    and V_more: "V q \<Longrightarrow> list_all wire_msg ms \<Longrightarrow> V (q @ ms)"
    and I_put: "I s \<Longrightarrow> V q \<Longrightarrow> I (s\<lparr>s_end_msgs := smap_put e q (s_end_msgs s)\<rparr>)"
    and I_erase: "I s \<Longrightarrow> I (s\<lparr>s_end_msgs := smap_erase e (s_end_msgs s)\<rparr>)"
    and I_drop: "I s \<Longrightarrow> mset ks \<subseteq># mset (s_socks s) \<Longrightarrow> I (s\<lparr>s_socks := ks\<rparr>)"
    and I_admit: "I s \<Longrightarrow> I ((admit_all (smap_get [] (chan_newusers s) (s_channel_name s)) s)
        \<lparr>chan_newusers := smap_put (s_channel_name s) [] (chan_newusers s)\<rparr>)"
    and I_take: "I s \<Longrightarrow> mset ks + mset g = mset (global_socks s) \<Longrightarrow>
        I (s\<lparr>s_socks := s_socks s @ ks, global_socks := g\<rparr>)"
begin

lemma I_trace_stable: "trace_stable I"
  using I_trace by (simp add: trace_stable_def)

lemmas keeps_log = keeps_quiet [OF I_trace_stable]

lemma keeps_index: "keeps I (update (\<lambda>s. s\<lparr>s_end_msgs := smap_index [] e (s_end_msgs s)\<rparr>))"
  by (rule keeps_update) (auto simp: smap_index_def I_put V_Nil)

lemma keeps_put: "V q \<Longrightarrow> keeps I (update (\<lambda>s. s\<lparr>s_end_msgs := smap_put e q (s_end_msgs s)\<rparr>))"
  by (rule keeps_update) (rule I_put)

lemma erase_sock_subset: "returns (\<lambda>ks'. mset ks' \<subseteq># mset ks) (erase_sock E e ks)"
proof (induction ks)
  case Nil
  show ?case by (simp add: returns_ret)
next
  case (Cons k ks)
  show ?case
    unfolding erase_sock.simps
  proof (rule returns_bind [where P = "\<lambda>_. True"], goal_cases)
    case 1
    show ?case by (simp add: returns_def)
  next
    case (2 this_end)
    show ?case
      by (intro returns_if returns_bind [OF Cons]) (auto simp: returns_def close_sock_def run)
  qed
qed

lemma keeps_erase_sock:
  "keeps I (bindE (gets s_socks) (\<lambda>ks. bindE (erase_sock E e ks) (\<lambda>ks'. update (\<lambda>s. s\<lparr>s_socks := ks'\<rparr>))))"
proof (rule keepsI)
  fix s assume s: "I s"
  let ?m = "erase_sock E e (s_socks s)"
  obtain t where t: "snd (?m s) = s\<lparr>trace := trace s @ t\<rparr>"
    using quiet_erase_sock by (rule quietE)
  then show "I (snd (bindE (gets s_socks) (\<lambda>ks. bindE (erase_sock E e ks)
      (\<lambda>ks'. update (\<lambda>s. s\<lparr>s_socks := ks'\<rparr>))) s))"
    using erase_sock_subset [of "s_socks s" E e] I_trace [OF s, of t] I_drop [OF I_trace [OF s, of t]]
    by (cases "?m s") (auto simp: run returns_def split: sum.splits)
qed

lemma keeps_remove_trace_of: "keeps I (remove_trace_of E u)"
  unfolding remove_trace_of_def
  by (intro keeps_intros keeps_erase_sock keeps_update I_users I_erase)

lemma keeps_servlet_try_writing: "keeps I (servlet_try_writing E u m)"
  unfolding servlet_try_writing_def
  by (intro keeps_intros keeps_remove_trace_of keeps_log quiet_intros)

lemma keeps_for_users: "(\<And>u a. keeps I (body u a)) \<Longrightarrow> keeps I (for_users body prev us a)"
  by (induction us arbitrary: prev a) (auto intro!: keeps_intros)

lemma keeps_broadcast: "keeps I (broadcast E skip m)"
  unfolding broadcast_def by (intro keeps_intros keeps_for_users keeps_servlet_try_writing)

section \<open>Taking users in\<close>

lemma I_grab_socks: "I s \<Longrightarrow> global_socks s = kept @ ks \<Longrightarrow> I (snd (grab_socks E kept ks s))"
proof (induction ks arbitrary: kept s)
  case Nil
  then show ?case by (simp add: run)
next
  case (Cons k ks)
  let ?m = "sock_matches E k (s_users s)"
  obtain t where t: "snd (?m s) = s\<lparr>trace := trace s @ t\<rparr>"
    using quiet_sock_matches by (rule quietE)
  let ?s = "s\<lparr>trace := trace s @ t\<rparr>"
  have s: "I ?s" using Cons.prems(1) by (rule I_trace)
  have take: "I (?s\<lparr>s_socks := s_socks ?s @ [k], global_socks := kept @ ks\<rparr>)"
    using s by (rule I_take) (simp add: Cons.prems(2))
  show ?case
  proof (cases "fst (?m s)")
    case (Inl e)
    with t s show ?thesis by (cases "?m s") (simp add: run)
  next
    case (Inr match)
    then have m: "?m s = (Inr match, ?s)" using t by (cases "?m s") simp
    show ?thesis
    proof (cases match)
      case True
      with m Cons.IH [OF take, of kept] show ?thesis by (simp add: run)
    next
      case False
      with m Cons.IH [OF s, of "kept @ [k]"] Cons.prems(2) show ?thesis by (simp add: run)
    qed
  qed
qed

lemma keeps_grab_new: "keeps I (grab_new E)"
proof (rule keepsI)
  fix s assume s: "I s"
  let ?q = "smap_get [] (chan_newusers s) (s_channel_name s)"
  let ?s = "(admit_all ?q s)\<lparr>chan_newusers := smap_put (s_channel_name s) [] (chan_newusers s)\<rparr>"
  have "I (snd (grab_socks E [] (global_socks ?s) ?s))"
    by (rule I_grab_socks [OF I_admit [OF s]]) simp
  then show "I (snd (grab_new E s))"
    by (auto simp: grab_new_def run split: sum.splits prod.splits)
qed

lemma keeps_greet: "keeps I (greet E newusers handled u)"
  unfolding greet_def
  by (intro keeps_intros keeps_for_users keeps_servlet_try_writing keeps_log quiet_intros)

lemma keeps_greet_all: "keeps I (greet_all E newusers handled us)"
  by (induction us arbitrary: handled) (auto intro!: keeps_intros keeps_greet)

lemma keeps_handle_newusers: "keeps I (handle_newusers E)"
  unfolding handle_newusers_def by (intro keeps_intros keeps_grab_new keeps_greet_all)

section \<open>Receiving and handling messages\<close>

lemma yields_received: "V q \<Longrightarrow> yields I V (update_sockmsgs E k q)"
  by (rule yields_quiet [OF I_trace_stable])
    (auto intro: quiet_intros V_more simp: returns_def
      dest: update_sockmsgs_typed [unfolded returns_def, rule_format])

lemma keeps_update_endmsgs_of: "keeps I (update_endmsgs_of E k)"
  unfolding update_endmsgs_of_def
  by (rule keeps_bind, rule keeps_log, rule quiet_intros, rule yields_bind [where P = V],
      rule yields_gets, rule I_queue, assumption, rule keeps_then, rule keeps_index,
      rule yields_bind, rule yields_received, assumption, rule keeps_put)

lemma keeps_update_endmsgs: "keeps I (update_endmsgs E)"
  unfolding update_endmsgs_def by (intro keeps_intros keeps_update_endmsgs_of)

lemma keeps_handle_priv: "keeps I (handle_priv E m u)"
  unfolding handle_priv_def by (intro keeps_intros keeps_broadcast keeps_log quiet_intros)

lemma keeps_handle_part: "keeps I (handle_part E m u)"
  unfolding handle_part_def by (intro keeps_intros keeps_broadcast keeps_remove_trace_of)

lemma keeps_handle_topic: "keeps I (handle_topic E m u)"
  unfolding handle_topic_def
  by (intro keeps_intros keeps_broadcast keeps_log quiet_intros keeps_update I_topic)

lemma keeps_handle_msg: "keeps I (handle_msg E m e)"
  unfolding handle_msg_def
  by (intro keeps_intros keeps_handle_priv keeps_handle_part keeps_handle_topic keeps_log quiet_intros)

lemma keeps_handle_list: "keeps I (handle_list E e ms)"
  by (induction ms) (auto intro!: keeps_intros keeps_handle_msg)

lemma keeps_handle_entry: "keeps I (handle_entry E e)"
  unfolding handle_entry_def
  by (intro keeps_intros keeps_handle_list keeps_update) (auto intro: I_put V_Nil)

lemma keeps_for_entries: "keeps I (for_entries E es)"
  by (induction es) (auto intro!: keeps_intros keeps_handle_entry)

lemma keeps_handle_endmsgs: "keeps I (handle_endmsgs E)"
  unfolding handle_endmsgs_def by (intro keeps_intros keeps_for_entries)

section \<open>An iteration\<close>

lemma keeps_check_newusers: "keeps I (check_newusers p)"
  unfolding check_newusers_def by (intro keeps_intros)

lemma keeps_rest: "keeps I (thenE (update_endmsgs E) (bindE (gets check_endmsgs)
    (\<lambda>check. if check then handle_endmsgs E else ret ())))"
  by (intro keeps_intros keeps_update_endmsgs keeps_handle_endmsgs)

lemma keeps_servlet_iter: "keeps I (servlet_iter E p)"
  unfolding servlet_iter_def
  by (intro keeps_intros keeps_check_newusers keeps_handle_newusers keeps_update_endmsgs keeps_handle_endmsgs)

end

locale servlet_invariant = iteration_invariant +
  assumes I_signal: "I s \<Longrightarrow> I (s\<lparr>selfdestruct := True\<rparr>)"
begin

lemma keeps_load_selfdestruct: "keeps I (load_selfdestruct E)"
  unfolding load_selfdestruct_def signal_handler_def
  by (intro keeps_intros keeps_log quiet_intros keeps_update I_signal)

text \<open>So does the thread's loop, if it ends.\<close>

lemma servlet_loop_keeps: "servlet_loop E p s = Some y \<Longrightarrow> I s \<Longrightarrow> I (snd y)"
proof (induction E p s y rule: servlet_loop.raw_induct [rotated 1, consumes 1, case_names step])
  case (step loop E p s y)
  have poll: "I (snd (load_selfdestruct E s))"
    using keeps_load_selfdestruct step(3) by (rule keepsD)
  then have "I (snd (servlet_iter E p (snd (load_selfdestruct E s))))"
    by (rule keepsD [OF keeps_servlet_iter])
  with poll step(1,2) show ?case
    by (auto split: prod.splits sum.splits if_splits) (metis snd_conv)
qed

end

section \<open>Three invariants\<close>

text \<open>
  Every queue holds messages as a reader can produce them, and the maps are ordered by their keys as a
  \<open>std::map\<close> is.
\<close>

definition wire_waiting :: "waiting \<Rightarrow> bool" where
  "wire_waiting w \<longleftrightarrow> smap_wf w \<and> (\<forall>c. \<forall>(u, ms) \<in> set (smap_get [] w c). list_all wire_msg ms)"

definition wire_queues :: "(endpoint, string list) smap \<Rightarrow> bool" where
  "wire_queues m \<longleftrightarrow> smap_wf m \<and> (\<forall>e. list_all wire_msg (smap_get [] m e))"

lemma wire_waiting_put:
  "wire_waiting w \<Longrightarrow> \<forall>(u, ms) \<in> set q. list_all wire_msg ms \<Longrightarrow> wire_waiting (smap_put c q w)"
  by (auto simp: wire_waiting_def)

lemma wire_queues_put: "wire_queues m \<Longrightarrow> list_all wire_msg q \<Longrightarrow> wire_queues (smap_put e q m)"
  by (auto simp: wire_queues_def)

lemma wire_queues_erase: "wire_queues m \<Longrightarrow> wire_queues (smap_erase e m)"
  by (auto simp: wire_queues_def smap_get_def)

lemma wire_queues_index: "wire_queues m \<Longrightarrow> wire_queues (smap_index [] e m)"
  by (simp add: smap_index_def wire_queues_put)

lemma wire_queues_admitted:
  "wire_queues m \<Longrightarrow> \<forall>(u, ms) \<in> set qs. list_all wire_msg ms \<Longrightarrow> wire_queues (admitted qs m)"
  by (fastforce simp: wire_queues_def admitted_get list_all_iff)

definition wire_typed :: "servlet \<Rightarrow> bool" where
  "wire_typed s \<longleftrightarrow> wire_queues (s_end_msgs s) \<and> wire_waiting (chan_newusers s)"

interpretation wire: servlet_invariant wire_typed "list_all wire_msg"
proof (unfold_locales, goal_cases)
  case (10 s)
  have "\<forall>(u, ms) \<in> set (smap_get [] (chan_newusers s) (s_channel_name s)). list_all wire_msg ms"
    using 10 by (auto simp: wire_typed_def wire_waiting_def)
  moreover have "smap_wf (s_end_msgs s)"
    using 10 by (simp add: wire_typed_def wire_queues_def)
  ultimately show ?case
    using 10 by (simp add: wire_typed_def wire_queues_admitted wire_waiting_put admit_all_eq)
qed (auto simp: wire_typed_def wire_queues_put wire_queues_erase, simp add: wire_queues_def)

text \<open>No socket is made or copied: those of the thread and of the shared deque are among \<open>M\<close>.\<close>

definition owned_within :: "sock multiset \<Rightarrow> servlet \<Rightarrow> bool" where
  "owned_within M s \<longleftrightarrow> mset (s_socks s) + mset (global_socks s) \<subseteq># M"

interpretation owner: servlet_invariant "owned_within M" "\<lambda>_. True" for M
proof (unfold_locales, goal_cases)
  case (11 s ks g)
  then show ?case by (simp add: owned_within_def add.assoc)
qed (auto simp: owned_within_def intro: subset_mset.order_trans subset_mset.add_right_mono)

text \<open>
  Compared with \<open>s0\<close>, of the shared state only the thread's own queue of new users has changed, which
  is untouched or empty, sockets have been taken, and SIGINT may have arrived; the trace has grown.
\<close>

definition at_home :: "servlet \<Rightarrow> servlet \<Rightarrow> bool" where
  "at_home s0 s \<longleftrightarrow>
     s_channel_name s = s_channel_name s0 \<and> s_server_name s = s_server_name s0 \<and> s_conn s = s_conn s0
     \<and> flags s = flags s0 \<and> (selfdestruct s0 \<longrightarrow> selfdestruct s)
     \<and> mset (global_socks s) \<subseteq># mset (global_socks s0)
     \<and> (\<forall>c. c \<noteq> s_channel_name s0 \<longrightarrow> smap_get [] (chan_newusers s) c = smap_get [] (chan_newusers s0) c)
     \<and> smap_get [] (chan_newusers s) (s_channel_name s0)
         \<in> {[], smap_get [] (chan_newusers s0) (s_channel_name s0)}
     \<and> (\<exists>t. trace s = trace s0 @ t)"

interpretation home: servlet_invariant "at_home s0" "\<lambda>_. True" for s0
proof (unfold_locales, goal_cases)
  case (11 s ks g)
  have "mset g \<subseteq># mset (global_socks s)"
    unfolding 11(2) [symmetric] by simp
  with 11(1) show ?case
    unfolding at_home_def by (auto intro: subset_mset.order_trans)
qed (auto simp: at_home_def)

text \<open>An iteration does not touch the flag that ends the server.\<close>

interpretation destruct: iteration_invariant "\<lambda>s. selfdestruct s = b" "\<lambda>_. True" for b
  by unfold_locales simp_all

end
