(* ===== verification/Server_Stable.thy ===== *)
theory Server_Stable
  imports Servlet_Stable Server
begin

text \<open>
  What the main thread's operations change in every environment and however they end: reading a
  registration changes the queues of unread messages only, handing a user over extends one channel's
  queue and the deque of sockets by one, raising a flag and starting a thread change the registers.
\<close>

section \<open>Operations on the thread's own queues\<close>

definition inward :: "(server, 'a) cmd \<Rightarrow> bool" where
  "inward m \<longleftrightarrow> (\<forall>s. \<exists>q t. snd (m s) = s\<lparr>sv_end_msgs := q, trace := trace s @ t\<rparr>
     \<and> (wire_queues (sv_end_msgs s) \<longrightarrow> wire_queues q))"

named_theorems inward_intros

lemma inwardI:
  "(\<And>s. \<exists>q t. snd (m s) = s\<lparr>sv_end_msgs := q, trace := trace s @ t\<rparr>
     \<and> (wire_queues (sv_end_msgs s) \<longrightarrow> wire_queues q)) \<Longrightarrow> inward m"
  by (simp add: inward_def)

lemma inwardE:
  assumes "inward m"
  obtains q t where "snd (m s) = s\<lparr>sv_end_msgs := q, trace := trace s @ t\<rparr>"
    and "wire_queues (sv_end_msgs s) \<Longrightarrow> wire_queues q"
  using assms unfolding inward_def by blast

lemma trace_last_main [simp]:
  "s\<lparr>trace := t, sv_end_msgs := q\<rparr> = s\<lparr>sv_end_msgs := q, trace := t\<rparr>" for s :: server
  by (cases s) simp

lemma quiet_inward: "quiet m \<Longrightarrow> inward m"
proof (rule inwardI)
  fix s :: server
  assume "quiet m"
  then obtain t where "snd (m s) = s\<lparr>trace := trace s @ t\<rparr>" by (rule quietE)
  then have "snd (m s) = s\<lparr>sv_end_msgs := sv_end_msgs s, trace := trace s @ t\<rparr>" by simp
  then show "\<exists>q t. snd (m s) = s\<lparr>sv_end_msgs := q, trace := trace s @ t\<rparr>
     \<and> (wire_queues (sv_end_msgs s) \<longrightarrow> wire_queues q)" by blast
qed

lemma inward_bind [inward_intros]:
  assumes "inward m" and "\<And>x. inward (f x)"
  shows "inward (bindE m f)"
proof (rule inwardI)
  fix s
  obtain q t where t: "snd (m s) = s\<lparr>sv_end_msgs := q, trace := trace s @ t\<rparr>"
    "wire_queues (sv_end_msgs s) \<Longrightarrow> wire_queues q" using assms(1) by (rule inwardE) blast
  show "\<exists>q t. snd (bindE m f s) = s\<lparr>sv_end_msgs := q, trace := trace s @ t\<rparr>
     \<and> (wire_queues (sv_end_msgs s) \<longrightarrow> wire_queues q)"
  proof (cases "fst (m s)")
    case (Inl e)
    with t show ?thesis by (cases "m s") (auto simp: run)
  next
    case (Inr x)
    obtain q' u where u: "snd (f x (snd (m s)))
        = (snd (m s))\<lparr>sv_end_msgs := q', trace := trace (snd (m s)) @ u\<rparr>"
      "wire_queues (sv_end_msgs (snd (m s))) \<Longrightarrow> wire_queues q'"
      using assms(2) by (rule inwardE) blast
    then have "snd (bindE m f s) = s\<lparr>sv_end_msgs := q', trace := trace s @ t @ u\<rparr>"
      using Inr t(1) by (cases "m s") (simp add: run)
    with u(2) t show ?thesis by (intro exI [of _ q'] exI [of _ "t @ u"]) simp
  qed
qed

lemma inward_then [inward_intros]: "inward m \<Longrightarrow> inward n \<Longrightarrow> inward (thenE m n)"
  unfolding thenE_def by (rule inward_bind)

lemma inward_if [inward_intros]:
  "(b \<Longrightarrow> inward m) \<Longrightarrow> (\<not> b \<Longrightarrow> inward n) \<Longrightarrow> inward (if b then m else n)"
  by simp

lemma inward_prod [inward_intros]: "(\<And>x y. inward (f x y)) \<Longrightarrow> inward (case p of (x, y) \<Rightarrow> f x y)"
  by (cases p) simp

lemma inward_let [inward_intros]: "(\<And>x. inward (f x)) \<Longrightarrow> inward (let x = v in f x)"
  by simp

lemma inward_update:
  "(\<And>m. wire_queues m \<Longrightarrow> wire_queues (f m)) \<Longrightarrow> inward (update (\<lambda>s. s\<lparr>sv_end_msgs := f (sv_end_msgs s)\<rparr>))"
  by (rule inwardI, rule exI, rule exI [of _ "[]"]) (auto simp: run)

lemma inward_server_try_reading [inward_intros]: "inward (server_try_reading E k)"
proof (rule inwardI)
  fix s :: server
  let ?P = "\<lambda>s'. \<exists>q t. s' = s\<lparr>sv_end_msgs := q, trace := trace s @ t\<rparr>
     \<and> (wire_queues (sv_end_msgs s) \<longrightarrow> wire_queues q)"
  show "?P (snd (server_try_reading E k s))"
  proof (cases "remote_ep E (trace s) k")
    case None
    then show ?thesis
      by (auto simp: server_try_reading_def remote_endpoint_def run intro!: exI [of _ "sv_end_msgs s"])
  next
    case (Some e)
    let ?q = "smap_get [] (sv_end_msgs s) e" and ?m = "smap_index [] e (sv_end_msgs s)"
    let ?s = "s\<lparr>sv_end_msgs := ?m, trace := trace s @ [Ev_remote k]\<rparr>"
    let ?r = "try_reading_from_sock E k ?q"
    obtain t where t: "snd (?r ?s) = ?s\<lparr>trace := trace ?s @ t\<rparr>"
      using quiet_sockio(1) by (rule quietE)
    show ?thesis
    proof (cases "fst (?r ?s)")
      case (Inl x)
      with Some t have "snd (server_try_reading E k s)
          = s\<lparr>sv_end_msgs := ?m, trace := trace s @ Ev_remote k # t\<rparr>"
        by (cases "?r ?s") (simp add: server_try_reading_def remote_endpoint_def run)
      then show ?thesis using wire_queues_index by blast
    next
      case (Inr p)
      obtain m q' where p: "p = (m, q')" by (cases p)
      have "snd (server_try_reading E k s)
          = s\<lparr>sv_end_msgs := smap_put e q' ?m, trace := trace s @ Ev_remote k # t\<rparr>"
        using Some t Inr p by (cases "?r ?s") (simp add: server_try_reading_def remote_endpoint_def run)
      moreover have "list_all wire_msg q'" if "wire_queues (sv_end_msgs s)"
      proof -
        have "if ?q = [] then list_all wire_msg (m # q') else ?q = m # q'"
          using try_reading_typed [of ?q E k, unfolded returns_def, rule_format, of ?s p] Inr p
          by (cases "?r ?s") auto
        moreover have "list_all wire_msg ?q" using that by (simp add: wire_queues_def)
        ultimately show ?thesis by (cases ?q) auto
      qed
      ultimately show ?thesis using wire_queues_index wire_queues_put by blast
    qed
  qed
qed

lemmas inward_quiet = quiet_inward [inward_intros]

lemma inward_write [inward_intros]: "inward (server_try_writing E k m)"
  unfolding server_try_writing_def by (intro quiet_inward quiet_intros)

lemma inward_register_session: "inward (register_session E k)"
  unfolding register_session_def by (intro inward_intros quiet_intros)

lemma inward_get_channel_name: "inward (get_channel_name E k)"
  unfolding get_channel_name_def by (intro inward_intros quiet_intros)

section \<open>Receiving a user\<close>

text \<open>
  \<open>inner_scope_run\<close> in its pieces: accepting a connection up to the user's handing over, raising the
  channel's flag, and starting its thread.
\<close>

definition receive :: "env \<Rightarrow> (server, string option) cmd" where
  "receive E =
     bindE (call Ev_accept (\<lambda>t. Inr (accept_sock E t))) (\<lambda>a.
       case a of
         Would_block \<Rightarrow> ret None
       | Accept_failed \<Rightarrow> throw System_error
       | Accepted k \<Rightarrow>
           bindE (owning k (
             thenE (set_keep_alive E k)
            (bindE (register_session E k) (\<lambda>(client, success).
               if \<not> success then ret None
               else bindE (get_channel_name E k) (\<lambda>channel.
                 thenE (hand_over E (set_channel channel client) k) (ret (Some channel)))))))
             (\<lambda>handed. thenE (if handed = None then close_sock k else ret ()) (ret handed)))"

definition open_channel :: "env \<Rightarrow> string \<Rightarrow> (server, unit) cmd" where
  "open_channel E c = bindE (gets (\<lambda>s. smap_count (sv_threads s) c))
     (\<lambda>running. if running then ret () else start_channel E c)"

lemma inner_scope_run_pieces:
  "inner_scope_run E = bindE (receive E) (\<lambda>handed. case handed of
     None \<Rightarrow> ret () | Some c \<Rightarrow> thenE (notify_update c) (open_channel E c))"
  by (rule ext)
    (auto simp: inner_scope_run_def receive_def open_channel_def run close_sock_def
      split: sum.splits prod.splits accept_result.splits option.splits)

text \<open>The state after a user was handed over.\<close>

definition with_user :: "user \<Rightarrow> string list \<Rightarrow> sock \<Rightarrow> server \<Rightarrow> server" where
  "with_user u ms k s = s\<lparr>chan_newusers := smap_put (u_chan u)
       (smap_get [] (chan_newusers s) (u_chan u) @ [(u, ms)]) (chan_newusers s),
     global_socks := global_socks s @ [k]\<rparr>"

definition after_reading :: "server \<Rightarrow> server \<Rightarrow> bool" where
  "after_reading s s' \<longleftrightarrow> (\<exists>q t. s' = s\<lparr>sv_end_msgs := q, trace := trace s @ t\<rparr>
     \<and> (wire_queues (sv_end_msgs s) \<longrightarrow> wire_queues q))"

lemma inward_after_reading: "inward m \<Longrightarrow> after_reading s (snd (m s))"
  by (simp add: inward_def after_reading_def)

lemma after_reading_refl: "after_reading s s"
  unfolding after_reading_def by (rule exI [of _ "sv_end_msgs s"], rule exI [of _ "[]"]) simp

lemma after_reading_trans:
  assumes "after_reading s s'" and "after_reading s' s''"
  shows "after_reading s s''"
proof -
  obtain q t where 1: "s' = s\<lparr>sv_end_msgs := q, trace := trace s @ t\<rparr>"
    "wire_queues (sv_end_msgs s) \<longrightarrow> wire_queues q" using assms(1) by (auto simp: after_reading_def)
  obtain q' t' where 2: "s'' = s'\<lparr>sv_end_msgs := q', trace := trace s' @ t'\<rparr>"
    "wire_queues (sv_end_msgs s') \<longrightarrow> wire_queues q'" using assms(2) by (auto simp: after_reading_def)
  show ?thesis
    unfolding after_reading_def
    by (rule exI [of _ q'], rule exI [of _ "t @ t'"]) (use 1 2 in simp)
qed

lemma after_reading_log: "after_reading s s' \<Longrightarrow> after_reading s (s'\<lparr>trace := trace s' @ t\<rparr>)"
  by (erule after_reading_trans)
    (auto simp: after_reading_def intro!: exI [of _ "sv_end_msgs s'"])

lemma after_reading_fields:
  assumes "after_reading s s'"
  shows "chan_newusers s' = chan_newusers s" and "global_socks s' = global_socks s"
    and "flags s' = flags s" and "selfdestruct s' = selfdestruct s" and "sv_notify s' = sv_notify s"
    and "sv_threads s' = sv_threads s" and "sv_conn s' = sv_conn s" and "sv_config s' = sv_config s"
    and "wire_queues (sv_end_msgs s) \<Longrightarrow> wire_queues (sv_end_msgs s')"
    and "\<exists>t. trace s' = trace s @ t"
  using assms by (auto simp: after_reading_def)

lemma hand_over_cases:
  fixes s :: server
  shows "case hand_over E u k s of
      (Inl e, s') \<Rightarrow> after_reading s s'
    | (Inr _, s') \<Rightarrow> \<exists>ms s1. after_reading s s1 \<and> s' = with_user u ms k s1
        \<and> (wire_queues (sv_end_msgs s) \<longrightarrow> list_all wire_msg ms)"
proof (cases "remote_ep E (trace s) k")
  case None
  have "after_reading s (s\<lparr>trace := trace s @ [Ev_remote k]\<rparr>)"
    using after_reading_refl by (rule after_reading_log)
  with None show ?thesis by (simp add: hand_over_def remote_endpoint_def run)
next
  case (Some e)
  let ?m = "smap_index [] e (sv_end_msgs s)" and ?ms = "smap_get [] (sv_end_msgs s) e"
  let ?t = "[Ev_remote k, Ev_remote k]"
  have wire: "wire_queues ?m" "list_all wire_msg ?ms" if "wire_queues (sv_end_msgs s)"
    using that wire_queues_index by (auto simp: wire_queues_def)
  show ?thesis
  proof (cases "remote_ep E (trace s @ [Ev_remote k]) k")
    case None
    have "after_reading s (s\<lparr>sv_end_msgs := ?m, trace := trace s @ ?t\<rparr>)"
      unfolding after_reading_def using wire by blast
    with Some None show ?thesis by (simp add: hand_over_def remote_endpoint_def run)
  next
    case (Some e')
    let ?s1 = "s\<lparr>sv_end_msgs := smap_erase e' ?m, trace := trace s @ ?t\<rparr>"
    have "after_reading s ?s1"
      unfolding after_reading_def using wire wire_queues_erase by blast
    moreover have "hand_over E u k s = (Inr (), with_user u ?ms k ?s1)"
      using Some \<open>remote_ep E (trace s) k = Some e\<close>
      by (simp add: hand_over_def remote_endpoint_def run update_comm_structs_def with_user_def)
    ultimately show ?thesis using wire by auto
  qed
qed

text \<open>A connection that was accepted and whose keep-alive option has been set is named in the trace.\<close>

definition serving :: "sock \<Rightarrow> server \<Rightarrow> server \<Rightarrow> bool" where
  "serving k s s1 \<longleftrightarrow> after_reading s s1 \<and> Ev_set_option k \<in> set (trace s1)"

lemma keeps_serving: "inward m \<Longrightarrow> keeps (serving k s) m"
proof (rule keepsI)
  fix s1 assume "inward m" and s1: "serving k s s1"
  then have r: "after_reading s1 (snd (m s1))" by (intro inward_after_reading)
  obtain t where "trace (snd (m s1)) = trace s1 @ t" using after_reading_fields(10) [OF r] by blast
  with s1 r after_reading_trans show "serving k s (snd (m s1))" by (auto simp: serving_def)
qed

definition received :: "sock \<Rightarrow> server \<Rightarrow> string \<Rightarrow> server \<Rightarrow> bool" where
  "received k s c s' \<longleftrightarrow> (\<exists>u ms s1. serving k s s1 \<and> u_chan u = c \<and> s' = with_user u ms k s1
     \<and> (wire_queues (sv_end_msgs s) \<longrightarrow> list_all wire_msg ms))"

lemma u_chan_client: "u_chan (set_channel c u) = c"
  by (simp add: set_channel_def)

lemma wp_hand_over_any:
  assumes "serving k s s1"
  shows "wp (thenE (hand_over E (set_channel c u) k) (ret (Some c)))
    (\<lambda>h s'. \<exists>c. h = Some c \<and> received k s c s') (\<lambda>_. after_reading s) s1"
proof (cases "hand_over E (set_channel c u) k s1")
  case (Pair r s')
  note ho = hand_over_cases [where E = E and u = "set_channel c u" and k = k and s = s1, unfolded Pair]
  have s1: "after_reading s s1" using assms by (simp add: serving_def)
  show ?thesis
  proof (cases r)
    case (Inl e)
    with ho s1 have "after_reading s s'" by (auto intro: after_reading_trans)
    with Pair Inl show ?thesis by (simp add: wp_def run)
  next
    case (Inr x)
    with ho obtain ms s2 where s2: "after_reading s1 s2" "s' = with_user (set_channel c u) ms k s2"
      "wire_queues (sv_end_msgs s1) \<longrightarrow> list_all wire_msg ms" by auto
    have "wire_queues (sv_end_msgs s) \<longrightarrow> list_all wire_msg ms"
      using s2(3) after_reading_fields(9) [OF s1] by blast
    moreover have "serving k s s2"
      using assms s2(1) after_reading_trans after_reading_fields(10) [OF s2(1)]
      by (auto simp: serving_def)
    ultimately have "received k s c s'"
      using s2(2) u_chan_client [of c u] unfolding received_def by blast
    with Pair Inr show ?thesis by (simp add: wp_def run)
  qed
qed

lemma wp_session_any:
  assumes "serving k s s1"
  shows "wp (bindE (register_session E k) (\<lambda>(client, success).
       if \<not> success then ret None
       else bindE (get_channel_name E k) (\<lambda>channel.
         thenE (hand_over E (set_channel channel client) k) (ret (Some channel)))))
    (\<lambda>h s'. case h of None \<Rightarrow> after_reading s s' | Some c \<Rightarrow> received k s c s') (\<lambda>_. after_reading s) s1"
    (is "wp _ ?Q ?R s1")
  unfolding wp_bind
proof (rule wp_mono [OF yieldsD [OF keeps_serving [OF inward_register_session] assms]])
  fix p :: "user \<times> bool" and s2 assume "True \<and> serving k s s2"
  then have s2: "serving k s s2" by simp
  obtain client success where p: "p = (client, success)" by (cases p)
  show "wp ((case p of (client, success) \<Rightarrow> if \<not> success then ret None
      else bindE (get_channel_name E k) (\<lambda>channel.
        thenE (hand_over E (set_channel channel client) k) (ret (Some channel))))) ?Q ?R s2"
  proof (cases success)
    case False
    with s2 p show ?thesis by (simp add: wp_simps serving_def)
  next
    case True
    have "wp (get_channel_name E k) (\<lambda>channel. wp (thenE (hand_over E (set_channel channel client) k)
        (ret (Some channel))) ?Q ?R) ?R s2"
    proof (rule wp_mono [OF yieldsD [OF keeps_serving [OF inward_get_channel_name] s2]])
      fix c s3 assume "True \<and> serving k s s3"
      then show "wp (thenE (hand_over E (set_channel c client) k) (ret (Some c))) ?Q ?R s3"
        by (intro wp_mono [OF wp_hand_over_any]) auto
    qed (simp add: serving_def)
    with True p show ?thesis by (simp add: wp_bind)
  qed
qed (simp add: serving_def)

lemma receive_cases:
  "wp (receive E) (\<lambda>h s'. case h of None \<Rightarrow> after_reading s s'
      | Some c \<Rightarrow> \<exists>k. accept_sock E (trace s) = Accepted k \<and> received k s c s')
    (\<lambda>_. after_reading s) s" (is "wp _ ?Q ?R s")
proof -
  have acc: "after_reading s (s\<lparr>trace := trace s @ t\<rparr>)" for t
    using after_reading_refl by (rule after_reading_log)
  show ?thesis
  proof (cases "accept_sock E (trace s)")
    case (Accepted k)
    let ?s = "s\<lparr>trace := trace s @ [Ev_accept]\<rparr>"
    let ?session = "bindE (register_session E k) (\<lambda>(client, success).
       if \<not> success then ret None
       else bindE (get_channel_name E k) (\<lambda>channel.
         thenE (hand_over E (set_channel channel client) k) (ret (Some channel))))"
    let ?P = "\<lambda>h s'. case h of None \<Rightarrow> after_reading s s' | Some c \<Rightarrow> received k s c s'"
    have "serving k s (s\<lparr>trace := trace s @ [Ev_accept, Ev_set_option k]\<rparr>)"
      using acc by (simp add: serving_def)
    from wp_session_any [OF this, of E] have "wp (thenE (set_keep_alive E k) ?session) ?P ?R ?s"
      using acc by (simp add: set_keep_alive_def wp_then wp_call)
    then have "wp (owning k (thenE (set_keep_alive E k) ?session)) ?P ?R ?s"
      using after_reading_log
      by (auto simp: wp_def owning_def close_sock_def run split: sum.splits prod.splits)
    then show ?thesis
      unfolding receive_def wp_bind wp_call Accepted sum.case accept_result.case
      by (rule wp_mono)
        (auto simp: wp_simps close_sock_def Accepted after_reading_log split: option.splits)
  qed (simp_all add: receive_def wp_simps acc)
qed

section \<open>Raising a flag and starting a thread\<close>

lemma notify_update_cases:
  "case notify_update c s of
      (Inl e, s') \<Rightarrow> s' = s \<and> notifier_update c (the_notifier s) = Inl e
    | (Inr _, s') \<Rightarrow> \<exists>n. notifier_update c (the_notifier s) = Inr n \<and> s' = set_notifier n s"
  by (auto simp: notify_update_def run split: sum.splits)

definition with_thread :: "string \<Rightarrow> string \<Rightarrow> server \<Rightarrow> server" where
  "with_thread c tp s = s\<lparr>sv_threads := smap_put c
     \<lparr>ta_server = defaultName (sv_config s), ta_channel = c, ta_topic = tp,
      ta_notify = smap_get None (sv_notify s) c\<rparr> (sv_threads s)\<rparr>"

lemma start_channel_cases:
  assumes "smap_find (sv_notify s) c \<noteq> None"
  shows "wp (start_channel E c) (\<lambda>_ s'. \<exists>tp t. s' = with_thread c tp (s\<lparr>trace := trace s @ t\<rparr>))
    (\<lambda>_ s'. \<exists>t. s' = s\<lparr>trace := trace s @ t\<rparr>) s"
proof -
  let ?cfg = "sv_config s" and ?c = "sv_conn s"
  let ?pre = "bindE (checkChannelExists E ?c c (defaultName ?cfg)) (\<lambda>channel_exists.
     if channel_exists then getChannelTopic E ?c c (defaultName ?cfg)
     else thenE (insertChannel E ?c c (defaultTopic ?cfg) (defaultName ?cfg)) (ret (defaultTopic ?cfg)))"
  let ?post = "\<lambda>channelTopic. bindE (notify_pass_ptr c) (\<lambda>p.
       update (\<lambda>s. s\<lparr>sv_threads := smap_put c
         \<lparr>ta_server = defaultName ?cfg, ta_channel = c, ta_topic = channelTopic, ta_notify = p\<rparr>
         (sv_threads s)\<rparr>))"
  have eq: "start_channel E c s = bindE ?pre ?post s"
    by (simp add: start_channel_def run split: sum.splits prod.splits)
  have "quiet ?pre" by (intro quiet_intros)
  then obtain t where t: "snd (?pre s) = s\<lparr>trace := trace s @ t\<rparr>" by (rule quietE)
  have ptr: "pass_ptr c (the_notifier (s\<lparr>trace := u\<rparr>))
      = (smap_get None (sv_notify s) c, the_notifier (s\<lparr>trace := u\<rparr>))" for u
    using pass_ptr_known [of "the_notifier (s\<lparr>trace := u\<rparr>)" c] assms
    by (cases "pass_ptr c (the_notifier (s\<lparr>trace := u\<rparr>))") (simp add: pass_ptr_def the_notifier_def)
  have same: "set_notifier (the_notifier s') s' = s'" for s'
    by (simp add: set_notifier_def the_notifier_def)
  show ?thesis
  proof (cases "fst (?pre s)")
    case (Inl e)
    with t have "start_channel E c s = (Inl e, s\<lparr>trace := trace s @ t\<rparr>)"
      unfolding eq by (cases "?pre s") (simp add: run)
    then show ?thesis by (auto simp: wp_def)
  next
    case (Inr tp)
    with t have "?pre s = (Inr tp, s\<lparr>trace := trace s @ t\<rparr>)" by (cases "?pre s") simp
    then have "start_channel E c s = ?post tp (s\<lparr>trace := trace s @ t\<rparr>)"
      unfolding eq by (simp only: run_bind prod.case sum.case)
    also have "\<dots> = (Inr (), with_thread c tp (s\<lparr>trace := trace s @ t\<rparr>))"
      by (simp add: notify_pass_ptr_def run ptr same with_thread_def)
    finally show ?thesis by (auto simp: wp_def)
  qed
qed

end
