(* ===== verification/System.thy ===== *)
theory System
  imports Thread Registration Server_Stable
begin

text \<open>
  The server as a whole: the main thread and the channels' threads, interleaved. The main thread
  touches the shared state in three places of \<open>inner_scope_run\<close> (handing a user over, which is under
  the lock, raising the flag, starting the thread). A channel's thread touches it in two places of
  each iteration: it loads its flag, and, in \<open>grab_new\<close>, takes users and sockets under the lock; what
  it does then is on its own members. The threads interleave between any two of these steps. Every
  step is the code's own operation on the shared state and the private state of the thread that takes
  it.
\<close>

section \<open>States\<close>

datatype stage = Idle | Notifying string | Starting string | Stopped

text \<open>
  A thread is at the top of its loop, has seen its flag raised, or has users to greet. A thread that
  left its loop by an error is remembered with it in \<open>sys_ended\<close>; \<open>Stopped\<close> is the main thread after it
  left its own.
\<close>

datatype phase = At_top | Grabbing | Greeting "user list"

record system =
  sys_main :: server
  sys_threads :: "(string, servlet) smap"
  sys_phases :: "(string, phase) smap"
  sys_stage :: stage
  sys_ended :: "(string \<times> error) list"

definition phase_of :: "system \<Rightarrow> string \<Rightarrow> phase" where
  "phase_of y c = smap_get At_top (sys_phases y) c"

text \<open>
  The state that a thread sees: the shared part of the main thread's state and its own members; and
  the main thread's state after the thread changed the shared part.
\<close>

definition view :: "server \<Rightarrow> servlet \<Rightarrow> servlet" where
  "view sv st = shared.extend (shared.truncate sv) (shared.more st)"

definition publish :: "servlet \<Rightarrow> server \<Rightarrow> server" where
  "publish st sv = shared.extend (shared.truncate st) (shared.more sv)"

lemma view_fields [simp]:
  "trace (view sv st) = trace sv" "chan_newusers (view sv st) = chan_newusers sv"
  "global_socks (view sv st) = global_socks sv" "flags (view sv st) = flags sv"
  "selfdestruct (view sv st) = selfdestruct sv"
  "s_users (view sv st) = s_users st" "s_socks (view sv st) = s_socks st"
  "s_end_msgs (view sv st) = s_end_msgs st" "s_channel_name (view sv st) = s_channel_name st"
  "s_channel_topic (view sv st) = s_channel_topic st" "s_conn (view sv st) = s_conn st"
  by (cases sv; cases st; simp add: view_def shared.defs)+

lemma publish_fields [simp]:
  "trace (publish st sv) = trace st" "chan_newusers (publish st sv) = chan_newusers st"
  "global_socks (publish st sv) = global_socks st" "flags (publish st sv) = flags st"
  "sv_notify (publish st sv) = sv_notify sv" "sv_threads (publish st sv) = sv_threads sv"
  "sv_config (publish st sv) = sv_config sv" "sv_end_msgs (publish st sv) = sv_end_msgs sv"
  by (cases sv; cases st; simp add: publish_def shared.defs)+

text \<open>A thread that was started with the given arguments, with connection \<open>c\<close> to the database.\<close>

definition started :: "thread_args \<Rightarrow> conn \<Rightarrow> server \<Rightarrow> servlet" where
  "started ta c sv = new_servlet (ta_server ta) (ta_channel ta) (ta_topic ta) c (shared.truncate sv)"

lemma started_fields [simp]:
  "s_users (started ta c sv) = []" "s_socks (started ta c sv) = []" "s_end_msgs (started ta c sv) = []"
  "s_channel_name (started ta c sv) = ta_channel ta" "s_channel_topic (started ta c sv) = ta_topic ta"
  by (simp_all add: started_def new_servlet_def shared.defs servlet.defs)

section \<open>Steps\<close>

definition queue_of :: "server \<Rightarrow> string \<Rightarrow> (user \<times> string list) list" where
  "queue_of sv c = smap_get [] (chan_newusers sv) c"

definition users_of :: "system \<Rightarrow> string \<Rightarrow> user list" where
  "users_of y c = (case smap_find (sys_threads y) c of None \<Rightarrow> [] | Some st \<Rightarrow> s_users st)"

text \<open>The endpoints of a channel: of its users, and of those who wait for it.\<close>

definition endpoints_of :: "system \<Rightarrow> string \<Rightarrow> endpoint list" where
  "endpoints_of y c = map u_endpt (users_of y c @ map fst (queue_of (sys_main y) c))"

text \<open>
  An arriving user comes from an endpoint that no open connection has, and has sent PRIVMSG and TOPIC
  messages at most.
\<close>

definition fresh :: "(sock \<Rightarrow> endpoint) \<Rightarrow> system \<Rightarrow> user \<Rightarrow> string list \<Rightarrow> sock \<Rightarrow> bool" where
  "fresh peer y u ms k \<longleftrightarrow>
     u_endpt u = peer k \<and> (\<forall>c. peer k \<notin> set (endpoints_of y c))
     \<and> peer k \<notin> peer ` set (global_socks (sys_main y)) \<and> list_all plain ms"

text \<open>
  An iteration in pieces: what follows \<open>grab_new\<close>, and the iteration composed of it.
\<close>

definition serve :: "env \<Rightarrow> user list \<Rightarrow> (servlet, unit) cmd" where
  "serve E newusers =
     thenE (greet_all E newusers [] newusers)
    (thenE (update_endmsgs E)
    (bindE (gets check_endmsgs) (\<lambda>check. if check then handle_endmsgs E else ret ())))"

lemma servlet_iter_phases:
  "servlet_iter E notify = bindE (check_newusers notify) (\<lambda>check.
     if check then bindE (grab_new E) (serve E) else serve E [])"
  by (rule ext)
    (simp add: servlet_iter_def handle_newusers_def serve_def run split: sum.splits prod.splits)

definition moved :: "string \<Rightarrow> servlet \<Rightarrow> phase \<Rightarrow> system \<Rightarrow> system" where
  "moved c st ph y = y\<lparr>sys_main := publish st (sys_main y), sys_threads := smap_put c st (sys_threads y),
     sys_phases := smap_put c ph (sys_phases y)\<rparr>"

inductive thread_step :: "env \<Rightarrow> string \<Rightarrow> system \<Rightarrow> system \<Rightarrow> bool"
  for E :: env and c :: string where
  thread_looks:
    "phase_of y c = At_top \<Longrightarrow>
     smap_find (sys_threads y) c = Some st \<Longrightarrow> smap_find (sv_threads (sys_main y)) c = Some ta \<Longrightarrow>
     check_newusers (ta_notify ta) (view (sys_main y) st) = (Inr check, st') \<Longrightarrow>
     thread_step E c y (moved c st' (if check then Grabbing else Greeting []) y)"
| thread_grabs:
    "phase_of y c = Grabbing \<Longrightarrow> smap_find (sys_threads y) c = Some st \<Longrightarrow>
     grab_new E (view (sys_main y) st) = (Inr newusers, st') \<Longrightarrow>
     thread_step E c y (moved c st' (Greeting newusers) y)"
| thread_serves:
    "phase_of y c = Greeting newusers \<Longrightarrow> smap_find (sys_threads y) c = Some st \<Longrightarrow>
     serve E newusers (view (sys_main y) st) = (Inr (), st') \<Longrightarrow>
     thread_step E c y (moved c st' At_top y)"

text \<open>The operation that a thread comes to next fails, by an exception or by undefined behaviour.\<close>

inductive thread_fails :: "env \<Rightarrow> string \<Rightarrow> system \<Rightarrow> error \<Rightarrow> servlet \<Rightarrow> bool"
  for E :: env and c :: string where
  look_fails:
    "phase_of y c = At_top \<Longrightarrow>
     smap_find (sys_threads y) c = Some st \<Longrightarrow> smap_find (sv_threads (sys_main y)) c = Some ta \<Longrightarrow>
     check_newusers (ta_notify ta) (view (sys_main y) st) = (Inl e, st') \<Longrightarrow>
     thread_fails E c y e st'"
| grab_fails:
    "phase_of y c = Grabbing \<Longrightarrow> smap_find (sys_threads y) c = Some st \<Longrightarrow>
     grab_new E (view (sys_main y) st) = (Inl e, st') \<Longrightarrow> thread_fails E c y e st'"
| serve_fails:
    "phase_of y c = Greeting newusers \<Longrightarrow> smap_find (sys_threads y) c = Some st \<Longrightarrow>
     serve E newusers (view (sys_main y) st) = (Inl e, st') \<Longrightarrow> thread_fails E c y e st'"

definition ended :: "string \<Rightarrow> error \<Rightarrow> servlet \<Rightarrow> system \<Rightarrow> system" where
  "ended c e st y = y\<lparr>sys_main := publish st (sys_main y), sys_threads := smap_erase c (sys_threads y),
     sys_ended := (c, e) # sys_ended y\<rparr>"

text \<open>
  Between two users whom it hands over the main thread accepts, registers, rejects, and may leave its
  loop: it changes its own members and the trace only (\<open>main_pass_covered\<close> below), and whom it hands
  over is left open, up to \<open>fresh\<close>.
\<close>

inductive sys_step :: "env \<Rightarrow> (sock \<Rightarrow> endpoint) \<Rightarrow> system \<Rightarrow> system \<Rightarrow> bool"
  for E :: env and peer :: "sock \<Rightarrow> endpoint" where
  main_reads:
    "sys_stage y = Idle \<Longrightarrow> after_reading (sys_main y) sv \<Longrightarrow> sys_step E peer y (y\<lparr>sys_main := sv\<rparr>)"
| main_stops:
    "sys_stage y = Idle \<Longrightarrow> sys_step E peer y (y\<lparr>sys_stage := Stopped\<rparr>)"
| main_hands_over:
    "sys_stage y = Idle \<Longrightarrow> fresh peer y u ms k \<Longrightarrow>
     update_comm_structs u ms k (sys_main y) = (Inr (), sv) \<Longrightarrow>
     sys_step E peer y (y\<lparr>sys_main := sv, sys_stage := Notifying (u_chan u)\<rparr>)"
| main_notifies:
    "sys_stage y = Notifying c \<Longrightarrow> notify_update c (sys_main y) = (Inr (), sv) \<Longrightarrow>
     sys_step E peer y (y\<lparr>sys_main := sv, sys_stage := Starting c\<rparr>)"
| main_fails_notifying:
    "sys_stage y = Notifying c \<Longrightarrow> notify_update c (sys_main y) = (Inl e, sv) \<Longrightarrow>
     sys_step E peer y (y\<lparr>sys_main := sv, sys_stage := Stopped\<rparr>)"
| main_starts:
    "sys_stage y = Starting c \<Longrightarrow> \<not> smap_count (sv_threads (sys_main y)) c \<Longrightarrow>
     start_channel E c (sys_main y) = (Inr (), sv) \<Longrightarrow> smap_find (sv_threads sv) c = Some ta \<Longrightarrow>
     sys_step E peer y (y\<lparr>sys_main := sv, sys_stage := Idle,
       sys_threads := smap_put c (started ta conn sv) (sys_threads y),
       sys_phases := smap_put c At_top (sys_phases y)\<rparr>)"
| main_fails_starting:
    "sys_stage y = Starting c \<Longrightarrow> \<not> smap_count (sv_threads (sys_main y)) c \<Longrightarrow>
     start_channel E c (sys_main y) = (Inl e, sv) \<Longrightarrow>
     sys_step E peer y (y\<lparr>sys_main := sv, sys_stage := Stopped\<rparr>)"
| main_goes_on:
    "sys_stage y = Starting c \<Longrightarrow> smap_count (sv_threads (sys_main y)) c \<Longrightarrow>
     sys_step E peer y (y\<lparr>sys_stage := Idle\<rparr>)"
| thread_moves: "thread_step E c y z \<Longrightarrow> sys_step E peer y z"
| thread_ends: "thread_fails E c y e st \<Longrightarrow> sys_step E peer y (ended c e st y)"

inductive_cases sys_stepE: "sys_step E peer y z"

definition sys_init :: "system \<Rightarrow> bool" where
  "sys_init y \<longleftrightarrow> sys_stage y = Idle \<and> sys_threads y = [] \<and> sys_ended y = []
     \<and> chan_newusers (sys_main y) = [] \<and> global_socks (sys_main y) = []
     \<and> sv_notify (sys_main y) = [] \<and> sv_threads (sys_main y) = []"

section \<open>The invariant\<close>

text \<open>
  Every thread's private state is in order, and the users it is about to greet are its last ones; no endpoint belongs to two channels or twice to one; the
  sockets in the deque are those of the waiting users and of nobody's members; every thread runs with
  its channel's flag; and a user who waits has not been forgotten: the channel's flag is raised and
  its thread runs, or the main thread is about to see to it.
\<close>

definition threads_ok :: "(sock \<Rightarrow> endpoint) \<Rightarrow> system \<Rightarrow> bool" where
  "threads_ok peer y \<longleftrightarrow> (\<forall>c st. smap_find (sys_threads y) c = Some st \<longrightarrow>
     s_channel_name st = c \<and> servlet_ok peer st
     \<and> (\<forall>e. list_all plain (smap_get [] (s_end_msgs st) e))
     \<and> (\<forall>newusers. phase_of y c = Greeting newusers \<longrightarrow> (\<exists>old. s_users st = old @ newusers)))"

definition endpoints_ok :: "(sock \<Rightarrow> endpoint) \<Rightarrow> system \<Rightarrow> bool" where
  "endpoints_ok peer y \<longleftrightarrow>
     (\<forall>c. distinct (endpoints_of y c))
     \<and> (\<forall>c d. c \<noteq> d \<longrightarrow> set (endpoints_of y c) \<inter> set (endpoints_of y d) = {})
     \<and> distinct (map peer (global_socks (sys_main y)))
     \<and> (\<forall>c. u_endpt ` set (users_of y c) \<inter> peer ` set (global_socks (sys_main y)) = {})
     \<and> (\<forall>c. u_endpt ` fst ` set (queue_of (sys_main y) c) \<subseteq> peer ` set (global_socks (sys_main y)))
     \<and> (\<forall>c. \<forall>(u, ms) \<in> set (queue_of (sys_main y) c). list_all plain ms)"

definition flag_of :: "system \<Rightarrow> string \<Rightarrow> flag_ptr" where
  "flag_of y c = fst (pass_ptr c (the_notifier (sys_main y)))"

definition registry_ok :: "system \<Rightarrow> bool" where
  "registry_ok y \<longleftrightarrow>
     notifier_ok (the_notifier (sys_main y))
     \<and> (\<forall>c. smap_count (sys_threads y) c = smap_count (sv_threads (sys_main y)) c)
     \<and> (\<forall>c ta. smap_find (sv_threads (sys_main y)) c = Some ta \<longrightarrow>
          ta_notify ta = flag_of y c \<and> flag_raised (the_notifier (sys_main y)) (flag_of y c)
          \<and> ta_channel ta = c)
     \<and> (\<forall>c. sys_stage y = Starting c \<longrightarrow> flag_raised (the_notifier (sys_main y)) (flag_of y c))"

definition nobody_lost :: "system \<Rightarrow> bool" where
  "nobody_lost y \<longleftrightarrow> (\<forall>c. queue_of (sys_main y) c \<noteq> [] \<longrightarrow>
     smap_count (sys_threads y) c \<or> sys_stage y \<in> {Notifying c, Starting c, Stopped})"

text \<open>What holds while the environment works.\<close>

definition sys_inv :: "env \<Rightarrow> (sock \<Rightarrow> endpoint) \<Rightarrow> endpoint \<Rightarrow> system \<Rightarrow> bool" where
  "sys_inv E peer loc y \<longleftrightarrow>
     healthy E peer loc \<and> threads_ok peer y \<and> endpoints_ok peer y \<and> registry_ok y \<and> nobody_lost y"

lemma sys_init_inv: "healthy E peer loc \<Longrightarrow> sys_init y \<Longrightarrow> sys_inv E peer loc y"
  by (simp add: sys_init_def sys_inv_def threads_ok_def endpoints_ok_def registry_ok_def nobody_lost_def
      endpoints_of_def users_of_def queue_of_def smap_get_def the_notifier_def notifier_ok_def
      smap_count_def)

section \<open>Every step keeps it\<close>

lemma smap_find_put_eq: "smap_find (smap_put k v m) j = (if j = k then Some v else smap_find m j)"
  by simp

lemma update_comm_structs_run:
  "update_comm_structs u ms k s = (Inr (), s\<lparr>
     chan_newusers := smap_put (u_chan u) (smap_get [] (chan_newusers s) (u_chan u) @ [(u, ms)]) (chan_newusers s),
     global_socks := global_socks s @ [k]\<rparr>)"
  by (simp add: update_comm_structs_def run)

lemma notifier_frame [simp]:
  "the_notifier (s\<lparr>chan_newusers := w, global_socks := g\<rparr>) = the_notifier s"
  by (simp add: the_notifier_def)

text \<open>The endpoints stay in order when a user joins a queue, and when a queue is taken in.\<close>

lemma endpoints_ok_queued:
  assumes "endpoints_ok peer y" and "fresh peer y u ms k" and "\<And>c. users_of z c = users_of y c"
    and "global_socks (sys_main z) = global_socks (sys_main y) @ [k]"
    and "\<And>c. queue_of (sys_main z) c =
      queue_of (sys_main y) c @ (if c = u_chan u then [(u, ms)] else [])"
  shows "endpoints_ok peer z"
proof -
  note f = assms(2) [unfolded fresh_def]
  have ends: "endpoints_of z c = endpoints_of y c @ (if c = u_chan u then [peer k] else [])" for c
    using f by (simp add: endpoints_of_def assms(3,5))
  have members: "u_endpt ` set (users_of y c) \<subseteq> set (endpoints_of y c)" for c
    by (auto simp: endpoints_of_def)
  have "set (endpoints_of z c) \<inter> set (endpoints_of z d) = {}" if "c \<noteq> d" for c d
  proof -
    have "set (endpoints_of y c) \<inter> set (endpoints_of y d) = {}"
      using assms(1) that by (simp add: endpoints_ok_def)
    with f that show ?thesis by (auto simp: ends)
  qed
  moreover have "u_endpt ` set (users_of z c) \<inter> peer ` set (global_socks (sys_main z)) = {}" for c
    using assms(1) f members [of c] by (auto simp: endpoints_ok_def assms(3,4))
  moreover have "u_endpt ` fst ` set (queue_of (sys_main z) c) \<subseteq> peer ` set (global_socks (sys_main z))" for c
  proof -
    have "u_endpt ` fst ` set (queue_of (sys_main y) c) \<subseteq> peer ` set (global_socks (sys_main y))"
      using assms(1) by (simp add: endpoints_ok_def)
    with f show ?thesis by (auto simp: assms(4,5))
  qed
  moreover have "\<forall>(u, ms) \<in> set (queue_of (sys_main z) c). list_all plain ms" for c
    using assms(1) f by (auto simp: endpoints_ok_def assms(5))
  ultimately show ?thesis
    using assms(1) f by (simp add: endpoints_ok_def ends assms(4))
qed

lemma endpoints_ok_taken:
  assumes "endpoints_ok peer y"
    and "\<And>d. users_of z d = users_of y d @ (if d = c then map fst (queue_of (sys_main y) c) else [])"
    and "\<And>d. queue_of (sys_main z) d = (if d = c then [] else queue_of (sys_main y) d)"
    and "global_socks (sys_main z) = filter (\<lambda>k. peer k \<notin> set (endpoints_of y c)) (global_socks (sys_main y))"
  shows "endpoints_ok peer z"
proof -
  have ends: "endpoints_of z d = endpoints_of y d" for d
    by (simp add: endpoints_of_def assms(2,3))
  have "u_endpt ` set (users_of z d) \<inter> peer ` set (global_socks (sys_main z)) = {}" for d
  proof -
    have "u_endpt ` set (users_of y d) \<inter> peer ` set (global_socks (sys_main y)) = {}"
      using assms(1) by (simp add: endpoints_ok_def)
    moreover have "u_endpt u \<in> set (endpoints_of y c)" if "(u, ms) \<in> set (queue_of (sys_main y) c)" for u ms
      using that by (force simp: endpoints_of_def)
    ultimately show ?thesis by (force simp: assms(2,4))
  qed
  moreover have "u_endpt ` fst ` set (queue_of (sys_main z) d) \<subseteq> peer ` set (global_socks (sys_main z))" for d
  proof
    fix e assume "e \<in> u_endpt ` fst ` set (queue_of (sys_main z) d)"
    then have e: "d \<noteq> c" "e \<in> u_endpt ` fst ` set (queue_of (sys_main y) d)"
      by (auto simp: assms(3) split: if_splits)
    then have "e \<in> set (endpoints_of y d)" by (auto simp: endpoints_of_def)
    moreover have "set (endpoints_of y d) \<inter> set (endpoints_of y c) = {}"
      using assms(1) e(1) by (simp add: endpoints_ok_def)
    moreover have "e \<in> peer ` set (global_socks (sys_main y))"
      using assms(1) e(2) unfolding endpoints_ok_def by blast
    ultimately show "e \<in> peer ` set (global_socks (sys_main z))"
      by (auto simp: assms(4))
  qed
  moreover have "\<forall>(u, ms) \<in> set (queue_of (sys_main z) d). list_all plain ms" for d
    using assms(1) by (simp add: endpoints_ok_def assms(3))
  ultimately show ?thesis
    using assms(1) by (simp add: endpoints_ok_def ends assms(4) distinct_map_filter)
qed

lemma inv_hands_over:
  assumes "sys_inv E peer loc y" and "sys_stage y = Idle" and "fresh peer y u ms k"
    and "update_comm_structs u ms k (sys_main y) = (Inr (), sv)"
  shows "sys_inv E peer loc (y\<lparr>sys_main := sv, sys_stage := Notifying (u_chan u)\<rparr>)"
proof -
  let ?z = "y\<lparr>sys_main := sv, sys_stage := Notifying (u_chan u)\<rparr>"
  have sv: "sv = (sys_main y)\<lparr>chan_newusers := smap_put (u_chan u)
        (smap_get [] (chan_newusers (sys_main y)) (u_chan u) @ [(u, ms)]) (chan_newusers (sys_main y)),
      global_socks := global_socks (sys_main y) @ [k]\<rparr>"
    using assms(4) by (simp add: update_comm_structs_run)
  have queue: "queue_of sv c = queue_of (sys_main y) c @ (if c = u_chan u then [(u, ms)] else [])" for c
    by (simp add: sv queue_of_def)
  have y: "healthy E peer loc" "threads_ok peer y" "endpoints_ok peer y" "registry_ok y" "nobody_lost y"
    using assms(1) by (simp_all add: sys_inv_def)
  have "endpoints_ok peer ?z"
  proof (rule endpoints_ok_queued [OF y(3) assms(3)], goal_cases)
    case 2
    show ?case by (simp add: sv)
  qed (simp_all add: users_of_def queue)
  moreover have "threads_ok peer ?z"
    using y(2) by (simp add: threads_ok_def phase_of_def)
  moreover have "registry_ok ?z"
    using y(4) assms(2) by (simp add: registry_ok_def flag_of_def sv)
  moreover have "nobody_lost ?z"
    using y(5) assms(2) by (auto simp: nobody_lost_def queue)
  ultimately show ?thesis using y(1) by (simp add: sys_inv_def)
qed

lemma notify_update_eq:
  assumes "notify_update c s = (Inr (), s')"
  shows "notifier_update c (the_notifier s) = Inr (the_notifier s')"
    and "s' = set_notifier (the_notifier s') s"
  using assms by (auto simp: notify_update_def run split: sum.splits)

lemma set_notifier_fields [simp]:
  "chan_newusers (set_notifier n s) = chan_newusers s" "global_socks (set_notifier n s) = global_socks s"
  "sv_threads (set_notifier n s) = sv_threads s" "trace (set_notifier n s) = trace s"
  by (simp_all add: set_notifier_def)

lemma inv_notifies:
  assumes "sys_inv E peer loc y" and "sys_stage y = Notifying c"
    and "notify_update c (sys_main y) = (Inr (), sv)"
  shows "sys_inv E peer loc (y\<lparr>sys_main := sv, sys_stage := Starting c\<rparr>)"
proof -
  let ?z = "y\<lparr>sys_main := sv, sys_stage := Starting c\<rparr>" and ?n = "the_notifier (sys_main y)"
  have y: "healthy E peer loc" "threads_ok peer y" "endpoints_ok peer y" "registry_ok y" "nobody_lost y"
    using assms(1) by (simp_all add: sys_inv_def)
  have ok: "notifier_ok ?n" using y(4) by (simp add: registry_ok_def)
  note upd = notify_update_eq(1) [OF assms(3)]
  have same: "chan_newusers sv = chan_newusers (sys_main y)" "global_socks sv = global_socks (sys_main y)"
    "sv_threads sv = sv_threads (sys_main y)"
    by (subst notify_update_eq(2) [OF assms(3)], simp)+
  then have ends: "endpoints_of ?z d = endpoints_of y d" "users_of ?z d = users_of y d"
    "queue_of sv d = queue_of (sys_main y) d" for d
    by (simp_all add: endpoints_of_def users_of_def queue_of_def)
  have keeps: "flag_of ?z d = flag_of y d \<and> flag_raised (the_notifier sv) (flag_of ?z d)"
    if "flag_raised ?n (flag_of y d)" for d
    using notify_board.upd_stable [OF ok upd, of d] notify_board.upd_keeps [OF ok upd] that
    by (simp add: flag_of_def)
  have "flag_raised (the_notifier sv) (flag_of ?z c)"
    using notify_board.upd_raises [OF ok upd] by (simp add: flag_of_def)
  moreover have "notifier_ok (the_notifier sv)"
    using notify_board.upd_ok [OF ok upd] .
  moreover have "ta_notify ta = flag_of ?z d \<and> flag_raised (the_notifier sv) (flag_of ?z d) \<and> ta_channel ta = d"
    if "smap_find (sv_threads sv) d = Some ta" for d ta
  proof -
    have "flag_raised ?n (flag_of y d)" "ta_notify ta = flag_of y d" "ta_channel ta = d"
      using y(4) same that by (simp_all add: registry_ok_def)
    with keeps [of d] show ?thesis by metis
  qed
  ultimately have "registry_ok ?z"
    using y(4) same by (simp add: registry_ok_def)
  moreover have "endpoints_ok peer ?z"
    using y(3) same by (simp add: endpoints_ok_def ends)
  moreover have "threads_ok peer ?z" using y(2) by (simp add: threads_ok_def phase_of_def)
  moreover have "nobody_lost ?z"
    using y(5) assms(2) by (auto simp: nobody_lost_def ends)
  ultimately show ?thesis using y(1) by (simp add: sys_inv_def)
qed

text \<open>Starting a thread changes the register of threads and the trace, whatever the database does.\<close>

lemma start_channel_frame:
  assumes "start_channel E c s = (Inr (), s')" and "smap_find (sv_notify s) c \<noteq> None"
  shows "\<exists>tp t. s' = s\<lparr>sv_threads := smap_put c
     \<lparr>ta_server = defaultName (sv_config s), ta_channel = c, ta_topic = tp,
      ta_notify = smap_get None (sv_notify s) c\<rparr> (sv_threads s), trace := t\<rparr>"
proof -
  have swap: "s\<lparr>trace := t, sv_threads := m\<rparr> = s\<lparr>sv_threads := m, trace := t\<rparr>" for t m
    by (cases s) simp
  from wpD_Inr [OF start_channel_cases [OF assms(2)] assms(1)] show ?thesis
    by (auto simp: with_thread_def swap)
qed

lemma queue_frame [simp]:
  "queue_of (s\<lparr>sv_threads := th, trace := t\<rparr>) = queue_of s"
  by (simp add: queue_of_def fun_eq_iff)

lemma flag_raised_known:
  assumes "flag_raised n (fst (pass_ptr c n))"
  shows "smap_find (flag_map n) c \<noteq> None"
  using assms by (auto simp: flag_raised_iff pass_ptr_def smap_get_def split: option.splits)

lemma inv_starts:
  assumes "sys_inv E peer loc y" and "sys_stage y = Starting c"
    and "\<not> smap_count (sv_threads (sys_main y)) c"
    and "start_channel E c (sys_main y) = (Inr (), sv)" and "smap_find (sv_threads sv) c = Some ta"
  shows "sys_inv E peer loc (y\<lparr>sys_main := sv, sys_stage := Idle,
    sys_threads := smap_put c (started ta conn sv) (sys_threads y),
    sys_phases := smap_put c At_top (sys_phases y)\<rparr>)"
proof -
  let ?s = "sys_main y" and ?z = "y\<lparr>sys_main := sv, sys_stage := Idle,
    sys_threads := smap_put c (started ta conn sv) (sys_threads y),
    sys_phases := smap_put c At_top (sys_phases y)\<rparr>"
  have y: "healthy E peer loc" "threads_ok peer y" "endpoints_ok peer y" "registry_ok y" "nobody_lost y"
    using assms(1) by (simp_all add: sys_inv_def)
  have raised: "flag_raised (the_notifier ?s) (flag_of y c)"
    using y(4) assms(2) by (simp add: registry_ok_def)
  then have "smap_find (sv_notify ?s) c \<noteq> None"
    using flag_raised_known [of "the_notifier ?s" c] by (simp add: flag_of_def the_notifier_def)
  then obtain tp t where sv: "sv = ?s\<lparr>sv_threads := smap_put c
     \<lparr>ta_server = defaultName (sv_config ?s), ta_channel = c, ta_topic = tp,
      ta_notify = smap_get None (sv_notify ?s) c\<rparr> (sv_threads ?s), trace := t\<rparr>"
    using start_channel_frame [OF assms(4)] by blast
  have ta: "ta_channel ta = c" "ta_notify ta = flag_of y c"
    using assms(5) by (auto simp: sv flag_of_def pass_ptr_def the_notifier_def)
  have new: "smap_find (sys_threads y) c = None"
    using y(4) assms(3) unfolding registry_ok_def smap_count_def by (metis not_None_eq)
  have users: "users_of ?z d = users_of y d" for d
    using new by (simp add: users_of_def)
  have queue: "queue_of sv d = queue_of ?s d" for d by (simp add: sv)
  have ends: "endpoints_of ?z d = endpoints_of y d" for d
    by (simp add: endpoints_of_def users queue)
  have flag: "flag_of ?z d = flag_of y d" "the_notifier sv = the_notifier ?s" for d
    by (simp_all add: flag_of_def sv)
  have "threads_ok peer ?z"
    using y(2) ta(1) by (auto simp: threads_ok_def servlet_ok_def smap_get_def phase_of_def)
  moreover have "global_socks sv = global_socks ?s" by (simp add: sv)
  then have "endpoints_ok peer ?z" using y(3) by (simp add: endpoints_ok_def ends users queue)
  moreover have "registry_ok ?z"
  proof -
    have "smap_count (smap_put c st m) d = (d = c \<or> smap_count m d)" for st :: servlet and m d
      by (simp add: smap_count_def)
    moreover have "smap_find (sv_threads sv) d = (if d = c then Some ta else smap_find (sv_threads ?s) d)" for d
      using assms(5) by (auto simp: sv)
    ultimately show ?thesis
      using y(4) raised ta by (auto simp: registry_ok_def flag smap_count_def)
  qed
  moreover have "nobody_lost ?z"
    using y(5) assms(2) by (auto simp: nobody_lost_def queue smap_count_def)
  ultimately show ?thesis using y(1) by (simp add: sys_inv_def)
qed

text \<open>Nor does anything that leaves the shared state and the registers alone.\<close>

lemma inv_same:
  assumes "sys_inv E peer loc y" and "chan_newusers sv = chan_newusers (sys_main y)"
    and "global_socks sv = global_socks (sys_main y)" and "the_notifier sv = the_notifier (sys_main y)"
    and "sv_threads sv = sv_threads (sys_main y)"
    and "st = sys_stage y \<or> st = Stopped \<or> st = Idle \<and> (\<exists>c. sys_stage y = Starting c
      \<and> smap_count (sv_threads (sys_main y)) c)"
  shows "sys_inv E peer loc (y\<lparr>sys_main := sv, sys_stage := st\<rparr>)"
proof -
  let ?z = "y\<lparr>sys_main := sv, sys_stage := st\<rparr>"
  have "queue_of sv = queue_of (sys_main y)" by (simp add: queue_of_def fun_eq_iff assms(2))
  then have "endpoints_of ?z d = endpoints_of y d" "users_of ?z d = users_of y d" "flag_of ?z d = flag_of y d"
    "queue_of sv = queue_of (sys_main y)" for d
    by (simp_all add: endpoints_of_def users_of_def flag_of_def assms(4))
  with assms show ?thesis
    by (auto simp: sys_inv_def threads_ok_def endpoints_ok_def registry_ok_def nobody_lost_def phase_of_def)
qed

lemma servlet_ok_view [simp]: "servlet_ok peer (view sv st) = servlet_ok peer st"
  by (simp add: servlet_ok_def)

lemma waiting_for_view: "s_channel_name st = c \<Longrightarrow> waiting_for (view sv st) = queue_of sv c"
  by (simp add: waiting_for_def queue_of_def)

text \<open>A running thread finds its invariant and its raised flag.\<close>

lemma thread_view:
  assumes "sys_inv E peer loc y" and "smap_find (sys_threads y) c = Some st"
    and "smap_find (sv_threads (sys_main y)) c = Some ta"
  shows "thread_ok peer (view (sys_main y) st)"
    and "load_flag (flags (view (sys_main y) st)) (ta_notify ta) = Inr True"
proof -
  let ?sv = "sys_main y"
  have y: "threads_ok peer y" "endpoints_ok peer y" "registry_ok y"
    using assms(1) by (simp_all add: sys_inv_def)
  have st: "s_channel_name st = c" "servlet_ok peer st" "\<forall>e. list_all plain (smap_get [] (s_end_msgs st) e)"
    using y(1) assms(2) by (simp_all add: threads_ok_def)
  have users: "users_of y c = s_users st" using assms(2) by (simp add: users_of_def)
  have e: "distinct (endpoints_of y c)" "distinct (map peer (global_socks ?sv))"
    "u_endpt ` set (users_of y c) \<inter> peer ` set (global_socks ?sv) = {}"
    "u_endpt ` fst ` set (queue_of ?sv c) \<subseteq> peer ` set (global_socks ?sv)"
    "\<forall>(u, ms) \<in> set (queue_of ?sv c). list_all plain ms"
    using y(2) by (simp_all add: endpoints_ok_def)
  have "admissible peer (view ?sv st)"
    using e(1-4) st(2) unfolding admissible_def waiting_for_view [OF st(1)]
    by (simp add: endpoints_of_def users servlet_ok_def)
  then show "thread_ok peer (view ?sv st)"
    using st e(5) by (simp add: thread_ok_def waiting_for_view)
  have "flag_raised (the_notifier ?sv) (ta_notify ta)"
    using y(3) assms(3) by (simp add: registry_ok_def)
  then show "load_flag (flags (view ?sv st)) (ta_notify ta) = Inr True"
    by (simp add: flag_raised_def the_notifier_def)
qed

lemma phase_of_moved [simp]: "phase_of (moved c st ph y) d = (if d = c then ph else phase_of y d)"
  by (simp add: phase_of_def moved_def smap_get_def)

lemma moved_fields [simp]:
  "sys_main (moved c st ph y) = publish st (sys_main y)" "sys_stage (moved c st ph y) = sys_stage y"
  "sys_threads (moved c st ph y) = smap_put c st (sys_threads y)"
  by (simp_all add: moved_def)

lemma users_of_moved: "users_of (moved c st ph y) d = (if d = c then s_users st else users_of y d)"
  by (simp add: users_of_def)

text \<open>A step of a thread keeps the invariant if it leaves its own part and the endpoints in order.\<close>

lemma inv_moved:
  assumes "sys_inv E peer loc y" and "smap_count (sys_threads y) c"
    and "s_channel_name st = c" and "servlet_ok peer st"
    and "\<forall>e. list_all plain (smap_get [] (s_end_msgs st) e)"
    and "\<forall>newusers. ph = Greeting newusers \<longrightarrow> (\<exists>old. s_users st = old @ newusers)"
    and "flags st = flags (sys_main y)" and "endpoints_ok peer (moved c st ph y)"
    and "\<And>d. d \<noteq> c \<Longrightarrow> queue_of (publish st (sys_main y)) d = queue_of (sys_main y) d"
  shows "sys_inv E peer loc (moved c st ph y)"
proof -
  have y: "healthy E peer loc" "threads_ok peer y" "registry_ok y" "nobody_lost y"
    using assms(1) by (simp_all add: sys_inv_def)
  have same: "the_notifier (publish st (sys_main y)) = the_notifier (sys_main y)"
    "flag_of (moved c st ph y) d = flag_of y d" for d
    by (simp_all add: flag_of_def the_notifier_def assms(7))
  have count: "smap_count (smap_put c st m) d = (d = c \<or> smap_count m d)" for m d
    by (simp add: smap_count_def)
  have "threads_ok peer (moved c st ph y)"
    using y(2) assms(3-6) by (simp add: threads_ok_def)
  moreover have "registry_ok (moved c st ph y)"
    using y(3) assms(2) by (auto simp: registry_ok_def same count)
  moreover have "nobody_lost (moved c st ph y)"
    using y(4) assms(9) by (auto simp: nobody_lost_def count)
  ultimately show ?thesis using y(1) assms(8) by (simp add: sys_inv_def)
qed

lemma endpoints_ok_same:
  assumes "endpoints_ok peer y" and "users_of z = users_of y"
    and "global_socks (sys_main z) = global_socks (sys_main y)"
    and "queue_of (sys_main z) = queue_of (sys_main y)"
  shows "endpoints_ok peer z"
  using assms by (simp add: endpoints_ok_def endpoints_of_def)

section \<open>The steps of a thread\<close>

text \<open>Each finds what it needs, and keeps the invariant.\<close>

lemma looks_run:
  assumes "sys_inv E peer loc y" and "smap_find (sys_threads y) c = Some st"
    and "smap_find (sv_threads (sys_main y)) c = Some ta"
  shows "check_newusers (ta_notify ta) (view (sys_main y) st) = (Inr True, view (sys_main y) st)"
  using thread_view(2) [OF assms] by (simp add: check_newusers_def run)

lemma grabs_run:
  assumes "sys_inv E peer loc y" and "smap_find (sys_threads y) c = Some st"
    and "smap_find (sv_threads (sys_main y)) c = Some ta"
  obtains t where "grab_new E (view (sys_main y) st) = (Inr (map fst (queue_of (sys_main y) c)),
      (grabbed peer (view (sys_main y) st))\<lparr>trace := trace (sys_main y) @ t\<rparr>)"
    and "servlet_ok peer (grabbed peer (view (sys_main y) st))"
proof -
  let ?v = "view (sys_main y) st"
  have ok: "servlet_ok peer ?v" "admissible peer ?v"
    using thread_view(1) [OF assms] by (simp_all only: thread_ok_def)
  have "s_channel_name st = c"
    using assms(1,2) by (simp add: sys_inv_def threads_ok_def)
  note wait = waiting_for_view [OF this, of "sys_main y"]
  have "connected E peer UNIV"
    using assms(1) by (auto simp: sys_inv_def healthy_def intro: steady_connected)
  then have "wp (grab_new E) (\<lambda>us s'. \<exists>t. us = map fst (waiting_for ?v)
      \<and> s' = (grabbed peer ?v)\<lparr>trace := trace ?v @ t\<rparr>) (\<lambda>_ _. False) ?v"
    using servlet_ok_wf [OF ok(1)] by (intro wp_grab_new [where peer = peer]) (auto intro: connected_mono)
  then show thesis
    using that servlet_ok_grabbed [OF ok] by (elim wp_ok_run) (auto simp: wait)
qed

lemma serve_run:
  assumes "healthy E peer loc" and "servlet_ok peer s"
    and "\<forall>e. list_all plain (smap_get [] (s_end_msgs s) e)" and "s_users s = old @ newusers"
  obtains m c t where "serve E newusers s = (Inr (), s\<lparr>s_end_msgs := m, s_channel_topic := c, trace := t\<rparr>)"
    and "servlet_ok peer (s\<lparr>s_end_msgs := m\<rparr>)" and "queued_of m = []"
proof -
  have E: "steady E peer (set (s_socks s))" "\<forall>k \<in> set (s_socks s). \<forall>t. local_ep E t k = Some loc"
    "db_up E" "short_reads E" "plain_traffic E"
    using assms(1) steady_mono [of E peer UNIV] by (auto simp: healthy_def)
  have "wp (greet_all E ([] @ newusers) [] newusers)
      (\<lambda>_ s'. \<exists>t. s' = s\<lparr>trace := trace s @ t\<rparr>) (\<lambda>_ _. False) s"
    by (rule wp_greet_all [OF E(1) assms(2) E(2), where old = old and r = "\<lparr>members = old, topic = s_channel_topic s\<rparr>"])
      (auto simp: assms(4))
  then obtain t where t: "greet_all E newusers [] newusers s = (Inr (), s\<lparr>trace := trace s @ t\<rparr>)"
    by (elim wp_ok_run) auto
  let ?s = "s\<lparr>trace := trace s @ t\<rparr>"
  obtain s' t1 t2 m c where rest:
    "thenE (update_endmsgs E) (bindE (gets check_endmsgs)
       (\<lambda>check. if check then handle_endmsgs E else ret ())) ?s = (Inr (), s')"
    "s' = ?s\<lparr>s_end_msgs := m, s_channel_topic := c, trace := trace ?s @ t1 @ t2\<rparr>"
    "servlet_ok peer s'" "queued_of (s_end_msgs s') = []"
    by (rule endmsgs_stage [of E peer ?s]) (use E assms(2,3) in auto)
  show thesis
  proof (rule that [of "trace s @ t @ t1 @ t2" c m])
    show "serve E newusers s = (Inr (), s\<lparr>s_end_msgs := m, s_channel_topic := c,
        trace := trace s @ t @ t1 @ t2\<rparr>)"
      using rest(1) by (simp add: serve_def run t rest(2))
  qed (use rest(2-4) in \<open>simp_all add: servlet_ok_def\<close>)
qed

lemma thread_registered:
  assumes "sys_inv E peer loc y" and "smap_count (sys_threads y) c"
  obtains st ta where "smap_find (sys_threads y) c = Some st"
    and "smap_find (sv_threads (sys_main y)) c = Some ta"
proof -
  have "smap_count (sv_threads (sys_main y)) c"
    using assms by (simp add: sys_inv_def registry_ok_def)
  with assms(2) that show thesis by (auto simp: smap_count_def)
qed

lemma inv_looks:
  assumes "sys_inv E peer loc y" and "smap_find (sys_threads y) c = Some st"
  shows "sys_inv E peer loc (moved c (view (sys_main y) st) Grabbing y)"
proof (rule inv_moved [OF assms(1)], goal_cases)
  case 7
  have "endpoints_ok peer y" using assms(1) by (simp add: sys_inv_def)
  then show ?case
    by (rule endpoints_ok_same)
      (use assms(2) in \<open>auto simp: fun_eq_iff users_of_moved queue_of_def users_of_def\<close>)
qed (use assms in \<open>simp_all add: sys_inv_def threads_ok_def smap_count_def queue_of_def\<close>)

lemma inv_grabs:
  assumes "sys_inv E peer loc y" and "smap_find (sys_threads y) c = Some st"
    and "servlet_ok peer (grabbed peer (view (sys_main y) st))"
  shows "sys_inv E peer loc (moved c ((grabbed peer (view (sys_main y) st))\<lparr>trace := t\<rparr>)
    (Greeting (map fst (queue_of (sys_main y) c))) y)" (is "sys_inv E peer loc (moved c ?st ?ph y)")
proof -
  let ?sv = "sys_main y"
  have y: "endpoints_ok peer y" and st: "s_channel_name st = c"
      "\<forall>e. list_all plain (smap_get [] (s_end_msgs st) e)"
    using assms(1,2) by (simp_all add: sys_inv_def threads_ok_def)
  note wait = waiting_for_view [OF st(1), of ?sv]
  have uc: "users_of y c = s_users st" using assms(2) by (simp add: users_of_def)
  have queue: "queue_of (publish ?st ?sv) d = (if d = c then [] else queue_of ?sv d)" for d
    by (simp add: queue_of_def st(1))
  have "list_all plain ms" if "(u, ms) \<in> set (queue_of ?sv c)" for u ms
    using y that by (auto simp: endpoints_ok_def)
  then have plain: "\<forall>e. list_all plain (smap_get [] (s_end_msgs ?st) e)"
    using st(2) by (auto simp: admitted_get wait list_all_iff)
  have "endpoints_ok peer (moved c ?st ?ph y)"
  proof (rule endpoints_ok_taken [OF y, where c = c], goal_cases)
    case (1 d)
    show ?case by (simp add: users_of_moved wait uc)
  next
    case 3
    have "wanted peer (s_users st @ map fst (queue_of ?sv c)) k \<longleftrightarrow> peer k \<in> set (endpoints_of y c)" for k
      by (auto simp: wanted_def endpoints_of_def uc)
    then show ?case by (simp add: wait)
  qed (simp add: queue)
  then show ?thesis
    using assms(2,3) st(1) queue
    by (intro inv_moved [OF assms(1) _ _ _ plain]) (simp_all add: smap_count_def wait)
qed

lemma inv_serves:
  assumes "sys_inv E peer loc y" and "smap_find (sys_threads y) c = Some st"
    and "servlet_ok peer (view (sys_main y) st\<lparr>s_end_msgs := m\<rparr>)" and "queued_of m = []"
  shows "sys_inv E peer loc (moved c
    (view (sys_main y) st\<lparr>s_end_msgs := m, s_channel_topic := tp, trace := t\<rparr>) At_top y)"
proof (rule inv_moved [OF assms(1)], goal_cases)
  case 4
  have "smap_wf m" using servlet_ok_wf [OF assms(3)] by simp
  with assms(4) show ?case by (simp add: queued_Nil_plain)
next
  case 7
  have "endpoints_ok peer y" using assms(1) by (simp add: sys_inv_def)
  then show ?case
    by (rule endpoints_ok_same)
      (use assms(2) in \<open>auto simp: fun_eq_iff users_of_moved queue_of_def users_of_def\<close>)
qed (use assms in \<open>simp_all add: sys_inv_def threads_ok_def smap_count_def queue_of_def servlet_ok_def\<close>)

lemma inv_thread:
  assumes "sys_inv E peer loc y" and "thread_step E c y z"
  shows "sys_inv E peer loc z"
  using assms(2)
proof (cases rule: thread_step.cases)
  case (thread_looks st ta check st')
  with looks_run [OF assms(1) thread_looks(3,4)] inv_looks [OF assms(1) thread_looks(3)] show ?thesis
    by simp
next
  case (thread_grabs st newusers st')
  have "smap_count (sys_threads y) c" using thread_grabs(3) by (simp add: smap_count_def)
  with assms(1) obtain ta where ta: "smap_find (sv_threads (sys_main y)) c = Some ta"
    by (rule thread_registered)
  obtain t where "grab_new E (view (sys_main y) st) = (Inr (map fst (queue_of (sys_main y) c)),
      (grabbed peer (view (sys_main y) st))\<lparr>trace := trace (sys_main y) @ t\<rparr>)"
    "servlet_ok peer (grabbed peer (view (sys_main y) st))"
    by (rule grabs_run [OF assms(1) thread_grabs(3) ta])
  with thread_grabs(1,4) inv_grabs [OF assms(1) thread_grabs(3)] show ?thesis by auto
next
  case (thread_serves newusers st st')
  have E: "healthy E peer loc" and st: "servlet_ok peer (view (sys_main y) st)"
      "\<forall>e. list_all plain (smap_get [] (s_end_msgs (view (sys_main y) st)) e)"
      "\<exists>old. s_users (view (sys_main y) st) = old @ newusers"
    using assms(1) thread_serves(2,3) by (simp_all add: sys_inv_def threads_ok_def)
  from st(3) obtain old where "s_users (view (sys_main y) st) = old @ newusers" ..
  then obtain m tp t where "serve E newusers (view (sys_main y) st) =
      (Inr (), view (sys_main y) st\<lparr>s_end_msgs := m, s_channel_topic := tp, trace := t\<rparr>)"
    "servlet_ok peer (view (sys_main y) st\<lparr>s_end_msgs := m\<rparr>)" "queued_of m = []"
    by (rule serve_run [OF E st(1,2)])
  with thread_serves(1,4) inv_serves [OF assms(1) thread_serves(3)] show ?thesis by auto
qed

text \<open>In a working environment no thread's operation fails.\<close>

lemma thread_never_fails:
  assumes "sys_inv E peer loc y"
  shows "\<not> thread_fails E c y e st'"
proof
  assume "thread_fails E c y e st'"
  then show False
  proof (cases rule: thread_fails.cases)
    case (look_fails st ta)
    with looks_run [OF assms look_fails(2,3)] show False by simp
  next
    case (grab_fails st)
    have "smap_count (sys_threads y) c" using grab_fails(2) by (simp add: smap_count_def)
    with assms obtain ta where ta: "smap_find (sv_threads (sys_main y)) c = Some ta"
      by (rule thread_registered)
    show False by (rule grabs_run [OF assms grab_fails(2) ta]) (use grab_fails(3) in simp)
  next
    case (serve_fails newusers st)
    have E: "healthy E peer loc" and st: "servlet_ok peer (view (sys_main y) st)"
        "\<forall>e. list_all plain (smap_get [] (s_end_msgs (view (sys_main y) st)) e)"
        "\<exists>old. s_users (view (sys_main y) st) = old @ newusers"
      using assms serve_fails(1,2) by (simp_all add: sys_inv_def threads_ok_def)
    from st(3) obtain old where "s_users (view (sys_main y) st) = old @ newusers" ..
    then show False by (rule serve_run [OF E st(1,2)]) (use serve_fails(3) in simp)
  qed
qed

lemma after_reading_notifier: "after_reading s s' \<Longrightarrow> the_notifier s' = the_notifier s"
  by (simp add: the_notifier_def after_reading_fields)

lemma inv_starting_fails:
  assumes "sys_inv E peer loc y" and "sys_stage y = Starting c"
    and "start_channel E c (sys_main y) = (Inl e, sv)"
  shows "sys_inv E peer loc (y\<lparr>sys_main := sv, sys_stage := Stopped\<rparr>)"
proof -
  have "flag_raised (the_notifier (sys_main y)) (flag_of y c)"
    using assms(1,2) by (simp add: sys_inv_def registry_ok_def)
  then have "smap_find (sv_notify (sys_main y)) c \<noteq> None"
    using flag_raised_known [of "the_notifier (sys_main y)" c] by (simp add: flag_of_def the_notifier_def)
  from wpD_Inl [OF start_channel_cases [OF this] assms(3)] obtain t
    where "sv = (sys_main y)\<lparr>trace := trace (sys_main y) @ t\<rparr>" ..
  then show ?thesis by (intro inv_same [OF assms(1)]) (simp_all add: the_notifier_def)
qed

lemma inv_step:
  assumes "sys_inv E peer loc y" and "sys_step E peer y z"
  shows "sys_inv E peer loc z \<and> sys_ended z = sys_ended y"
  using assms(2,1)
proof (cases rule: sys_step.cases)
  case (main_reads sv)
  then have "sys_inv E peer loc (y\<lparr>sys_main := sv, sys_stage := sys_stage y\<rparr>)"
    by (intro inv_same [OF assms(1)]) (simp_all add: after_reading_fields after_reading_notifier)
  moreover have "y\<lparr>sys_main := sv, sys_stage := sys_stage y\<rparr> = y\<lparr>sys_main := sv\<rparr>" by simp
  ultimately show ?thesis by (simp only: main_reads(1)) simp
next
  case main_stops
  then have "sys_inv E peer loc (y\<lparr>sys_main := sys_main y, sys_stage := Stopped\<rparr>)"
    by (intro inv_same [OF assms(1)]) simp_all
  with main_stops show ?thesis by simp
next
  case main_hands_over
  with assms(1) show ?thesis by (simp add: inv_hands_over)
next
  case main_notifies
  with assms(1) show ?thesis by (simp add: inv_notifies)
next
  case (main_fails_notifying c e sv)
  have "notifier_ok (the_notifier (sys_main y))"
    using assms(1) by (simp add: sys_inv_def registry_ok_def)
  with main_fails_notifying(3) notifier_update_total [of "the_notifier (sys_main y)" c] show ?thesis
    by (auto simp: notify_update_def run split: sum.splits)
next
  case main_starts
  with assms(1) show ?thesis by (simp add: inv_starts)
next
  case main_fails_starting
  with assms(1) show ?thesis by (simp add: inv_starting_fails)
next
  case (main_goes_on c)
  then have "sys_inv E peer loc (y\<lparr>sys_main := sys_main y, sys_stage := Idle\<rparr>)"
    by (intro inv_same [OF assms(1)]) simp_all
  with main_goes_on show ?thesis by simp
next
  case (thread_moves c)
  moreover have "sys_ended z = sys_ended y"
    using thread_moves by (auto elim!: thread_step.cases simp: moved_def)
  ultimately show ?thesis using assms(1) by (simp add: inv_thread)
next
  case (thread_ends c e st)
  with thread_never_fails [OF assms(1)] show ?thesis by simp
qed

definition working :: "env \<Rightarrow> (sock \<Rightarrow> endpoint) \<Rightarrow> endpoint \<Rightarrow> system \<Rightarrow> bool" where
  "working E peer loc y \<longleftrightarrow> (healthy E peer loc \<longrightarrow> sys_inv E peer loc y \<and> sys_ended y = [])"

interpretation chat: invariant_system sys_init "sys_step E peer" "working E peer loc"
  for E peer loc
proof
  show "sys_init y \<Longrightarrow> working E peer loc y" for y
    by (simp add: working_def sys_init_inv) (simp add: sys_init_def)
  show "working E peer loc y \<Longrightarrow> sys_step E peer y z \<Longrightarrow> working E peer loc z" for y z
    using inv_step [of E peer loc y z] by (simp add: working_def)
qed

section \<open>The main thread's passes\<close>

text \<open>
  Every way in which the main thread accepts, registers and hands over or rejects a connection is a
  sequence of these steps, in every environment, if the user it hands over is \<open>fresh\<close>.
\<close>

lemma fresh_after_reading: "after_reading (sys_main y) sv \<Longrightarrow> fresh peer y u ms k \<Longrightarrow>
  fresh peer (y\<lparr>sys_main := sv\<rparr>) u ms k"
  by (simp add: fresh_def endpoints_of_def users_of_def queue_of_def after_reading_fields)

lemma main_pass_covered:
  assumes "sys_stage y = Idle" and "receive E (sys_main y) = (r, sv)"
  shows "case r of
      Inl e \<Rightarrow> (sys_step E peer)\<^sup>*\<^sup>* y (y\<lparr>sys_main := sv, sys_stage := Stopped\<rparr>)
    | Inr None \<Rightarrow> (sys_step E peer)\<^sup>*\<^sup>* y (y\<lparr>sys_main := sv\<rparr>)
    | Inr (Some c) \<Rightarrow> \<exists>u ms k. u_chan u = c \<and> accept_sock E (trace (sys_main y)) = Accepted k
        \<and> (fresh peer y u ms k \<longrightarrow>
             (sys_step E peer)\<^sup>*\<^sup>* y (y\<lparr>sys_main := sv, sys_stage := Notifying c\<rparr>))"
proof -
  have read: "sys_step E peer y (y\<lparr>sys_main := s1\<rparr>)" if "after_reading (sys_main y) s1" for s1
    using assms(1) that by (rule main_reads)
  have stop: "sys_step E peer (y\<lparr>sys_main := s1\<rparr>) (y\<lparr>sys_main := s1, sys_stage := Stopped\<rparr>)" for s1
    using main_stops [of "y\<lparr>sys_main := s1\<rparr>" E peer] assms(1) by simp
  have two_steps: "(sys_step E peer)\<^sup>*\<^sup>* y z" if "sys_step E peer y y'" and "sys_step E peer y' z" for y' z
    using that by (meson r_into_rtranclp rtranclp.rtrancl_into_rtrancl)
  have cases: "case r of Inl e \<Rightarrow> after_reading (sys_main y) sv
    | Inr None \<Rightarrow> after_reading (sys_main y) sv
    | Inr (Some c) \<Rightarrow> \<exists>k. accept_sock E (trace (sys_main y)) = Accepted k \<and> received k (sys_main y) c sv"
    using receive_cases [of E "sys_main y"] unfolding wp_def assms(2)
    by (cases r) (simp_all split: option.splits)
  show ?thesis
  proof (cases r)
    case (Inl e)
    with cases have "after_reading (sys_main y) sv" by simp
    from two_steps [OF read [OF this] stop] Inl show ?thesis by simp
  next
    case (Inr h)
    show ?thesis
    proof (cases h)
      case None
      with Inr cases have "after_reading (sys_main y) sv" by simp
      from r_into_rtranclp [of "sys_step E peer", OF read [OF this]] Inr None show ?thesis by simp
    next
      case (Some c)
      with Inr cases obtain k u ms s1 where k: "accept_sock E (trace (sys_main y)) = Accepted k"
        "after_reading (sys_main y) s1" "u_chan u = c" "sv = with_user u ms k s1"
        by (auto simp: received_def serving_def)
      have "(sys_step E peer)\<^sup>*\<^sup>* y (y\<lparr>sys_main := sv, sys_stage := Notifying c\<rparr>)"
        if "fresh peer y u ms k"
      proof (rule two_steps [OF read [OF k(2)]])
        show "sys_step E peer (y\<lparr>sys_main := s1\<rparr>) (y\<lparr>sys_main := sv, sys_stage := Notifying c\<rparr>)"
          using main_hands_over [of "y\<lparr>sys_main := s1\<rparr>" peer u ms k sv E] assms(1)
            fresh_after_reading [OF k(2) that] k(3,4)
          by (simp add: update_comm_structs_run with_user_def)
      qed
      with k(1,3) Inr Some show ?thesis by auto
    qed
  qed
qed

end
