(* ===== verification/Site.thy ===== *)
theory Site
  imports System
begin

text \<open>
  The server in an environment that may do anything: connections and the database fail, clients send
  what they like, SIGINT arrives at any time. The main thread and the channels' threads interleave as
  in \<open>System\<close>, but every operation may end in an exception, which ends its thread as the code ends it:
  a channel's thread prints the error and is gone, the main thread sets \<open>selfdestruct\<close>. An operation
  that reaches undefined behaviour has no next state.
\<close>

section \<open>States and steps\<close>

datatype main_stage = Accepting | Announcing string | Opening string | Ended

record site =
  site_main :: server
  site_stage :: main_stage
  site_threads :: "string \<Rightarrow> (phase \<times> servlet) option"

text \<open>The operation that a thread comes to next, and where it leaves the thread.\<close>

fun main_op :: "env \<Rightarrow> main_stage \<Rightarrow> (server, main_stage) cmd" where
  "main_op E Accepting = bindE (load_selfdestruct E) (\<lambda>stop.
     if stop then ret Ended
     else bindE (receive E) (\<lambda>handed.
       ret (case handed of None \<Rightarrow> Accepting | Some c \<Rightarrow> Announcing c)))"
| "main_op E (Announcing c) = thenE (notify_update c) (ret (Opening c))"
| "main_op E (Opening c) = thenE (open_channel E c) (ret Accepting)"
| "main_op E Ended = ret Ended"

fun thread_op :: "env \<Rightarrow> flag_ptr \<Rightarrow> phase \<Rightarrow> (servlet, phase option) cmd" where
  "thread_op E p At_top = bindE (load_selfdestruct E) (\<lambda>stop.
     if stop then ret None
     else bindE (check_newusers p) (\<lambda>check. ret (Some (if check then Grabbing else Greeting []))))"
| "thread_op E p Grabbing = bindE (grab_new E) (\<lambda>newusers. ret (Some (Greeting newusers)))"
| "thread_op E p (Greeting newusers) = thenE (serve E newusers) (ret (Some At_top))"

text \<open>The handlers of \<open>server_run\<close> and \<open>thread_run\<close>, after the loop has ended.\<close>

definition main_over :: "env \<Rightarrow> error + unit \<Rightarrow> server \<Rightarrow> server" where
  "main_over E r s = snd (catch_exception r
     (\<lambda>_. print_out ''\<newline>got signal to selfdestruct, going to cleanup _threads\<newline>'')
     (\<lambda>e. thenE (print_err (what E e @ ''\<newline>'')) (update (\<lambda>s. s\<lparr>selfdestruct := True\<rparr>))) s)"

definition thread_over :: "env \<Rightarrow> error + unit \<Rightarrow> servlet \<Rightarrow> servlet" where
  "thread_over E r s = snd (catch_exception r (\<lambda>_. print_out ''Thread exiting\<newline>'')
     (\<lambda>e. thenE (print_err ''There was an error:\<newline>'') (print_err (what E e @ ''\<newline>''))) s)"

definition exception :: "error \<Rightarrow> bool" where
  "exception e \<longleftrightarrow> \<not> is_ub e \<and> e \<noteq> Hangs"

text \<open>The threads after the main thread has entered new channels into \<open>_threads\<close>.\<close>

definition launch ::
  "conn \<Rightarrow> server \<Rightarrow> server \<Rightarrow> (string \<Rightarrow> (phase \<times> servlet) option) \<Rightarrow> string \<Rightarrow> (phase \<times> servlet) option" where
  "launch conn s s' th c =
     (case smap_find (sv_threads s') c of
        Some ta \<Rightarrow> if smap_count (sv_threads s) c then th c else Some (At_top, started ta conn s')
      | None \<Rightarrow> th c)"

inductive main_step :: "env \<Rightarrow> site \<Rightarrow> site \<Rightarrow> bool" for E :: env where
  main_moves:
    "site_stage y \<noteq> Ended \<Longrightarrow> main_op E (site_stage y) (site_main y) = (Inr st, sv) \<Longrightarrow> st \<noteq> Ended \<Longrightarrow>
     main_step E y (y\<lparr>site_main := sv, site_stage := st,
       site_threads := launch conn (site_main y) sv (site_threads y)\<rparr>)"
| main_stops:
    "site_stage y \<noteq> Ended \<Longrightarrow> main_op E (site_stage y) (site_main y) = (Inr Ended, sv) \<Longrightarrow>
     main_step E y (y\<lparr>site_main := main_over E (Inr ()) sv, site_stage := Ended\<rparr>)"
| main_fails:
    "site_stage y \<noteq> Ended \<Longrightarrow> main_op E (site_stage y) (site_main y) = (Inl e, sv) \<Longrightarrow> exception e \<Longrightarrow>
     main_step E y (y\<lparr>site_main := main_over E (Inl e) sv, site_stage := Ended\<rparr>)"

text \<open>
  A channel's thread after its operation: it goes on in its next phase, has left its loop, or has ended
  with an exception.
\<close>

definition chan_result ::
  "env \<Rightarrow> flag_ptr \<Rightarrow> phase \<Rightarrow> servlet \<Rightarrow> phase option \<Rightarrow> servlet \<Rightarrow> bool" where
  "chan_result E p ph s ph' s' \<longleftrightarrow>
     (case thread_op E p ph s of
        (Inr (Some q), s1) \<Rightarrow> ph' = Some q \<and> s' = s1
      | (Inr None, s1) \<Rightarrow> ph' = None \<and> s' = thread_over E (Inr ()) s1
      | (Inl e, s1) \<Rightarrow> exception e \<and> ph' = None \<and> s' = thread_over E (Inl e) s1)"

definition chan_moved :: "string \<Rightarrow> phase option \<Rightarrow> servlet \<Rightarrow> site \<Rightarrow> site" where
  "chan_moved c ph st y = y\<lparr>site_main := publish st (site_main y),
     site_threads := (site_threads y)(c := map_option (\<lambda>p. (p, st)) ph)\<rparr>"

inductive chan_step :: "env \<Rightarrow> string \<Rightarrow> site \<Rightarrow> site \<Rightarrow> bool" for E :: env and c :: string where
  chan_moves:
    "site_threads y c = Some (ph, st) \<Longrightarrow> smap_find (sv_threads (site_main y)) c = Some ta \<Longrightarrow>
     chan_result E (ta_notify ta) ph (view (site_main y) st) ph' st' \<Longrightarrow>
     chan_step E c y (chan_moved c ph' st' y)"

inductive site_step :: "env \<Rightarrow> site \<Rightarrow> site \<Rightarrow> bool" for E :: env where
  by_main: "main_step E y z \<Longrightarrow> site_step E y z"
| by_channel: "chan_step E c y z \<Longrightarrow> site_step E y z"

definition site_init :: "site \<Rightarrow> bool" where
  "site_init y \<longleftrightarrow> site_stage y = Accepting \<and> site_threads y = (\<lambda>_. None)
     \<and> chan_newusers (site_main y) = [] \<and> global_socks (site_main y) = []
     \<and> sv_end_msgs (site_main y) = [] \<and> sv_notify (site_main y) = [] \<and> sv_threads (site_main y) = []"

text \<open>\<open>~Server\<close> joins every thread of \<open>_threads\<close>: it returns when all of them have ended.\<close>

definition all_joined :: "site \<Rightarrow> bool" where
  "all_joined y \<longleftrightarrow> list_all (\<lambda>(c, ta). site_threads y c = None) (sv_threads (site_main y))"

lemma catch_simps [simp]:
  "catch_exception (Inr x) f h = f x" "exception e \<Longrightarrow> catch_exception (Inl e) f h = h e"
  by (auto simp: catch_exception_def exception_def)

lemma thread_over_eq:
  "(case r of Inl e \<Rightarrow> exception e | Inr _ \<Rightarrow> True) \<Longrightarrow>
     \<exists>t. thread_over E r s = s\<lparr>trace := trace s @ t\<rparr>"
  by (cases r) (auto simp: thread_over_def print_out_def print_err_def run)

lemma main_over_stop: "\<exists>t. main_over E (Inr ()) s = s\<lparr>trace := trace s @ t\<rparr>"
  by (auto simp: main_over_def print_out_def run)

lemma main_over_fail:
  "exception e \<Longrightarrow> \<exists>t. main_over E (Inl e) s = s\<lparr>selfdestruct := True, trace := trace s @ t\<rparr>"
  by (cases s) (auto simp: main_over_def print_err_def run)

context servlet_invariant
begin

lemma keeps_serve: "keeps I (serve E newusers)"
  unfolding serve_def by (intro keeps_then keeps_greet_all keeps_rest)

lemma keeps_thread_op: "keeps I (thread_op E p ph)"
proof (cases ph)
  case At_top
  then show ?thesis
    by (simp add: keeps_intros keeps_load_selfdestruct keeps_check_newusers)
next
  case Grabbing
  then show ?thesis by (simp add: keeps_intros keeps_grab_new)
next
  case (Greeting newusers)
  then show ?thesis by (simp add: keeps_intros keeps_serve)
qed

end

section \<open>The main thread's contract of an invariant\<close>

text \<open>The flag of the channel that the main thread is about to open has been raised.\<close>

definition raised_for :: "server \<Rightarrow> string \<Rightarrow> bool" where
  "raised_for s c \<longleftrightarrow> flag_raised (the_notifier s) (fst (pass_ptr c (the_notifier s)))"

definition stage_ready :: "main_stage \<Rightarrow> server \<Rightarrow> bool" where
  "stage_ready st s \<longleftrightarrow> (\<forall>c. st = Opening c \<longrightarrow> raised_for s c)"

lemma raised_for_known: "raised_for s c \<Longrightarrow> smap_find (sv_notify s) c \<noteq> None"
  using flag_raised_known [of "the_notifier s" c] by (simp add: raised_for_def the_notifier_def)

locale server_invariant =
  fixes E :: env
    and I :: "server \<Rightarrow> bool"
  assumes I_read: "I s \<Longrightarrow> after_reading s s' \<Longrightarrow> I s'"
    and I_signal: "I s \<Longrightarrow> I (s\<lparr>selfdestruct := True\<rparr>)"
    and I_received: "I s \<Longrightarrow> accept_sock E (trace s) = Accepted k \<Longrightarrow> received k s c s' \<Longrightarrow> I s'"
    and I_notify: "I s \<Longrightarrow> notifier_update c (the_notifier s) = Inr n \<Longrightarrow> I (set_notifier n s)"
    and I_thread: "I s \<Longrightarrow> raised_for s c \<Longrightarrow> \<not> smap_count (sv_threads s) c \<Longrightarrow> I (with_thread c tp s)"
begin

lemma I_trace: "I s \<Longrightarrow> I (s\<lparr>trace := trace s @ t\<rparr>)"
  using I_read after_reading_log [OF after_reading_refl] by blast

lemma poll_keeps: "I s \<Longrightarrow> wp (load_selfdestruct E) (\<lambda>stop s'. I s' \<and> (stop \<longrightarrow> selfdestruct s')) R s"
  using I_trace [of s "[Ev_poll]"] I_signal [of "s\<lparr>trace := trace s @ [Ev_poll]\<rparr>"]
  by (cases "signal_at E (trace s)")
    (simp_all add: load_selfdestruct_def signal_handler_def SIGINT_def wp_simps)

lemma receive_keeps:
  assumes "I s"
  shows "wp (receive E) (\<lambda>_. I) (\<lambda>_. I) s"
proof (rule wp_mono [OF receive_cases])
  fix h s'
  assume "case h of None \<Rightarrow> after_reading s s'
      | Some c \<Rightarrow> \<exists>k. accept_sock E (trace s) = Accepted k \<and> received k s c s'"
  with assms show "I s'" by (auto split: option.splits intro: I_read I_received)
qed (rule I_read [OF assms])

lemma notify_keeps: "I s \<Longrightarrow> wp (notify_update c) (\<lambda>_. I) (\<lambda>_. I) s"
  using notify_update_cases [where c = c and s = s]
  by (cases "notify_update c s"; cases "fst (notify_update c s)") (auto simp: wp_def I_notify)

lemma open_keeps:
  assumes "I s" and "raised_for s c"
  shows "wp (open_channel E c) (\<lambda>_. I) (\<lambda>_. I) s"
proof (cases "smap_count (sv_threads s) c")
  case True
  with assms show ?thesis by (simp add: open_channel_def wp_simps)
next
  case False
  have "wp (start_channel E c) (\<lambda>_. I) (\<lambda>_. I) s"
  proof (rule wp_mono [OF start_channel_cases [OF raised_for_known [OF assms(2)]]])
    fix x s' assume "\<exists>tp t. s' = with_thread c tp (s\<lparr>trace := trace s @ t\<rparr>)"
    then obtain tp t where s': "s' = with_thread c tp (s\<lparr>trace := trace s @ t\<rparr>)" by blast
    have "raised_for (s\<lparr>trace := trace s @ t\<rparr>) c"
      using assms(2) by (simp add: raised_for_def the_notifier_def)
    then show "I s'"
      unfolding s' by (intro I_thread I_trace assms(1)) (simp_all add: False)
  qed (auto intro: I_trace assms(1))
  with False show ?thesis by (simp add: open_channel_def wp_simps)
qed

lemma main_op_keeps:
  assumes "I s" and "stage_ready st s" and "st \<noteq> Ended"
  shows "wp (main_op E st) (\<lambda>st' s'. I s' \<and> (st' = Ended \<longrightarrow> selfdestruct s')) (\<lambda>_. I) s"
proof (cases st)
  case Accepting
  have "wp (load_selfdestruct E) (\<lambda>stop. wp (if stop then ret Ended
      else bindE (receive E) (\<lambda>handed. ret (case handed of None \<Rightarrow> Accepting | Some c \<Rightarrow> Announcing c)))
      (\<lambda>st' s'. I s' \<and> (st' = Ended \<longrightarrow> selfdestruct s')) (\<lambda>_. I)) (\<lambda>_. I) s"
    by (rule wp_mono [OF poll_keeps [OF assms(1)]])
      (auto simp: wp_simps wp_eta split: option.splits intro!: wp_mono [OF receive_keeps])
  with Accepting show ?thesis by (simp add: wp_bind)
next
  case (Announcing c)
  with wp_mono [OF notify_keeps [OF assms(1)]] show ?thesis by (simp add: wp_simps)
next
  case (Opening c)
  with assms wp_mono [OF open_keeps [OF assms(1)]] show ?thesis by (simp add: wp_simps stage_ready_def)
qed (use assms(3) in simp)

end

text \<open>After an operation the next stage is ready.\<close>

lemma stage_ready_next:
  assumes "notifier_ok (the_notifier s)" and "main_op E st s = (Inr st', s')"
  shows "stage_ready st' s'"
proof (cases st)
  case (Announcing c)
  with assms notify_update_cases [where c = c and s = s] have "st' = Opening c"
    "notifier_update c (the_notifier s) = Inr (the_notifier s')"
    by (auto simp: run the_notifier_def set_notifier_def split: sum.splits prod.splits)
  with notifier_update_raises [OF assms(1)] show ?thesis
    by (simp add: stage_ready_def raised_for_def)
qed (use assms(2) in \<open>auto simp: stage_ready_def run split: sum.splits prod.splits if_splits option.splits\<close>)

section \<open>Two invariants of the main thread\<close>

text \<open>
  Its queues hold messages as a reader produces them, its flags are in order, and every thread in its
  register is registered under its channel with a flag that can be read, and is raised.
\<close>

definition typed_main :: "server \<Rightarrow> bool" where
  "typed_main s \<longleftrightarrow> wire_queues (sv_end_msgs s) \<and> wire_waiting (chan_newusers s)
     \<and> notifier_ok (the_notifier s)
     \<and> (\<forall>c ta. smap_find (sv_threads s) c = Some ta \<longrightarrow>
          ta_channel ta = c \<and> flag_raised (the_notifier s) (ta_notify ta))"

text \<open>
  Compared with \<open>s0\<close>, no thread has left the register, no waiting user has left a queue, and no flag
  has been lowered.
\<close>

definition main_since :: "server \<Rightarrow> server \<Rightarrow> bool" where
  "main_since s0 s \<longleftrightarrow>
     (\<forall>c ta. smap_find (sv_threads s0) c = Some ta \<longrightarrow> smap_find (sv_threads s) c = Some ta)
     \<and> (\<forall>c. prefix (queue_of s0 c) (queue_of s c)) \<and> (selfdestruct s0 \<longrightarrow> selfdestruct s)
     \<and> (\<forall>p. flag_raised (the_notifier s0) p \<longrightarrow> flag_raised (the_notifier s) p)
     \<and> prefix (trace s0) (trace s)"

lemma with_user_fields [simp]:
  "the_notifier (with_user u ms k s) = the_notifier s" "sv_threads (with_user u ms k s) = sv_threads s"
  "sv_end_msgs (with_user u ms k s) = sv_end_msgs s" "selfdestruct (with_user u ms k s) = selfdestruct s"
  "trace (with_user u ms k s) = trace s" "global_socks (with_user u ms k s) = global_socks s @ [k]"
  "queue_of (with_user u ms k s) c = queue_of s c @ (if c = u_chan u then [(u, ms)] else [])"
  by (simp_all add: with_user_def the_notifier_def queue_of_def)

lemma with_thread_fields [simp]:
  "the_notifier (with_thread c tp s) = the_notifier s" "chan_newusers (with_thread c tp s) = chan_newusers s"
  "sv_end_msgs (with_thread c tp s) = sv_end_msgs s" "selfdestruct (with_thread c tp s) = selfdestruct s"
  "trace (with_thread c tp s) = trace s" "global_socks (with_thread c tp s) = global_socks s"
  "queue_of (with_thread c tp s) = queue_of s"
  by (simp_all add: with_thread_def the_notifier_def queue_of_def fun_eq_iff)

lemma set_notifier_more [simp]:
  "the_notifier (set_notifier n s) = n" "sv_end_msgs (set_notifier n s) = sv_end_msgs s"
  "selfdestruct (set_notifier n s) = selfdestruct s" "queue_of (set_notifier n s) = queue_of s"
  by (simp_all add: set_notifier_def the_notifier_def queue_of_def fun_eq_iff)

lemma signal_fields [simp]:
  "the_notifier (s\<lparr>selfdestruct := b\<rparr>) = the_notifier s" "queue_of (s\<lparr>selfdestruct := b\<rparr>) = queue_of s"
  by (simp_all add: the_notifier_def queue_of_def fun_eq_iff)

interpretation typed: server_invariant E typed_main for E
proof (unfold_locales, goal_cases)
  case (1 s s')
  then show ?case
    using after_reading_fields [OF 1(2)] after_reading_notifier [OF 1(2)] by (simp add: typed_main_def)
next
  case (2 s)
  then show ?case by (simp add: typed_main_def)
next
  case (3 s k c s')
  then obtain u ms s1 where s1: "after_reading s s1" "s' = with_user u ms k s1" "list_all wire_msg ms"
    by (auto simp: received_def serving_def typed_main_def)
  then have w: "wire_waiting (chan_newusers s1)"
    using after_reading_fields(1) [OF s1(1)] 3(1) by (simp add: typed_main_def)
  then have "wire_waiting (chan_newusers s')"
    using s1(2,3) by (auto simp: with_user_def intro!: wire_waiting_put) (auto simp: wire_waiting_def)
  with 3(1) show ?case
    using after_reading_fields [OF s1(1)] after_reading_notifier [OF s1(1)]
    by (simp add: typed_main_def s1(2))
next
  case (4 s c n)
  then show ?case
    using notify_board.upd_ok [OF _ 4(2)] notify_board.upd_keeps [OF _ 4(2)] by (simp add: typed_main_def)
next
  case (5 s c tp)
  have "flag_raised (the_notifier s) (smap_get None (sv_notify s) c)"
    using 5(2) by (simp add: raised_for_def pass_ptr_def the_notifier_def)
  with 5 show ?case by (simp add: typed_main_def) (simp add: with_thread_def)
qed

interpretation since: server_invariant E "main_since s0" for E s0
proof (unfold_locales, goal_cases)
  case (1 s s')
  then show ?case
    using after_reading_fields [OF 1(2)] after_reading_notifier [OF 1(2)]
    by (auto simp: main_since_def queue_of_def intro: prefix_prefix)
next
  case (2 s)
  then show ?case by (simp add: main_since_def)
next
  case (3 s k c s')
  then obtain u ms s1 where s1: "after_reading s s1" "s' = with_user u ms k s1"
    by (auto simp: received_def serving_def)
  have "queue_of s1 = queue_of s"
    using after_reading_fields(1) [OF s1(1)] by (simp add: queue_of_def fun_eq_iff)
  then show ?case
    using 3(1) after_reading_fields [OF s1(1)] after_reading_notifier [OF s1(1)]
    by (auto simp: main_since_def s1(2) intro: prefix_prefix)
next
  case (4 s c n)
  then show ?case
    using notifier_update_keeps [OF 4(2)] by (simp add: main_since_def)
next
  case (5 s c tp)
  then show ?case
    by (auto simp: main_since_def with_thread_def smap_count_def the_notifier_def queue_of_def)
qed

section \<open>The steps\<close>

text \<open>What a step of a channel's thread keeps, and what it leaves of the rest.\<close>

context servlet_invariant
begin

lemma chan_result_keeps:
  assumes "chan_result E p ph s ph' s'" and "I s"
  shows "I s'"
proof -
  obtain r s1 where op: "thread_op E p ph s = (r, s1)" by fastforce
  then have s1: "I s1" using keepsD [OF keeps_thread_op assms(2), of E p ph] by simp
  show ?thesis
  proof (cases r)
    case (Inl e)
    with assms(1) op thread_over_eq [of "Inl e" E s1] I_trace [OF s1] show ?thesis
      by (auto simp: chan_result_def)
  next
    case (Inr x)
    with assms(1) op s1 thread_over_eq [of "Inr ()" E s1] I_trace [OF s1] show ?thesis
      by (cases x) (auto simp: chan_result_def)
  qed
qed

end

context server_invariant
begin

lemma main_step_keeps:
  assumes "main_step E y z" and "I (site_main y)" and "stage_ready (site_stage y) (site_main y)"
  shows "I (site_main z)" and "site_stage z = Ended \<Longrightarrow> selfdestruct (site_main z)"
proof -
  note op = main_op_keeps [OF assms(2,3)]
  have "I (site_main z) \<and> (site_stage z = Ended \<longrightarrow> selfdestruct (site_main z))"
    using assms(1)
  proof (cases rule: main_step.cases)
    case (main_moves st sv conn)
    with op show ?thesis by (auto simp: wp_def)
  next
    case (main_stops sv)
    with op have "I sv" "selfdestruct sv" by (auto simp: wp_def)
    with main_over_stop [of E sv] I_trace main_stops(1) show ?thesis by auto
  next
    case (main_fails e sv)
    with op have "I sv" by (auto simp: wp_def)
    then have "I (sv\<lparr>selfdestruct := True\<rparr>)" by (rule I_signal)
    with main_over_fail [OF main_fails(4), of E sv] I_trace [of "sv\<lparr>selfdestruct := True\<rparr>"] main_fails(1)
    show ?thesis by auto
  qed
  then show "I (site_main z)" and "site_stage z = Ended \<Longrightarrow> selfdestruct (site_main z)" by auto
qed

end

section \<open>Well-typed states\<close>

text \<open>
  The main thread's state is well-typed; before it opens a channel it has raised its flag; every
  running thread is registered, runs under its own channel's name, and has well-typed queues; and when
  the main thread has ended, the whole server has been told to.
\<close>

definition well_typed :: "site \<Rightarrow> bool" where
  "well_typed y \<longleftrightarrow> typed_main (site_main y) \<and> stage_ready (site_stage y) (site_main y)
     \<and> (site_stage y = Ended \<longrightarrow> selfdestruct (site_main y))
     \<and> (\<forall>c ph st. site_threads y c = Some (ph, st) \<longrightarrow>
          smap_count (sv_threads (site_main y)) c \<and> s_channel_name st = c \<and> wire_queues (s_end_msgs st))"

lemma well_typed_init: "site_init y \<Longrightarrow> well_typed y"
  by (simp add: site_init_def well_typed_def typed_main_def wire_queues_def wire_waiting_def smap_get_def
      notifier_ok_def the_notifier_def stage_ready_def)

lemma main_since_refl: "main_since s s"
  by (simp add: main_since_def)

lemma main_since_registered: "main_since s0 s \<Longrightarrow> smap_count (sv_threads s0) c \<Longrightarrow> smap_count (sv_threads s) c"
  by (auto simp: main_since_def smap_count_def)

text \<open>The threads after a step of the main thread: those before, and new ones of registered channels.\<close>

lemma main_step_threads:
  assumes "main_step E y z" and "site_threads z c = Some (ph, st)"
  shows "site_threads y c = Some (ph, st) \<or> (\<exists>ta conn. ph = At_top \<and> \<not> smap_count (sv_threads (site_main y)) c
    \<and> smap_find (sv_threads (site_main z)) c = Some ta \<and> st = started ta conn (site_main z))"
  using assms
  by (cases rule: main_step.cases) (auto simp: launch_def split: option.splits if_splits)

lemma well_typed_main_step:
  assumes "well_typed y" and "main_step E y z"
  shows "well_typed z"
proof -
  have y: "typed_main (site_main y)" "stage_ready (site_stage y) (site_main y)"
    using assms(1) by (simp_all add: well_typed_def)
  note z = typed.main_step_keeps [OF assms(2) y]
  have since: "main_since (site_main y) (site_main z)"
    using since.main_step_keeps(1) [OF assms(2) main_since_refl y(2)] .
  have "stage_ready (site_stage z) (site_main z)"
    using assms(2)
  proof (cases rule: main_step.cases)
    case (main_moves st sv conn)
    with y(1) stage_ready_next [of "site_main y" E "site_stage y" st sv] show ?thesis
      by (simp add: typed_main_def)
  qed (simp_all add: stage_ready_def)
  moreover have "smap_count (sv_threads (site_main z)) c \<and> s_channel_name st = c \<and> wire_queues (s_end_msgs st)"
    if thr: "site_threads z c = Some (ph, st)" for c ph st
  proof -
    consider "site_threads y c = Some (ph, st)"
      | ta conn where "smap_find (sv_threads (site_main z)) c = Some ta" "st = started ta conn (site_main z)"
      using main_step_threads [OF assms(2) thr] by blast
    then show ?thesis
    proof cases
      case 1
      with assms(1) main_since_registered [OF since] show ?thesis by (auto simp: well_typed_def)
    next
      case 2
      with z(1) show ?thesis
        by (auto simp: typed_main_def smap_count_def wire_queues_def smap_get_def)
    qed
  qed
  ultimately show ?thesis using z by (simp add: well_typed_def)
qed

lemma publish_notifier: "flags st = flags s \<Longrightarrow> the_notifier (publish st s) = the_notifier s"
  by (simp add: the_notifier_def)

lemma publish_selfdestruct [simp]: "selfdestruct (publish st s) = selfdestruct st"
  by (cases s; cases st) (simp add: publish_def shared.defs)

lemma at_home_refl: "at_home s s"
  by (auto simp: at_home_def)

lemma chan_moved_fields [simp]:
  "site_main (chan_moved c ph st y) = publish st (site_main y)" "site_stage (chan_moved c ph st y) = site_stage y"
  "site_threads (chan_moved c ph st y) d
     = (if d = c then map_option (\<lambda>p. (p, st)) ph else site_threads y d)"
  by (simp_all add: chan_moved_def)

lemma well_typed_chan_step:
  assumes "well_typed y" and "chan_step E c y z"
  shows "well_typed z"
  using assms(2)
proof (cases rule: chan_step.cases)
  case (chan_moves ph st ta ph' st')
  let ?v = "view (site_main y) st"
  have y: "typed_main (site_main y)" "s_channel_name st = c" "wire_queues (s_end_msgs st)"
      "smap_count (sv_threads (site_main y)) c"
    using assms(1) chan_moves(2) by (auto simp: well_typed_def)
  then have "wire_typed ?v" by (simp add: wire_typed_def typed_main_def)
  then have w: "wire_typed st'" by (rule wire.chan_result_keeps [OF chan_moves(4)])
  have h: "at_home ?v st'" by (rule home.chan_result_keeps [OF chan_moves(4) at_home_refl])
  then have n: "the_notifier (publish st' (site_main y)) = the_notifier (site_main y)"
    by (intro publish_notifier) (simp add: at_home_def)
  have "typed_main (publish st' (site_main y))"
    using y(1) w n by (simp add: typed_main_def wire_typed_def)
  moreover have "stage_ready (site_stage y) (publish st' (site_main y))"
    using assms(1) n by (simp add: well_typed_def stage_ready_def raised_for_def)
  ultimately show ?thesis
    unfolding chan_moves(1) using assms(1) h w y(2,4)
    by (auto simp: well_typed_def at_home_def wire_typed_def)
qed

lemma well_typed_step: "well_typed y \<Longrightarrow> site_step E y z \<Longrightarrow> well_typed z"
  by (erule site_step.cases) (auto intro: well_typed_main_step well_typed_chan_step)

interpretation site: invariant_system site_init "site_step E" well_typed for E
  by unfold_locales (fact well_typed_init, fact well_typed_step)

end
