(* ===== verification/Server_Props.thy ===== *)
theory Server_Props
  imports Registration
begin

text \<open>
  Properties of the main thread: what a registration does and does not do, what ends the server, and
  the conversion of password hashes.
\<close>

section \<open>A connection for the witnesses\<close>

text \<open>
  Socket 7 connects, once, and sends its registration in two chunks; the database knows a user \<open>alice\<close>
  whose stored hash is that of any six-letter password, and no channel. SIGINT arrives after the first
  poll of \<open>selfdestruct\<close>.
\<close>

definition lab_chunks :: "string \<Rightarrow> string list list" where
  "lab_chunks pass = [[''NICK alice'', ''USER al * * :Alice''],
     [''PASS '' @ pass, ''JOIN #lab'', ''PRIVMSG #lab :hi'']]"

definition lab_hash :: "string \<Rightarrow> string" where
  "lab_hash pass = replicate 32 (char_of (length pass mod 256))"

definition lab_door :: "string \<Rightarrow> env" where
  "lab_door pass = lab_env\<lparr>accept_sock := \<lambda>t. if Ev_set_option 7 \<in> set t then Would_block else Accepted 7,
     signal_at := \<lambda>t. Ev_poll \<in> set t,
     read_some := \<lambda>t k. if reads_of k t < 2 then lines_text (lab_chunks pass ! reads_of k t) else [],
     field_bool := \<lambda>f. (case f of None \<Rightarrow> None | Some b \<Rightarrow> Some (b = ''yes'')),
     exec_sql := \<lambda>t c q. if q = q_checkUserExists lab_env ''alice'' then Some [[Some ''yes'']]
       else if q = q_password lab_env ''alice'' then Some [[Some (lab_hash ''secret'')]]
       else Some [[Some ''none'']]\<rparr>"

definition lab_arrival :: "string \<Rightarrow> arrival" where
  "lab_arrival pass = \<lparr>ar_sock = 7, ar_nick = ''alice'', ar_user = ''al'', ar_real = ''Alice'',
     ar_pass = pass, ar_chan = ''#lab'', ar_more = [''PRIVMSG #lab :hi'']\<rparr>"

definition lab_server :: server where
  "lab_server = \<lparr>trace = [], chan_newusers = [], global_socks = [], flags = [], selfdestruct = False,
     sv_end_msgs = [], sv_notify = [], sv_threads = [], sv_conn = 0,
     sv_config = \<lparr>defaultName = ''lab'', defaultTopic = ''start''\<rparr>\<rparr>"

lemma lab_server_fields [simp]:
  "trace lab_server = []" "chan_newusers lab_server = []" "global_socks lab_server = []"
  "sv_end_msgs lab_server = []" "sv_notify lab_server = []" "sv_threads lab_server = []"
  "sv_conn lab_server = 0" "sv_config lab_server = \<lparr>defaultName = ''lab'', defaultTopic = ''start''\<rparr>"
  "selfdestruct lab_server = False"
  "the_notifier lab_server = \<lparr>flag_map = [], flag_heap = []\<rparr>"
  by (simp_all add: lab_server_def the_notifier_def)

lemma lab_door_delivers:
  assumes "pass \<in> {''secret'', ''guess''}"
  shows "delivers (lab_door pass) 7 (lab_chunks pass)"
proof -
  have "length (lines_text c) < BUFF_SIZE" if "c \<in> set (lab_chunks pass)" for c
    using assms that by (auto simp: lab_chunks_def lines_text_def crlf_def BUFF_SIZE_def)
  moreover have "c \<noteq> [] \<and> list_all line c" if "c \<in> set (lab_chunks pass)" for c
    using assms that by (auto simp: lab_chunks_def line_def nul_def)
  moreover have "length (lab_chunks pass) = 2" by (simp add: lab_chunks_def)
  ultimately show ?thesis by (auto simp: delivers_def lab_door_def)
qed

lemma lab_arrives:
  assumes "pass \<in> {''secret'', ''guess''}"
  shows "arrives (lab_door pass) lab_peer (Endpoint 0x7F000001 8080) (lab_chunks pass) (lab_arrival pass)
    lab_server"
proof -
  have "pending (lab_peer 7) 7 (lab_chunks pass) lab_server = arrival_lines (lab_arrival pass)"
    by (simp add: pending_def lab_chunks_def arrival_lines_def lab_arrival_def registration_lines_def
        smap_get_def)
  moreover have "separated '' * * :'' [''USER al'', ''Alice'']"
    by (simp add: starts_with_def)
  ultimately show ?thesis
    using lab_door_delivers [OF assms]
    by (simp add: arrives_def lab_arrival_def steady_def lab_door_def)
qed

lemma lab_door_db: "db_up (lab_door pass)"
  by (simp add: db_up_def lab_door_def q_now_def q_checkUserExists_def q_password_def)

lemma lab_door_account: "account (lab_door pass) ''alice'' (Some (lab_hash ''secret''))"
  by (simp add: account_def lab_door_def q_checkUserExists_def q_password_def)

lemma lab_door_row: "channel_row (lab_door pass) ''lab'' ''#lab'' None"
  by (simp add: channel_row_def lab_door_def q_checkChannelExists_def q_checkUserExists_def q_password_def)

lemma lab_door_hash: "hashPassword (lab_door pass) p = Inr (True, lab_hash p)"
proof -
  have "convert_all (lab_door pass) (replicate n c) = Inr (replicate n (char_of c))" if "c < 256" for n c
    using that by (induction n) (simp_all add: convertChar_def lab_door_def)
  then show ?thesis
    by (simp add: hashPassword_def lab_hash_def lab_door_def)
qed

lemma lab_notifier_ok: "notifier_ok \<lparr>flag_map = [], flag_heap = []\<rparr>"
  by (simp add: notifier_ok_def)

section \<open>Properties\<close>

text \<open>C9: A client that registers with an unknown name or the stored password is handed over exactly
  once, however its bytes are cut into reads at line ends: one pass of \<open>inner_scope_run\<close> puts it,
  with the messages it had sent too early and that were already read, at the end of its channel's
  queue and its socket at the end of the deque, forgets its own copy of the messages, raises the
  channel's flag through the notifier, and starts a thread exactly when the channel has none, with
  the stored topic or else the default one and the channel's own flag; the only line written is the
  welcome.\<close>

theorem registration_hands_over:
  assumes "arrives E peer loc chunks a s" and "db_up E" and "smap_wf (sv_end_msgs s)"
    and "hashPassword E (ar_pass a) = Inr (success, h)" and "account E (ar_nick a) acc"
    and "accepts acc h" and "notifier_ok (the_notifier s)"
    and "channel_row E (defaultName (sv_config s)) (ar_chan a) row"
  shows "\<exists>s' tmp rest t. inner_scope_run E s = (Inr (), s')
    \<and> trace s' = trace s @ t \<and> sent t = [(ar_sock a, answer_to E peer loc a True)]
    \<and> chan_newusers s' = smap_put (ar_chan a) (smap_get [] (chan_newusers s) (ar_chan a)
          @ [(set_channel (ar_chan a) (client_of peer a h), tmp)]) (chan_newusers s)
    \<and> ar_more a = tmp @ rest
    \<and> global_socks s' = global_socks s @ [ar_sock a]
    \<and> smap_find (sv_end_msgs s') (peer (ar_sock a)) = None
    \<and> notifier_ok (the_notifier s')
    \<and> flag_raised (the_notifier s') (fst (pass_ptr (ar_chan a) (the_notifier s')))
    \<and> sv_threads s' = (if smap_count (sv_threads s) (ar_chan a) then sv_threads s
          else smap_put (ar_chan a) \<lparr>ta_server = defaultName (sv_config s), ta_channel = ar_chan a,
             ta_topic = topic_at_start (sv_config s) row,
             ta_notify = smap_get None (sv_notify s') (ar_chan a)\<rparr> (sv_threads s))"
proof -
  obtain s' tmp rest t where r: "inner_scope_run E s = (Inr (), s')"
    "trace s' = trace s @ t" "sent t = [(ar_sock a, answer_to E peer loc a True)]"
    "chan_newusers s' = smap_put (ar_chan a) (smap_get [] (chan_newusers s) (ar_chan a)
          @ [(set_channel (ar_chan a) (client_of peer a h), tmp)]) (chan_newusers s)"
    "ar_more a = tmp @ rest" "global_socks s' = global_socks s @ [ar_sock a]"
    "smap_find (sv_end_msgs s') (peer (ar_sock a)) = None"
    "notifier_update (ar_chan a) (the_notifier s) = Inr (the_notifier s')"
    "sv_threads s' = (if smap_count (sv_threads s) (ar_chan a) then sv_threads s
          else smap_put (ar_chan a) \<lparr>ta_server = defaultName (sv_config s), ta_channel = ar_chan a,
             ta_topic = topic_at_start (sv_config s) row,
             ta_notify = smap_get None (sv_notify s') (ar_chan a)\<rparr> (sv_threads s))"
    by (rule inner_run_success [OF assms]) (rule that; assumption)
  moreover have "notifier_ok (the_notifier s')"
    "flag_raised (the_notifier s') (fst (pass_ptr (ar_chan a) (the_notifier s')))"
    using notify_board.upd_ok [OF assms(7) r(8)] notify_board.upd_raises [OF assms(7) r(8)] by simp_all
  ultimately show ?thesis by blast
qed

lemma registration_hands_over_witness:
  "\<exists>s'. inner_scope_run (lab_door ''secret'') lab_server = (Inr (), s') \<and> global_socks s' = [7]
     \<and> smap_keys (sv_threads s') = [''#lab'']"
proof -
  have a: "ar_sock (lab_arrival ''secret'') = 7" "ar_chan (lab_arrival ''secret'') = ''#lab''"
    "ar_nick (lab_arrival ''secret'') = ''alice''" "ar_pass (lab_arrival ''secret'') = ''secret''"
    by (simp_all add: lab_arrival_def)
  have "\<exists>s' tmp rest t. inner_scope_run (lab_door ''secret'') lab_server = (Inr (), s')
    \<and> global_socks s' = [7] \<and> sv_threads s' = smap_put ''#lab'' \<lparr>ta_server = ''lab'', ta_channel = ''#lab'',
             ta_topic = ''start'', ta_notify = smap_get None (sv_notify s') ''#lab''\<rparr> []"
    using registration_hands_over [OF lab_arrives lab_door_db, of "''secret''" True "lab_hash ''secret''"
        "Some (lab_hash ''secret'')" None] lab_door_hash [of "''secret''" "''secret''"]
      lab_door_account [of "''secret''"] lab_door_row [of "''secret''"] lab_notifier_ok
    by (simp add: a accepts_def topic_at_start_def smap_count_def) blast
  then show ?thesis by auto
qed

text \<open>C23: A client with a wrong password gets the 464 reply and nothing else: nothing is queued for any
  channel, no socket is handed over, no thread or flag changes, no login is recorded, and the
  connection is closed. The lines after the password are not consumed: those that were already read
  stay behind in \<open>_end_msgs\<close> under the client's endpoint.\<close>

theorem registration_rejects:
  assumes "arrives E peer loc chunks a s" and "db_up E" and "smap_wf (sv_end_msgs s)"
    and "hashPassword E (ar_pass a) = Inr (success, h)" and "account E (ar_nick a) acc"
    and "\<not> accepts acc h"
  shows "\<exists>s' t. inner_scope_run E s = (Inr (), s')
    \<and> trace s' = trace s @ t @ [Ev_close (ar_sock a)]
    \<and> sent t = [(ar_sock a, answer_to E peer loc a False)]
    \<and> executed t = map (Pair (sv_conn s)) (user_statements E acc (client_of peer a h))
    \<and> chan_newusers s' = chan_newusers s \<and> global_socks s' = global_socks s
    \<and> sv_threads s' = sv_threads s \<and> the_notifier s' = the_notifier s
    \<and> pending (peer (ar_sock a)) (ar_sock a) chunks s' = (''JOIN '' @ ar_chan a) # ar_more a"
proof -
  obtain s' t where "inner_scope_run E s = (Inr (), s')"
    "trace s' = trace s @ t @ [Ev_close (ar_sock a)]"
    "sent t = [(ar_sock a, answer_to E peer loc a False)]"
    "executed t = map (Pair (sv_conn s)) (user_statements E acc (client_of peer a h))"
    "chan_newusers s' = chan_newusers s" "global_socks s' = global_socks s"
    "sv_threads s' = sv_threads s" "the_notifier s' = the_notifier s"
    "pending (peer (ar_sock a)) (ar_sock a) chunks s' = (''JOIN '' @ ar_chan a) # ar_more a"
    using assms by (rule inner_run_rejected)
  then show ?thesis by blast
qed

lemma registration_rejects_witness:
  "\<exists>s'. inner_scope_run (lab_door ''guess'') lab_server = (Inr (), s') \<and> global_socks s' = []
     \<and> last (trace s') = Ev_close 7"
proof -
  have a: "ar_sock (lab_arrival ''guess'') = 7" "ar_nick (lab_arrival ''guess'') = ''alice''"
    "ar_pass (lab_arrival ''guess'') = ''guess''"
    by (simp_all add: lab_arrival_def)
  have differ: "lab_hash ''secret'' \<noteq> lab_hash ''guess''"
    by (simp add: lab_hash_def)
  have "\<exists>s' t. inner_scope_run (lab_door ''guess'') lab_server = (Inr (), s')
    \<and> trace s' = trace lab_server @ t @ [Ev_close 7] \<and> global_socks s' = []"
    using registration_rejects [OF lab_arrives lab_door_db, of "''guess''" True "lab_hash ''guess''"
        "Some (lab_hash ''secret'')"] lab_door_hash [of "''guess''" "''guess''"]
      lab_door_account [of "''guess''"] differ
    by (simp add: a accepts_def) blast
  then show ?thesis by auto
qed

text \<open>C34: One malformed registration stops the whole server: when the first line of a new connection
  has fewer than five characters, taking the nickname out of it throws \<open>out_of_range\<close>, which leaves
  the main loop, and \<open>run\<close> answers it by setting \<open>selfdestruct\<close>, on which every channel's thread
  ends.\<close>

theorem short_line_stops_server:
  assumes "\<not> selfdestruct s" and "\<not> signal_at E (trace s)"
    and "accept_sock E (trace s @ [Ev_poll]) = Accepted k" and "\<forall>t. set_option_ok E t k"
    and "connected E peer {k}" and "delivers E k chunks" and "smap_wf (sv_end_msgs s)"
    and "pending (peer k) k chunks s = m # ms" and "length m < 5"
  shows "(\<exists>s1. server_loop E s = Some (Inl Out_of_range, s1))
    \<and> (\<forall>bind_to port s0. set_up E bind_to port s0 = (Inr (), s) \<longrightarrow>
        (\<exists>s2. server_run E bind_to port s0 = Some (Inr (), s2) \<and> selfdestruct s2))"
proof -
  let ?s = "s\<lparr>selfdestruct := False, trace := trace s @ [Ev_poll]\<rparr>"
  have "load_selfdestruct E s = (Inr False, ?s)"
    using assms(1,2) by (cases s) (simp add: load_selfdestruct_def run)
  moreover obtain s1 where "inner_scope_run E ?s = (Inl Out_of_range, s1)"
  proof (rule inner_run_short_line [where E = E and s = ?s and k = k and peer = peer and chunks = chunks
        and m = m and ms = ms])
    show "pending (peer k) k chunks ?s = m # ms"
      using assms(8) by (simp add: pending_def reads_of_def)
  qed (use assms that in simp_all)
  ultimately have loop: "server_loop E s = Some (Inl Out_of_range, s1)"
    by (subst server_loop.simps) simp
  then show ?thesis
    by (auto simp: server_run_def catch_exception_def run print_err_def)
qed

lemma short_line_stops_server_witness:
  "\<exists>s1. server_loop (lab_env\<lparr>accept_sock := \<lambda>t. Accepted 7,
       read_some := \<lambda>t k. if reads_of k t < 1 then lines_text ([[''HI'']] ! reads_of k t) else []\<rparr>) lab_server
     = Some (Inl Out_of_range, s1)"
proof -
  let ?E = "lab_env\<lparr>accept_sock := \<lambda>t. Accepted 7,
       read_some := \<lambda>t k. if reads_of k t < 1 then lines_text ([[''HI'']] ! reads_of k t) else []\<rparr>"
  have d: "delivers ?E 7 [[''HI'']]"
    by (simp add: delivers_def line_def nul_def lines_text_def crlf_def BUFF_SIZE_def)
  have c: "connected ?E lab_peer {7}" by (simp add: connected_def)
  show ?thesis
    using short_line_stops_server [of lab_server ?E 7 lab_peer "[[''HI'']]" "''HI''" "[]"] d c
    by (simp add: pending_def smap_get_def)
qed

text \<open>C37: A client that connects and closes without sending anything brings the main thread to
  undefined behaviour: the read returns no message, and the front of the empty deque is taken.\<close>

theorem closed_connection_undefined:
  assumes "accept_sock E (trace s) = Accepted k" and "\<forall>t. set_option_ok E t k"
    and "connected E peer {k}" and "\<forall>t. read_some E t k = []"
    and "smap_get [] (sv_end_msgs s) (peer k) = []"
  shows "fst (inner_scope_run E s) = Inl (UB Front_of_empty)"
  using assms by (rule inner_run_closed)

lemma closed_connection_undefined_witness:
  "fst (inner_scope_run (lab_env\<lparr>accept_sock := \<lambda>t. Accepted 7\<rparr>) lab_server) = Inl (UB Front_of_empty)"
  using closed_connection_undefined [of "lab_env\<lparr>accept_sock := \<lambda>t. Accepted 7\<rparr>" lab_server 7 lab_peer]
  by (simp add: connected_def smap_get_def)

text \<open>C40: \<open>hashPassword\<close> is the digest byte by byte, as characters, exactly when every byte of the digest
  fits the platform's \<open>char\<close>, and throws otherwise: where \<open>char\<close> is signed (127), any digest with a
  byte of 128 or more throws, and with it the registration.\<close>

theorem hashPassword_fits:
  "hashPassword E p =
     (if \<forall>c \<in> set (sha256_md E p). c \<le> char_max E
      then Inr (sha256_ok E p, map char_of (sha256_md E p)) else Inl size_issue)"
proof -
  have "convert_all E cs = (if \<forall>c \<in> set cs. c \<le> char_max E then Inr (map char_of cs) else Inl size_issue)"
    for cs
    by (induction cs) (auto simp: convertChar_def)
  then show ?thesis by (simp add: hashPassword_def)
qed

lemma hashPassword_fits_witness:
  "hashPassword (lab_env\<lparr>char_max := 127, sha256_md := \<lambda>m. replicate 32 200\<rparr>) ''secret'' = Inl size_issue"
  unfolding hashPassword_fits by simp

end
