(* ===== verification/System_Props.thy ===== *)
theory System_Props
  imports System Server_Props
begin

text \<open>
  What the interleaved system guarantees in every reachable state, by the invariant of the theory
  \<open>System\<close>.
\<close>

section \<open>The steps of a running thread\<close>

text \<open>A channel's members and who waits for it, after each step that its thread can take.\<close>

lemma step_looks:
  assumes "sys_inv E peer loc y" and "smap_count (sys_threads y) c" and "phase_of y c = At_top"
  obtains z where "thread_step E c y z" and "phase_of z c = Grabbing"
    and "users_of z c = users_of y c" and "queue_of (sys_main z) c = queue_of (sys_main y) c"
proof -
  obtain st ta where run: "smap_find (sys_threads y) c = Some st"
    "smap_find (sv_threads (sys_main y)) c = Some ta"
    using assms(1,2) by (rule thread_registered)
  have "thread_step E c y (moved c (view (sys_main y) st) Grabbing y)"
    using thread_looks [OF assms(3) run looks_run [OF assms(1) run]] by simp
  then show thesis
    by (rule that) (simp_all add: users_of_moved queue_of_def, simp add: users_of_def run(1))
qed

lemma step_grabs:
  assumes "sys_inv E peer loc y" and "smap_count (sys_threads y) c" and "phase_of y c = Grabbing"
  obtains z where "thread_step E c y z" and "phase_of z c = Greeting (map fst (queue_of (sys_main y) c))"
    and "users_of z c = users_of y c @ map fst (queue_of (sys_main y) c)"
    and "queue_of (sys_main z) c = []"
proof -
  obtain st ta where run: "smap_find (sys_threads y) c = Some st"
    "smap_find (sv_threads (sys_main y)) c = Some ta"
    using assms(1,2) by (rule thread_registered)
  have chan: "s_channel_name st = c"
    using assms(1) run(1) by (simp add: sys_inv_def threads_ok_def)
  let ?new = "map fst (queue_of (sys_main y) c)"
  obtain t where "grab_new E (view (sys_main y) st) = (Inr ?new,
      (grabbed peer (view (sys_main y) st))\<lparr>trace := trace (sys_main y) @ t\<rparr>)"
    by (rule grabs_run [OF assms(1) run])
  then have "thread_step E c y (moved c ((grabbed peer (view (sys_main y) st))
      \<lparr>trace := trace (sys_main y) @ t\<rparr>) (Greeting ?new) y)"
    by (rule thread_grabs [OF assms(3) run(1)])
  then show thesis
    by (rule that)
      (simp_all add: users_of_moved queue_of_def chan waiting_for_view [OF chan, unfolded queue_of_def],
        simp add: users_of_def run(1))
qed

lemma step_serves:
  assumes "sys_inv E peer loc y" and "smap_count (sys_threads y) c" and "phase_of y c = Greeting newusers"
  obtains z where "thread_step E c y z" and "phase_of z c = At_top"
    and "users_of z c = users_of y c" and "queue_of (sys_main z) c = queue_of (sys_main y) c"
proof -
  obtain st ta where run: "smap_find (sys_threads y) c = Some st"
    "smap_find (sv_threads (sys_main y)) c = Some ta"
    using assms(1,2) by (rule thread_registered)
  have E: "healthy E peer loc" and st: "servlet_ok peer (view (sys_main y) st)"
      "\<forall>e. list_all plain (smap_get [] (s_end_msgs (view (sys_main y) st)) e)"
      "\<exists>old. s_users (view (sys_main y) st) = old @ newusers"
    using assms(1,3) run(1) by (simp_all add: sys_inv_def threads_ok_def)
  from st(3) obtain old where "s_users (view (sys_main y) st) = old @ newusers" ..
  then obtain m tp t where "serve E newusers (view (sys_main y) st) =
      (Inr (), view (sys_main y) st\<lparr>s_end_msgs := m, s_channel_topic := tp, trace := t\<rparr>)"
    by (rule serve_run [OF E st(1,2)])
  then have "thread_step E c y (moved c
      (view (sys_main y) st\<lparr>s_end_msgs := m, s_channel_topic := tp, trace := t\<rparr>) At_top y)"
    by (rule thread_serves [OF assms(3) run(1)])
  then show thesis
    by (rule that) (simp_all add: users_of_moved queue_of_def, simp add: users_of_def run(1))
qed

lemma thread_goes_on:
  assumes "sys_inv E peer loc y" and "smap_count (sys_threads y) c"
  shows "\<exists>z. thread_step E c y z"
proof (cases "phase_of y c")
  case At_top
  then show ?thesis by (rule step_looks [OF assms]) (rule exI)
next
  case Grabbing
  then show ?thesis by (rule step_grabs [OF assms]) (rule exI)
next
  case (Greeting newusers)
  then show ?thesis by (rule step_serves [OF assms]) (rule exI)
qed







section \<open>Properties\<close>

lemma working_inv: "healthy E peer loc \<Longrightarrow> reaches sys_init (sys_step E peer) y \<Longrightarrow>
    sys_inv E peer loc y \<and> sys_ended y = []"
  using chat.reachable_inv [of E peer y loc] by (simp add: working_def)


text \<open>C10: While the environment works (\<open>healthy\<close>, and users who are handed over are \<open>fresh\<close>, as in C1), no
  channel's thread fails, whatever the main thread does, its own failures included: the step relation
  lets a thread end at any exception or undefined behaviour of an operation (\<open>thread_fails\<close>), and in
  every reachable state none has ended so; wherever in its loop a running thread is and whatever it
  finds in the shared state, the operation it comes to next (loading its flag, \<open>grab_new\<close>, or
  greeting, receiving and handling messages) cannot fail, and returns; and no connection belongs to
  two channels, or to two users of one.\<close>

theorem system_safe:
  assumes "healthy E peer loc" and "reaches sys_init (sys_step E peer) y"
  shows "sys_ended y = [] \<and> (\<forall>c e st. \<not> thread_fails E c y e st)
    \<and> (\<forall>c. smap_count (sys_threads y) c \<longrightarrow> (\<exists>z. thread_step E c y z))
    \<and> (\<forall>c. distinct (endpoints_of y c))
    \<and> (\<forall>c d. c \<noteq> d \<longrightarrow> set (endpoints_of y c) \<inter> set (endpoints_of y d) = {})"
proof -
  have inv: "sys_inv E peer loc y" "sys_ended y = []" using working_inv [OF assms] by simp_all
  with thread_goes_on [OF inv(1)] thread_never_fails [OF inv(1)] show ?thesis
    by (simp add: sys_inv_def endpoints_ok_def)
qed

section \<open>A reachable state\<close>

text \<open>Carol has been handed over to the channel \<open>#lab\<close>, whose thread has just been started.\<close>

definition lab_start :: system where
  "lab_start = \<lparr>sys_main = lab_server, sys_threads = [], sys_phases = [], sys_stage = Idle,
     sys_ended = []\<rparr>"

abbreviation lab_reaches :: "system \<Rightarrow> bool" where
  "lab_reaches \<equiv> reaches sys_init (sys_step lab_env lab_peer)"

lemma lab_start_reached: "lab_reaches lab_start"
  by (rule reaches_init) (simp add: sys_init_def lab_start_def lab_server_def)

lemma lab_handed:
  obtains sv where "update_comm_structs (lab_user ''carol'' 4) [] 4 lab_server = (Inr (), sv)"
    and "chan_newusers sv = [(''#lab'', [(lab_user ''carol'' 4, [])])]"
    and "sv_threads sv = []" and "sv_notify sv = []" and "flags sv = []"
  by (simp add: update_comm_structs_run smap_get_def lab_server_def)

lemma lab_notified:
  assumes "sv_threads s = []" and "sv_notify s = []" and "flags s = []"
  obtains sv where "notify_update ''#lab'' s = (Inr (), sv)" and "sv_threads sv = []"
    and "chan_newusers sv = chan_newusers s" and "sv_notify sv = [(''#lab'', Some 0)]"
  using assms
  by (simp add: notify_update_def run notifier_update_def the_notifier_def set_notifier_def)

lemma lab_channel_row: "channel_row lab_env server chan (Some ''1'')"
  by (simp add: channel_row_def)

lemma lab_channel_started:
  assumes "sv_notify s = [(''#lab'', Some 0)]"
  obtains sv ta where "start_channel lab_env ''#lab'' s = (Inr (), sv)"
    and "chan_newusers sv = chan_newusers s" and "smap_find (sv_threads sv) ''#lab'' = Some ta"
proof -
  have "wp (start_channel lab_env ''#lab'') (\<lambda>_ sv. chan_newusers sv = chan_newusers s
      \<and> smap_find (sv_threads sv) ''#lab'' \<noteq> None) (\<lambda>_ _. False) s"
    by (rule wp_start_channel [OF lab_db_up lab_channel_row]) (simp_all add: assms)
  with that show thesis
    by (auto simp: wp_def split: prod.splits sum.splits)
qed

lemma lab_three_steps:
  assumes "sys_step lab_env lab_peer lab_start y1" and "sys_step lab_env lab_peer y1 y2"
    and "sys_step lab_env lab_peer y2 y3"
  shows "lab_reaches y3"
proof -
  have "lab_reaches y1" using lab_start_reached assms(1) by (rule reaches_step)
  then have "lab_reaches y2" using assms(2) by (rule reaches_step)
  then show ?thesis using assms(3) by (rule reaches_step)
qed

lemma lab_carol_waits:
  obtains y where "lab_reaches y" and "sys_stage y = Idle"
    and "queue_of (sys_main y) ''#lab'' = [(lab_user ''carol'' 4, [])]" and "users_of y ''#lab'' = []"
    and "smap_count (sys_threads y) ''#lab''"
proof -
  let ?c = "''#lab''" and ?u = "lab_user ''carol'' 4"
  obtain sv1 where sv1: "update_comm_structs ?u [] 4 lab_server = (Inr (), sv1)"
    "chan_newusers sv1 = [(?c, [(?u, [])])]" "sv_threads sv1 = []" "sv_notify sv1 = []" "flags sv1 = []"
    by (rule lab_handed)
  have "fresh lab_peer lab_start ?u [] 4"
    by (simp add: fresh_def lab_start_def endpoints_of_def users_of_def queue_of_def smap_get_def)
  then have step1: "sys_step lab_env lab_peer lab_start
      (lab_start\<lparr>sys_main := sv1, sys_stage := Notifying ?c\<rparr>)" (is "sys_step _ _ _ ?y1")
    using main_hands_over [of lab_start lab_peer ?u "[]" 4 sv1] sv1(1) by (simp add: lab_start_def)
  obtain sv2 where sv2: "notify_update ?c sv1 = (Inr (), sv2)" "sv_threads sv2 = []"
    "chan_newusers sv2 = chan_newusers sv1" "sv_notify sv2 = [(?c, Some 0)]"
    by (rule lab_notified [OF sv1(3-5)])
  have step2: "sys_step lab_env lab_peer ?y1 (?y1\<lparr>sys_main := sv2, sys_stage := Starting ?c\<rparr>)"
    (is "sys_step _ _ _ ?y2")
    by (rule main_notifies) (simp_all add: sv2(1))
  obtain sv3 ta where sv3: "start_channel lab_env ?c sv2 = (Inr (), sv3)"
    "chan_newusers sv3 = chan_newusers sv2" "smap_find (sv_threads sv3) ?c = Some ta"
    by (rule lab_channel_started [OF sv2(4)])
  have step3: "sys_step lab_env lab_peer ?y2 (?y2\<lparr>sys_main := sv3, sys_stage := Idle,
      sys_threads := smap_put ?c (started ta 0 sv3) (sys_threads ?y2),
      sys_phases := smap_put ?c At_top (sys_phases ?y2)\<rparr>)" (is "sys_step _ _ _ ?y3")
    by (rule main_starts) (simp_all add: sv2(2) sv3 smap_count_def)
  define y3 where "y3 = ?y3"
  have "lab_reaches y3"
    unfolding y3_def by (rule lab_three_steps) (fact step1 step2 step3)+
  then show thesis
    by (rule that) (simp_all add: y3_def queue_of_def sv3(2) sv2(3) sv1(2) smap_get_def users_of_def lab_start_def
        smap_count_def)
qed


lemma system_safe_witness:
  "\<exists>y z. lab_reaches y \<and> queue_of (sys_main y) ''#lab'' \<noteq> [] \<and> sys_ended y = []
     \<and> thread_step lab_env ''#lab'' y z \<and> distinct (endpoints_of y ''#lab'')"
proof -
  obtain y where y: "lab_reaches y" "sys_stage y = Idle"
    "queue_of (sys_main y) ''#lab'' = [(lab_user ''carol'' 4, [])]" "users_of y ''#lab'' = []"
    "smap_count (sys_threads y) ''#lab''"
    by (rule lab_carol_waits)
  from system_safe [OF lab_healthy y(1)] y(3,5) obtain z
    where "sys_ended y = []" "thread_step lab_env ''#lab'' y z" "distinct (endpoints_of y ''#lab'')" by blast
  with y(1,3) show ?thesis by (intro exI [of _ y] exI [of _ z]) simp
qed

end
