(* ===== verification/Site_Owners.thy ===== *)
theory Site_Owners
  imports Site System_Props
begin

text \<open>
  What holds of the server whatever its environment does: who owns a connection, what a channel whose
  thread has ended can still expect, and how the server shuts down.
\<close>

section \<open>Owners of connections\<close>

text \<open>Every connection that is accepted is a new one: its name has not been used before.\<close>

definition seen :: "event list \<Rightarrow> sock set" where
  "seen t = {k. Ev_set_option k \<in> set t}"

definition never_reused :: "env \<Rightarrow> bool" where
  "never_reused E \<longleftrightarrow> (\<forall>t k. accept_sock E t = Accepted k \<longrightarrow> k \<notin> seen t)"

definition thread_socks :: "site \<Rightarrow> string \<Rightarrow> sock list" where
  "thread_socks y c = (case site_threads y c of None \<Rightarrow> [] | Some (ph, st) \<Rightarrow> s_socks st)"

text \<open>The deque, when threads own the sockets in \<open>X\<close>.\<close>

definition deque_ok :: "env \<Rightarrow> sock set \<Rightarrow> server \<Rightarrow> bool" where
  "deque_ok E X s \<longleftrightarrow> never_reused E \<and> distinct (global_socks s)
     \<and> set (global_socks s) \<union> X \<subseteq> seen (trace s) \<and> set (global_socks s) \<inter> X = {}"

definition one_owner :: "env \<Rightarrow> site \<Rightarrow> bool" where
  "one_owner E y \<longleftrightarrow> deque_ok E (\<Union>c. set (thread_socks y c)) (site_main y)
     \<and> (\<forall>c. distinct (thread_socks y c))
     \<and> (\<forall>c d. c \<noteq> d \<longrightarrow> set (thread_socks y c) \<inter> set (thread_socks y d) = {})"

lemma seen_append [simp]: "seen (t @ u) = seen t \<union> seen u"
  by (auto simp: seen_def)

lemma seen_trace: "after_reading s s' \<Longrightarrow> seen (trace s) \<subseteq> seen (trace s')"
  using after_reading_fields(10) [of s s'] by auto

interpretation deque: server_invariant E "deque_ok E X" for E X
proof (unfold_locales, goal_cases)
  case (1 s s')
  then show ?case
    using after_reading_fields(2) [OF 1(2)] seen_trace [OF 1(2)] by (auto simp: deque_ok_def)
next
  case (3 s k c s')
  then obtain u ms s1 where s1: "after_reading s s1" "k \<in> seen (trace s1)" "s' = with_user u ms k s1"
    by (auto simp: received_def serving_def seen_def)
  moreover have "k \<notin> seen (trace s)"
    using 3(1,2) by (auto simp: deque_ok_def never_reused_def)
  ultimately show ?case
    using 3(1) after_reading_fields(2) [OF s1(1)] seen_trace [OF s1(1)] by (auto simp: deque_ok_def)
next
  case (5 s c tp)
  then show ?case by (simp add: deque_ok_def)
qed (simp_all add: deque_ok_def set_notifier_def)

lemma submset_distinct:
  assumes "mset xs \<subseteq># mset ys" and "distinct ys"
  shows "distinct xs" and "set xs \<subseteq> set ys"
proof -
  obtain M where "mset ys = mset xs + M" using assms(1) by (auto simp: subset_mset.le_iff_add)
  moreover obtain zs where "mset zs = M" using ex_mset by blast
  ultimately have eq: "mset ys = mset (xs @ zs)" by simp
  from mset_eq_imp_distinct_iff [OF eq] assms(2) show "distinct xs" by simp
  from mset_eq_setD [OF eq] show "set xs \<subseteq> set ys" by simp
qed

lemma thread_socks_moved:
  "thread_socks (chan_moved c ph st y) d
     = (if d = c then (case ph of None \<Rightarrow> [] | Some _ \<Rightarrow> s_socks st) else thread_socks y d)"
  by (simp add: thread_socks_def split: option.splits)

text \<open>One of many owners takes from a common stock, or gives up what it has.\<close>

lemma ownership_passes:
  fixes own own' :: "'c \<Rightarrow> 'k list"
  assumes "mset (own' c @ G') \<subseteq># mset (own c @ G)" and "\<And>d. d \<noteq> c \<Longrightarrow> own' d = own d"
    and "distinct G" and "set G \<inter> (\<Union>d. set (own d)) = {}" and "\<forall>d. distinct (own d)"
    and "\<forall>d e. d \<noteq> e \<longrightarrow> set (own d) \<inter> set (own e) = {}"
  shows "distinct G'" and "set G' \<inter> (\<Union>d. set (own' d)) = {}" and "\<forall>d. distinct (own' d)"
    and "\<forall>d e. d \<noteq> e \<longrightarrow> set (own' d) \<inter> set (own' e) = {}"
    and "set G' \<union> (\<Union>d. set (own' d)) \<subseteq> set G \<union> (\<Union>d. set (own d))"
proof -
  have XG: "set (own d) \<inter> set G = {}" for d using assms(4) by blast
  have "distinct (own c @ G)" using assms(3,5) XG [of c] by simp
  note sub = submset_distinct [OF assms(1) this]
  have apart: "set (own' d) \<inter> set (own' c @ G') = {}" if "d \<noteq> c" for d
    using assms(2) [OF that] assms(6) that XG [of d] sub(2) by (auto simp: disjoint_iff)
  have within: "set (own' d) \<subseteq> set (own d) \<union> set G" for d
    using assms(2) [of d] sub(2) by (cases "d = c") auto
  show "distinct G'" using sub(1) by simp
  have "set G' \<inter> set (own' d) = {}" for d
    using apart [of d] sub(1) by (cases "d = c") auto
  then show "set G' \<inter> (\<Union>d. set (own' d)) = {}" by blast
  show "\<forall>d. distinct (own' d)"
    using sub(1) assms(2,5) by (metis distinct_append)
  have "set (own' d) \<inter> set (own' e) = {}" if "d \<noteq> e" for d e
    using that apart [of d] apart [of e] assms(2) [of d] assms(2) [of e] assms(6)
    by (cases "d = c"; cases "e = c") auto
  then show "\<forall>d e. d \<noteq> e \<longrightarrow> set (own' d) \<inter> set (own' e) = {}" by blast
  have "set G' \<subseteq> set (own c) \<union> set G" using sub(2) by simp
  with within show "set G' \<union> (\<Union>d. set (own' d)) \<subseteq> set G \<union> (\<Union>d. set (own d))" by blast
qed

lemma one_owner_chan_step:
  assumes "one_owner E y" and "chan_step E c y z"
  shows "one_owner E z"
  using assms(2)
proof (cases rule: chan_step.cases)
  case (chan_moves ph st ta ph' st')
  let ?G = "global_socks (site_main y)"
  have mine: "thread_socks y c = s_socks st" using chan_moves(2) by (simp add: thread_socks_def)
  have "owned_within (mset (s_socks st @ ?G)) st'"
    by (rule owner.chan_result_keeps [OF chan_moves(4)]) (simp add: owned_within_def)
  then have "mset (s_socks st' @ global_socks st') \<subseteq># mset (s_socks st @ ?G)"
    by (simp add: owned_within_def)
  moreover have "mset (thread_socks z c @ global_socks st') \<subseteq># mset (s_socks st' @ global_socks st')"
    by (cases ph') (simp_all add: chan_moves(1) thread_socks_moved)
  ultimately have sub: "mset (thread_socks z c @ global_socks st') \<subseteq># mset (thread_socks y c @ ?G)"
    unfolding mine by (rule subset_mset.order_trans [rotated])
  have old: "thread_socks z d = thread_socks y d" if "d \<noteq> c" for d
    using that by (simp add: chan_moves(1) thread_socks_moved)
  have y: "distinct ?G" "set ?G \<inter> (\<Union>d. set (thread_socks y d)) = {}" "\<forall>d. distinct (thread_socks y d)"
      "\<forall>d e. d \<noteq> e \<longrightarrow> set (thread_socks y d) \<inter> set (thread_socks y e) = {}"
      "set ?G \<union> (\<Union>d. set (thread_socks y d)) \<subseteq> seen (trace (site_main y))" "never_reused E"
    using assms(1) by (simp_all add: one_owner_def deque_ok_def)
  note passed = ownership_passes [OF sub old y(1-4)]
  have "at_home (view (site_main y) st) st'"
    by (rule home.chan_result_keeps [OF chan_moves(4) at_home_refl])
  then have "seen (trace (site_main y)) \<subseteq> seen (trace st')" by (auto simp: at_home_def)
  with passed(5) y(5) have "set (global_socks st') \<union> (\<Union>d. set (thread_socks z d)) \<subseteq> seen (trace st')"
    by (blast intro: subset_trans)
  with passed y(6) show ?thesis
    by (simp add: one_owner_def deque_ok_def chan_moves(1))
qed

lemma one_owner_main_step:
  assumes "one_owner E y" and "well_typed y" and "main_step E y z"
  shows "one_owner E z"
proof -
  have ready: "stage_ready (site_stage y) (site_main y)" using assms(2) by (simp add: well_typed_def)
  have sub: "thread_socks z c = thread_socks y c" for c
  proof (cases "site_threads z c")
    case None
    with assms(3) have "site_threads y c = None"
      by (cases rule: main_step.cases) (auto simp: launch_def split: option.splits if_splits)
    with None show ?thesis by (simp add: thread_socks_def)
  next
    case (Some p)
    obtain ph st where p: "p = (ph, st)" by (cases p)
    from main_step_threads [OF assms(3), of c ph st] Some p
    consider "site_threads y c = Some (ph, st)"
      | ta conn where "\<not> smap_count (sv_threads (site_main y)) c" "st = started ta conn (site_main z)"
      by blast
    then show ?thesis
    proof cases
      case 1
      with Some p show ?thesis by (simp add: thread_socks_def)
    next
      case 2
      with assms(2) have "site_threads y c = None"
        by (cases "site_threads y c") (auto simp: well_typed_def)
      with 2 Some p show ?thesis by (simp add: thread_socks_def)
    qed
  qed
  have "deque_ok E (\<Union>c. set (thread_socks y c)) (site_main z)"
    using deque.main_step_keeps(1) [OF assms(3) _ ready] assms(1) by (simp add: one_owner_def)
  with assms(1) sub show ?thesis by (simp add: one_owner_def)
qed

lemma one_owner_init: "never_reused E \<Longrightarrow> site_init y \<Longrightarrow> one_owner E y"
  by (simp add: site_init_def one_owner_def deque_ok_def thread_socks_def)

lemma one_owner_step:
  "well_typed y \<and> (never_reused E \<longrightarrow> one_owner E y) \<Longrightarrow> site_step E y z \<Longrightarrow>
     well_typed z \<and> (never_reused E \<longrightarrow> one_owner E z)"
  using well_typed_step [of y E z]
  by (auto elim!: site_step.cases dest: one_owner_main_step one_owner_chan_step)

interpretation owners: invariant_system site_init "site_step E"
    "\<lambda>y. well_typed y \<and> (never_reused E \<longrightarrow> one_owner E y)" for E
  by unfold_locales (simp add: well_typed_init one_owner_init, fact one_owner_step)

section \<open>A channel whose thread has ended\<close>

definition abandoned :: "string \<Rightarrow> (user \<times> string list) list \<Rightarrow> site \<Rightarrow> bool" where
  "abandoned c q y \<longleftrightarrow> well_typed y \<and> site_threads y c = None
     \<and> smap_count (sv_threads (site_main y)) c \<and> prefix q (queue_of (site_main y) c)"

lemma abandoned_step:
  assumes "abandoned c q y" and "site_step E y z"
  shows "abandoned c q z"
  using assms(2)
proof cases
  case by_main
  have y: "well_typed y" "site_threads y c = None" "smap_count (sv_threads (site_main y)) c"
    "prefix q (queue_of (site_main y) c)" using assms(1) by (simp_all add: abandoned_def)
  have since: "main_since (site_main y) (site_main z)"
    using since.main_step_keeps(1) [OF by_main main_since_refl] y(1) by (simp add: well_typed_def)
  have "site_threads z c = None"
  proof (rule ccontr)
    assume "site_threads z c \<noteq> None"
    then obtain ph st where "site_threads z c = Some (ph, st)" by auto
    from main_step_threads [OF by_main this] y(2,3) show False by auto
  qed
  moreover have "prefix q (queue_of (site_main z) c)"
    using y(4) since by (auto simp: main_since_def intro: prefix_order.trans)
  ultimately show ?thesis
    using well_typed_step [OF y(1) assms(2)] main_since_registered [OF since y(3)]
    by (simp add: abandoned_def)
next
  case (by_channel d)
  then show ?thesis
  proof (cases rule: chan_step.cases)
    case (chan_moves ph st ta ph' st')
    have home: "at_home (view (site_main y) st) st'"
      by (rule home.chan_result_keeps [OF chan_moves(4) at_home_refl])
    have "d \<noteq> c" "s_channel_name st = d"
      using assms(1) chan_moves(2) by (auto simp: abandoned_def well_typed_def)
    then have "queue_of (publish st' (site_main y)) c = queue_of (site_main y) c"
      using home by (simp add: at_home_def queue_of_def)
    with assms(1) \<open>d \<noteq> c\<close> well_typed_step [OF _ assms(2)] show ?thesis
      by (simp add: abandoned_def chan_moves(1))
  qed
qed

lemma abandoned_steps:
  assumes "(site_step E)\<^sup>*\<^sup>* y z" and "abandoned c q y"
  shows "abandoned c q z"
  using assms by (induction rule: rtranclp_induct) (auto intro: abandoned_step)

section \<open>Shutting down\<close>

lemma selfdestruct_step:
  assumes "site_step E y z" and "well_typed y" and "selfdestruct (site_main y)"
  shows "selfdestruct (site_main z)"
  using assms(1)
proof cases
  case by_main
  have "main_since (site_main y) (site_main z)"
    using since.main_step_keeps(1) [OF by_main main_since_refl] assms(2) by (simp add: well_typed_def)
  with assms(3) show ?thesis by (simp add: main_since_def)
next
  case (by_channel d)
  then show ?thesis
  proof (cases rule: chan_step.cases)
    case (chan_moves ph st ta ph' st')
    have "at_home (view (site_main y) st) st'"
      by (rule home.chan_result_keeps [OF chan_moves(4) at_home_refl])
    with assms(3) show ?thesis by (simp add: at_home_def chan_moves(1))
  qed
qed

lemma well_typed_registered:
  assumes "well_typed y" and "site_threads y c = Some (ph, st)"
  obtains ta where "smap_find (sv_threads (site_main y)) c = Some ta"
proof -
  have "smap_count (sv_threads (site_main y)) c" using assms unfolding well_typed_def by blast
  with that show thesis by (auto simp: smap_count_def)
qed

text \<open>Once \<open>selfdestruct\<close> is set, a thread at the top of its loop leaves it.\<close>

lemma at_top_ends:
  assumes "well_typed y" and "selfdestruct (site_main y)" and "site_threads y c = Some (At_top, st)"
  obtains st' where "chan_step E c y (chan_moved c None st' y)"
proof -
  obtain ta where ta: "smap_find (sv_threads (site_main y)) c = Some ta"
    using assms(1,3) by (rule well_typed_registered)
  obtain v' where op: "thread_op E (ta_notify ta) At_top (view (site_main y) st) = (Inr None, v')"
    using assms(2) by (simp add: run load_selfdestruct_run)
  then have "chan_result E (ta_notify ta) At_top (view (site_main y) st) None (thread_over E (Inr ()) v')"
    by (simp add: chan_result_def)
  with chan_moves [OF assms(3) ta] that show thesis by blast
qed

text \<open>
  How many steps a thread has before it at most, when \<open>selfdestruct\<close> is set: the rest of its iteration,
  and the poll. Their sum over the register decreases with every step of the server.
\<close>

fun steps_left :: "(phase \<times> servlet) option \<Rightarrow> nat" where
  "steps_left None = 0"
| "steps_left (Some (At_top, _)) = 1"
| "steps_left (Some (Greeting _, _)) = 2"
| "steps_left (Some (Grabbing, _)) = 3"

definition registered :: "site \<Rightarrow> string set" where
  "registered y = {c. smap_count (sv_threads (site_main y)) c}"

definition work_left :: "site \<Rightarrow> nat" where
  "work_left y = (\<Sum>c \<in> registered y. steps_left (site_threads y c))"

lemma smap_find_dom: "smap_find m k = Some v \<Longrightarrow> k \<in> fst ` set m"
  by (induction m k rule: smap_find.induct) (auto split: if_splits)

lemma registered_finite: "finite (registered y) \<and> card (registered y) \<le> length (sv_threads (site_main y))"
proof -
  have "registered y \<subseteq> set (map fst (sv_threads (site_main y)))"
    by (auto simp: registered_def smap_count_def dest: smap_find_dom)
  from finite_subset [OF this] card_mono [OF _ this] card_length [of "map fst (sv_threads (site_main y))"]
  show ?thesis by simp
qed

lemma steps_left_le: "steps_left x \<le> 3"
  by (cases x rule: steps_left.cases) simp_all

lemma work_left_le: "work_left y \<le> 3 * length (sv_threads (site_main y))"
proof -
  have "work_left y \<le> of_nat (card (registered y)) * 3"
    unfolding work_left_def by (rule sum_bounded_above) (rule steps_left_le)
  with registered_finite [of y] show ?thesis by simp
qed

lemma chan_result_left:
  assumes "selfdestruct s" and "chan_result E p ph s ph' s'"
  shows "steps_left (map_option (\<lambda>q. (q, st')) ph') < steps_left (Some (ph, st))"
  using assms
  by (cases ph) (auto simp: chan_result_def run load_selfdestruct_run split: sum.splits option.splits prod.splits)

lemma stopped_step:
  assumes "site_step E y z" and "well_typed y" and "site_stage y = Ended"
  shows "site_stage z = Ended" and "work_left z < work_left y"
proof -
  obtain c where "chan_step E c y z"
    using assms(1,3) by (auto elim!: site_step.cases main_step.cases)
  then obtain ph st and ta :: thread_args and ph' st' where z: "z = chan_moved c ph' st' y" and ph: "site_threads y c = Some (ph, st)"
      "chan_result E (ta_notify ta) ph (view (site_main y) st) ph' st'"
    by (auto elim!: chan_step.cases)
  from z assms(3) show "site_stage z = Ended" by simp
  have "selfdestruct (site_main y)" "c \<in> registered y"
    using assms(2,3) ph(1) by (auto simp: well_typed_def registered_def)
  then have "steps_left (site_threads z c) < steps_left (site_threads y c)"
    using chan_result_left [OF _ ph(2), of st' st] by (simp add: z ph(1))
  moreover have "steps_left (site_threads z d) \<le> steps_left (site_threads y d)" if "d \<noteq> c" for d
    using that by (simp add: z)
  then have "steps_left (site_threads z d) \<le> steps_left (site_threads y d)" for d
    using calculation by (cases "d = c") (simp_all add: less_imp_le)
  ultimately have "(\<Sum>d \<in> registered y. steps_left (site_threads z d)) < work_left y"
    unfolding work_left_def using registered_finite [of y] \<open>c \<in> registered y\<close>
    by (intro sum_strict_mono_ex1) auto
  then show "work_left z < work_left y" by (simp add: work_left_def registered_def z)
qed

lemma stopped_steps:
  assumes "(site_step E ^^ n) y z" and "well_typed y" and "site_stage y = Ended"
  shows "well_typed z \<and> site_stage z = Ended \<and> n + work_left z \<le> work_left y"
  using assms
proof (induction n arbitrary: z)
  case (Suc n)
  then obtain x where x: "(site_step E ^^ n) y x" "site_step E x z" by auto
  with Suc have "well_typed x \<and> site_stage x = Ended \<and> n + work_left x \<le> work_left y" by blast
  with stopped_step [OF x(2)] well_typed_step [OF _ x(2)] show ?case by fastforce
qed simp

lemma all_joined_iff: "well_typed y \<Longrightarrow> all_joined y \<longleftrightarrow> site_threads y = (\<lambda>_. None)"
proof
  assume y: "well_typed y" "all_joined y"
  show "site_threads y = (\<lambda>_. None)"
  proof
    fix c
    show "site_threads y c = None"
    proof (rule ccontr)
      assume "site_threads y c \<noteq> None"
      then obtain ph st where thr: "site_threads y c = Some (ph, st)" by auto
      with y(1) obtain ta where "smap_find (sv_threads (site_main y)) c = Some ta"
        by (rule well_typed_registered)
      from smap_find_dom [OF this] y(2) thr show False by (auto simp: all_joined_def list_all_iff)
    qed
  qed
qed (simp add: all_joined_def list_all_iff)

text \<open>A thread that has no step is in undefined behaviour, or in a call that never returns.\<close>

lemma chan_stuck:
  assumes "well_typed y" and "site_threads y c = Some (ph, st)" and "\<nexists>z. chan_step E c y z"
  shows "\<exists>ta e. smap_find (sv_threads (site_main y)) c = Some ta \<and> \<not> exception e
    \<and> fst (thread_op E (ta_notify ta) ph (view (site_main y) st)) = Inl e"
proof -
  obtain ta where ta: "smap_find (sv_threads (site_main y)) c = Some ta"
    using assms(1,2) by (rule well_typed_registered)
  have "\<not> chan_result E (ta_notify ta) ph (view (site_main y) st) ph' st'" for ph' st'
    using chan_moves [OF assms(2) ta] assms(3) by blast
  note none = this
  obtain r s1 where op: "thread_op E (ta_notify ta) ph (view (site_main y) st) = (r, s1)" by fastforce
  have "\<exists>e. \<not> exception e \<and> r = Inl e"
  proof (cases r)
    case (Inl e)
    with none [of None "thread_over E (Inl e) s1"] op show ?thesis by (auto simp: chan_result_def)
  next
    case (Inr q)
    with none [of q "if q = None then thread_over E (Inr ()) s1 else s1"] op show ?thesis
      by (auto simp: chan_result_def split: option.splits)
  qed
  with op have "\<exists>e. \<not> exception e \<and> fst (thread_op E (ta_notify ta) ph (view (site_main y) st)) = Inl e"
    by simp
  with ta show ?thesis by blast
qed

section \<open>A pass of the server's loop\<close>

text \<open>
  When \<open>selfdestruct\<close> is not set, a pass of \<open>inner_scope_run\<close> that returns is a sequence of steps of the
  main thread, and the thread that it starts runs afterwards.
\<close>

lemma launch_same: "sv_threads s' = sv_threads s \<Longrightarrow> launch conn s s' th = th"
  by (auto simp: launch_def fun_eq_iff smap_count_def split: option.splits)

lemma pass_steps:
  assumes "load_selfdestruct E s = (Inr False, s0)" and "inner_scope_run E s0 = (Inr (), s')"
  shows "(main_step E)\<^sup>*\<^sup>* \<lparr>site_main = s, site_stage = Accepting, site_threads = th\<rparr>
    \<lparr>site_main = s', site_stage = Accepting, site_threads = launch conn s s' th\<rparr>"
proof -
  let ?y = "\<lambda>s st. \<lparr>site_main = s, site_stage = st, site_threads = th\<rparr>"
  have s0: "sv_threads s0 = sv_threads s" using assms(1) by (auto simp: load_selfdestruct_run)
  obtain h s1 where h: "receive E s0 = (Inr h, s1)"
    using assms(2) by (auto simp: inner_scope_run_pieces run split: sum.splits prod.splits)
  have s1: "sv_threads s1 = sv_threads s"
    using wpD_Inr [OF receive_cases h] after_reading_fields(6) s0
    by (auto simp: received_def serving_def split: option.splits)
  let ?st = "case h of None \<Rightarrow> Accepting | Some c \<Rightarrow> Announcing c"
  have "main_op E Accepting s = (Inr ?st, s1)"
    using assms(1) h by (simp add: run)
  then have step1: "main_step E (?y s Accepting) (?y s1 ?st)"
    using main_moves [of "?y s Accepting" E ?st s1 conn] launch_same [of s1 s conn th, OF s1]
    by (simp split: option.splits)
  show ?thesis
  proof (cases h)
    case None
    then have "s' = s1" using assms(2) h by (simp add: inner_scope_run_pieces run)
    with step1 None launch_same [OF s1, of conn th] show ?thesis by auto
  next
    case (Some c)
    then obtain s2 where s2: "notify_update c s1 = (Inr (), s2)" "open_channel E c s2 = (Inr (), s')"
      using assms(2) h by (auto simp: inner_scope_run_pieces run split: sum.splits prod.splits)
    have t2: "sv_threads s2 = sv_threads s"
      using notify_update_cases [where c = c and s = s1] s2(1) s1 by (auto simp: set_notifier_def)
    have "main_op E (Announcing c) s1 = (Inr (Opening c), s2)" using s2(1) by (simp add: run)
    then have step2: "main_step E (?y s1 (Announcing c)) (?y s2 (Opening c))"
      using main_moves [of "?y s1 (Announcing c)" E "Opening c" s2 conn] launch_same [of s2 s1 conn th] s1 t2
      by simp
    have "main_op E (Opening c) s2 = (Inr Accepting, s')" using s2(2) by (simp add: run)
    moreover have "launch conn s2 s' th = launch conn s s' th"
      using t2 by (simp add: launch_def fun_eq_iff split: option.splits)
    ultimately have step3: "main_step E (?y s2 (Opening c))
        \<lparr>site_main = s', site_stage = Accepting, site_threads = launch conn s s' th\<rparr>"
      using main_moves [of "?y s2 (Opening c)" E Accepting s' conn] by simp
    from step1 step2 step3 Some show ?thesis by (auto intro: converse_rtranclp_into_rtranclp)
  qed
qed

end
