(* ===== verification/Site_Lab.thy ===== *)
theory Site_Lab
  imports Site_Owners
begin
section \<open>A site for the witnesses\<close>

text \<open>
  Alice registers and is handed over, the thread of her channel is started; SIGINT then ends the thread
  before it takes her in, and the main thread.
\<close>

abbreviation lab_door_reaches :: "site \<Rightarrow> bool" where
  "lab_door_reaches \<equiv> reaches site_init (site_step (lab_door ''secret''))"

lemma lab_arrives_polled:
  "arrives (lab_door ''secret'') lab_peer (Endpoint 0x7F000001 8080) (lab_chunks ''secret'')
    (lab_arrival ''secret'') (lab_server\<lparr>trace := [Ev_poll]\<rparr>)"
proof -
  have a: "arrives (lab_door ''secret'') lab_peer (Endpoint 0x7F000001 8080) (lab_chunks ''secret'')
    (lab_arrival ''secret'') lab_server" by (rule lab_arrives) simp
  have "accept_sock (lab_door ''secret'') [Ev_poll] = accept_sock (lab_door ''secret'') []"
    by (simp add: lab_door_def)
  with a show ?thesis
    by (simp add: arrives_def pending_def reads_of_def)
qed

lemma lab_pass:
  obtains s' tmp t where "inner_scope_run (lab_door ''secret'') (lab_server\<lparr>trace := [Ev_poll]\<rparr>) = (Inr (), s')"
    and "trace s' = Ev_poll # t" and "queue_of s' ''#lab'' = [(set_channel ''#lab''
      (client_of lab_peer (lab_arrival ''secret'') (lab_hash ''secret'')), tmp)]"
    and "sv_threads s' = [(''#lab'', \<lparr>ta_server = ''lab'', ta_channel = ''#lab'', ta_topic = ''start'',
      ta_notify = smap_get None (sv_notify s') ''#lab''\<rparr>)]"
proof -
  have ar: "ar_pass (lab_arrival ''secret'') = ''secret''" "ar_nick (lab_arrival ''secret'') = ''alice''"
    "ar_chan (lab_arrival ''secret'') = ''#lab''" by (simp_all add: lab_arrival_def)
  have n: "the_notifier (lab_server\<lparr>trace := [Ev_poll]\<rparr>) = \<lparr>flag_map = [], flag_heap = []\<rparr>"
    by (simp add: lab_server_def the_notifier_def)
  show thesis
    by (rule inner_run_success [OF lab_arrives_polled lab_door_db, where success = True
          and h = "lab_hash ''secret''" and acc = "Some (lab_hash ''secret'')" and row = None])
      (use ar n lab_door_hash lab_door_account lab_door_row lab_notifier_ok that in
        \<open>simp_all add: accepts_def topic_at_start_def smap_count_def queue_of_def smap_get_def\<close>)
qed

lemma main_steps_site: "(main_step E)\<^sup>*\<^sup>* y z \<Longrightarrow> (site_step E)\<^sup>*\<^sup>* y z"
  by (erule rtranclp_mono [THEN predicate2D, rotated]) (auto intro: by_main)

lemma reaches_steps: "(step)\<^sup>*\<^sup>* y z \<Longrightarrow> reaches init step y \<Longrightarrow> reaches init step z"
  by (induction rule: rtranclp_induct) (auto intro: reaches_step)

lemma lab_chan_step: "chan_step (lab_door ''secret'') c y z \<Longrightarrow> lab_door_reaches y \<Longrightarrow> lab_door_reaches z"
  by (rule reaches_step) (auto intro: by_channel)

definition lab_site :: "server \<Rightarrow> (phase \<times> servlet) option \<Rightarrow> site" where
  "lab_site s th = \<lparr>site_main = s, site_stage = Accepting, site_threads = (\<lambda>_. None)(''#lab'' := th)\<rparr>"

lemma lab_alice_waits:
  obtains s ta t u tmp where "lab_door_reaches (lab_site s (Some (At_top, started ta 0 s)))"
    and "trace s = Ev_poll # t" and "queue_of s ''#lab'' = [(u, tmp)]" and "u_nick u = ''alice''"
    and "smap_find (sv_threads s) ''#lab'' = Some ta"
proof -
  obtain s' tmp t where s': "inner_scope_run (lab_door ''secret'') (lab_server\<lparr>trace := [Ev_poll]\<rparr>) = (Inr (), s')"
    "trace s' = Ev_poll # t" "queue_of s' ''#lab'' = [(set_channel ''#lab''
      (client_of lab_peer (lab_arrival ''secret'') (lab_hash ''secret'')), tmp)]"
    "sv_threads s' = [(''#lab'', \<lparr>ta_server = ''lab'', ta_channel = ''#lab'', ta_topic = ''start'',
      ta_notify = smap_get None (sv_notify s') ''#lab''\<rparr>)]"
    by (rule lab_pass)
  let ?ta = "\<lparr>ta_server = ''lab'', ta_channel = ''#lab'', ta_topic = ''start'',
      ta_notify = smap_get None (sv_notify s') ''#lab''\<rparr>"
  have "load_selfdestruct (lab_door ''secret'') lab_server = (Inr False, lab_server\<lparr>trace := [Ev_poll]\<rparr>)"
    by (simp add: load_selfdestruct_run lab_door_def lab_server_def)
  note steps = pass_steps [OF this s'(1), of "\<lambda>_. None" 0]
  have "launch 0 lab_server s' (\<lambda>_. None) = (\<lambda>_. None)(''#lab'' := Some (At_top, started ?ta 0 s'))"
    by (auto simp: launch_def fun_eq_iff s'(4) smap_count_def)
  moreover have "lab_door_reaches \<lparr>site_main = lab_server, site_stage = Accepting, site_threads = \<lambda>_. None\<rparr>"
    by (rule reaches_init) (simp add: site_init_def lab_server_def)
  ultimately have "lab_door_reaches (lab_site s' (Some (At_top, started ?ta 0 s')))"
    using reaches_steps [OF main_steps_site [OF steps]] by (simp add: lab_site_def)
  moreover have "u_nick (set_channel ''#lab'' (client_of lab_peer (lab_arrival ''secret'') h)) = ''alice''" for h
    by (simp add: set_channel_def client_of_def set_endpoint_def user4_def lab_arrival_def)
  moreover have "smap_find (sv_threads s') ''#lab'' = Some ?ta" by (simp add: s'(4))
  ultimately show thesis using s'(2,3) by (intro that [of s' ?ta t]) simp_all
qed

lemma lab_signal: "Ev_poll \<in> set t \<Longrightarrow> signal_at (lab_door pass) t"
  by (simp add: lab_door_def)

text \<open>The thread of the channel sees the signal at the top of its loop; the main thread sees it later.\<close>

lemma lab_thread_ends:
  obtains s u tmp where "lab_door_reaches (lab_site s None)" and "queue_of s ''#lab'' = [(u, tmp)]"
    and "u_nick u = ''alice''" and "smap_count (sv_threads s) ''#lab''" and "Ev_poll \<in> set (trace s)"
proof -
  let ?E = "lab_door ''secret''"
  obtain s ta t u tmp where y: "lab_door_reaches (lab_site s (Some (At_top, started ta 0 s)))"
    "trace s = Ev_poll # t" "queue_of s ''#lab'' = [(u, tmp)]" "u_nick u = ''alice''"
    "smap_find (sv_threads s) ''#lab'' = Some ta" by (rule lab_alice_waits)
  let ?y = "lab_site s (Some (At_top, started ta 0 s))" and ?v = "view s (started ta 0 s)"
  have sig: "signal_at ?E (trace ?v)" by (rule lab_signal) (simp add: y(2))
  obtain v' where v': "v' = ?v\<lparr>selfdestruct := True, trace := trace ?v @ [Ev_poll]\<rparr>" by blast
  have "thread_op ?E (ta_notify ta) At_top ?v = (Inr None, v')"
    using sig by (simp add: run load_selfdestruct_run v')
  then have "chan_result ?E (ta_notify ta) At_top ?v None (thread_over ?E (Inr ()) v')"
    by (simp add: chan_result_def)
  then have step: "chan_step ?E ''#lab'' ?y (chan_moved ''#lab'' None (thread_over ?E (Inr ()) v') ?y)"
    using y(5) by (intro chan_moves) (simp_all add: lab_site_def)
  obtain t' where over: "thread_over ?E (Inr ()) v' = v'\<lparr>trace := trace v' @ t'\<rparr>"
    using thread_over_eq [of "Inr ()" ?E v'] by auto
  obtain s2 where s2: "s2 = publish (thread_over ?E (Inr ()) v') s" by blast
  have reached: "lab_door_reaches (lab_site s2 None)"
    using lab_chan_step [OF step y(1)] by (simp add: chan_moved_def lab_site_def s2)
  have "queue_of s2 ''#lab'' = [(u, tmp)]" "smap_count (sv_threads s2) ''#lab''" "Ev_poll \<in> set (trace s2)"
    using y(2,3,5) unfolding s2 over by (simp_all add: v' queue_of_def smap_count_def)
  with reached y(4) show thesis by (intro that)
qed

lemma lab_main_ends:
  assumes "Ev_poll \<in> set (trace s)"
  shows "\<exists>z. site_step (lab_door ''secret'') (lab_site s th) z \<and> site_stage z = Ended
    \<and> site_threads z ''#lab'' = th"
proof -
  have "main_op (lab_door ''secret'') Accepting s
      = (Inr Ended, s\<lparr>selfdestruct := True, trace := trace s @ [Ev_poll]\<rparr>)"
    using lab_signal [OF assms] by (simp add: run load_selfdestruct_run)
  then have "main_step (lab_door ''secret'') (lab_site s th) ((lab_site s th)\<lparr>site_main :=
      main_over (lab_door ''secret'') (Inr ()) (s\<lparr>selfdestruct := True, trace := trace s @ [Ev_poll]\<rparr>),
      site_stage := Ended\<rparr>)"
    by (intro main_stops) (simp_all add: lab_site_def)
  note step = by_main [OF this]
  show ?thesis by (rule exI, rule conjI, rule step) (simp add: lab_site_def)
qed

end
