(* ===== verification/Site_Props.thy ===== *)
theory Site_Props
  imports Site_Lab
begin

text \<open>
  The properties of the server as a whole, in an environment that may do anything, each with a run of the
  site of \<open>Site_Lab\<close> as its witness.
\<close>

text \<open>C7: Whatever the environment does, every reachable state of the server is well-typed: every message
  in any queue, of the main thread, of the users who wait, or of a channel's thread, is one that a
  reader can produce (not empty, shorter than the buffer, without NUL and line end); and every running
  thread belongs to its channel, is registered, and finds its flag, through a valid pointer, raised.\<close>

theorem server_well_typed:
  assumes "reaches site_init (site_step E) y"
  shows "(\<forall>e. list_all wire_msg (smap_get [] (sv_end_msgs (site_main y)) e))
    \<and> (\<forall>c u ms. (u, ms) \<in> set (queue_of (site_main y) c) \<longrightarrow> list_all wire_msg ms)
    \<and> (\<forall>c ph st. site_threads y c = Some (ph, st) \<longrightarrow> s_channel_name st = c
        \<and> (\<forall>e. list_all wire_msg (smap_get [] (s_end_msgs st) e))
        \<and> (\<exists>ta. smap_find (sv_threads (site_main y)) c = Some ta
            \<and> check_newusers (ta_notify ta) (view (site_main y) st) = (Inr True, view (site_main y) st)))"
proof -
  have wt: "well_typed y" using assms by (rule site.reachable_inv)
  have "\<exists>ta. smap_find (sv_threads (site_main y)) c = Some ta
      \<and> check_newusers (ta_notify ta) (view (site_main y) st) = (Inr True, view (site_main y) st)"
    if thr: "site_threads y c = Some (ph, st)" for c ph st
  proof -
    obtain ta where ta: "smap_find (sv_threads (site_main y)) c = Some ta"
      using wt thr by (rule well_typed_registered)
    then have "load_flag (flags (site_main y)) (ta_notify ta) = Inr True"
      using wt by (auto simp: well_typed_def typed_main_def flag_raised_def the_notifier_def)
    with ta show ?thesis by (simp add: check_newusers_def run)
  qed
  with wt show ?thesis
    by (fastforce simp: well_typed_def typed_main_def wire_queues_def wire_waiting_def queue_of_def)
qed

lemma server_well_typed_witness:
  "\<exists>y st u tmp ta. reaches site_init (site_step (lab_door ''secret'')) y
     \<and> site_threads y ''#lab'' = Some (At_top, st) \<and> s_channel_name st = ''#lab''
     \<and> queue_of (site_main y) ''#lab'' = [(u, tmp)] \<and> u_nick u = ''alice'' \<and> list_all wire_msg tmp
     \<and> smap_find (sv_threads (site_main y)) ''#lab'' = Some ta
     \<and> check_newusers (ta_notify ta) (view (site_main y) st) = (Inr True, view (site_main y) st)"
proof -
  obtain s ta t u tmp where y: "lab_door_reaches (lab_site s (Some (At_top, started ta 0 s)))"
    "queue_of s ''#lab'' = [(u, tmp)]" "u_nick u = ''alice''"
    "smap_find (sv_threads s) ''#lab'' = Some ta" by (rule lab_alice_waits)
  let ?y = "lab_site s (Some (At_top, started ta 0 s))"
  have sel: "site_main ?y = s" "site_threads ?y ''#lab'' = Some (At_top, started ta 0 s)"
    by (simp_all add: lab_site_def)
  note wt = server_well_typed [OF y(1), unfolded sel(1)]
  have "(u, tmp) \<in> set (queue_of s ''#lab'')" using y(2) by simp
  then have tmp: "list_all wire_msg tmp" using wt by blast
  from wt sel(2) obtain ta' where "s_channel_name (started ta 0 s) = ''#lab''"
    "smap_find (sv_threads s) ''#lab'' = Some ta'"
    "check_newusers (ta_notify ta') (view s (started ta 0 s)) = (Inr True, view s (started ta 0 s))"
    by blast
  with y tmp sel show ?thesis
    by (intro exI [of _ ?y] exI [of _ "started ta 0 s"] exI [of _ u] exI [of _ tmp] exI [of _ ta'])
      (simp only: simp_thms)
qed

text \<open>C3: A connection never has two owners, whatever fails: if no accepted connection reuses the name of
  an earlier one, then in every reachable state the sockets in the shared deque and those of all
  channels' threads are pairwise different.\<close>

theorem connections_have_one_owner:
  assumes "reaches site_init (site_step E) y" and "never_reused E"
  shows "(\<forall>c. distinct (thread_socks y c @ global_socks (site_main y)))
    \<and> (\<forall>c d. c \<noteq> d \<longrightarrow> set (thread_socks y c) \<inter> set (thread_socks y d) = {})"
proof -
  have "one_owner E y" using owners.reachable_inv [OF assms(1)] assms(2) by blast
  then have y: "distinct (global_socks (site_main y))"
    "set (global_socks (site_main y)) \<inter> (\<Union>c. set (thread_socks y c)) = {}"
    "\<And>c. distinct (thread_socks y c)"
    "\<And>c d. c \<noteq> d \<Longrightarrow> set (thread_socks y c) \<inter> set (thread_socks y d) = {}"
    by (simp_all add: one_owner_def deque_ok_def)
  have "set (thread_socks y c) \<inter> set (global_socks (site_main y)) = {}" for c
    using y(2) by blast
  with y(1,3,4) show ?thesis by simp
qed

lemma lab_door_never_reuses: "never_reused (lab_door pass)"
  by (simp add: never_reused_def lab_door_def seen_def)

lemma connections_have_one_owner_witness:
  "\<exists>y st. reaches site_init (site_step (lab_door ''secret'')) y
     \<and> site_threads y ''#lab'' = Some (At_top, st)
     \<and> distinct (thread_socks y ''#lab'' @ global_socks (site_main y))
     \<and> set (thread_socks y ''#lab'') \<inter> set (thread_socks y ''#den'') = {}"
proof -
  obtain s ta t u tmp where y: "lab_door_reaches (lab_site s (Some (At_top, started ta 0 s)))"
    by (rule lab_alice_waits)
  let ?y = "lab_site s (Some (At_top, started ta 0 s))"
  have at: "site_threads ?y ''#lab'' = Some (At_top, started ta 0 s)" by (simp add: lab_site_def)
  note own = connections_have_one_owner [OF y lab_door_never_reuses]
  have "set (thread_socks ?y ''#lab'') \<inter> set (thread_socks ?y ''#den'') = {}"
    by (rule own [THEN conjunct2, rule_format]) simp
  with y at own [THEN conjunct1, rule_format, of "''#lab''"] show ?thesis
    by (intro exI [of _ ?y] exI [of _ "started ta 0 s"] conjI)
qed

text \<open>C11: A channel whose thread has ended, for whatever reason, is never served again: its entry stays
  in \<open>_threads\<close>, so no thread is started for it, and whoever waits for it, or joins it later, waits
  forever.\<close>

theorem ended_channel_never_served:
  assumes "reaches site_init (site_step E) y" and "site_threads y c = None"
    and "smap_count (sv_threads (site_main y)) c" and "(site_step E)\<^sup>*\<^sup>* y z"
  shows "site_threads z c = None \<and> prefix (queue_of (site_main y) c) (queue_of (site_main z) c)"
proof -
  have "abandoned c (queue_of (site_main y) c) y"
    using site.reachable_inv [OF assms(1)] assms(2,3) by (simp add: abandoned_def)
  with assms(4) have "abandoned c (queue_of (site_main y) c) z" by (rule abandoned_steps)
  then show ?thesis by (simp add: abandoned_def)
qed

lemma ended_channel_never_served_witness:
  "\<exists>y z u tmp. reaches site_init (site_step (lab_door ''secret'')) y
     \<and> queue_of (site_main y) ''#lab'' = [(u, tmp)] \<and> u_nick u = ''alice''
     \<and> site_step (lab_door ''secret'') y z
     \<and> site_threads z ''#lab'' = None \<and> prefix [(u, tmp)] (queue_of (site_main z) ''#lab'')"
proof -
  obtain s u tmp where y: "lab_door_reaches (lab_site s None)" "queue_of s ''#lab'' = [(u, tmp)]"
    "u_nick u = ''alice''" "smap_count (sv_threads s) ''#lab''" "Ev_poll \<in> set (trace s)"
    by (rule lab_thread_ends)
  obtain z where z: "site_step (lab_door ''secret'') (lab_site s None) z"
    using lab_main_ends [OF y(5)] by blast
  have sel: "site_main (lab_site s None) = s" "site_threads (lab_site s None) ''#lab'' = None"
    by (simp_all add: lab_site_def)
  note ended = ended_channel_never_served [OF y(1) sel(2) _ r_into_rtranclp [of "site_step _", OF z]]
  from ended y(2,4) have "site_threads z ''#lab'' = None" "prefix [(u, tmp)] (queue_of (site_main z) ''#lab'')"
    by (simp_all add: sel(1))
  with y(1-3) z sel(1) show ?thesis by metis
qed

text \<open>C6: When the main thread has ended, for whatever reason, the whole server ends, in every
  interleaving: \<open>selfdestruct\<close> stays set, all threads together take at most three more steps for every
  entry of \<open>_threads\<close>, and \<open>~Server\<close>, which joins the threads of its register, returns exactly when no
  thread is left; a thread that has neither ended nor a step to take, for which \<open>~Server\<close> waits
  forever, is in undefined behaviour or in a call that does not return.\<close>

theorem main_end_ends_channels:
  assumes "reaches site_init (site_step E) y" and "site_stage y = Ended" and "(site_step E ^^ n) y z"
  shows "selfdestruct (site_main z) \<and> n \<le> 3 * length (sv_threads (site_main y))
    \<and> (all_joined z \<longleftrightarrow> site_threads z = (\<lambda>_. None))
    \<and> (\<forall>c ph st. site_threads z c = Some (ph, st) \<longrightarrow> (\<exists>x. chan_step E c z x)
        \<or> (\<exists>ta e. smap_find (sv_threads (site_main z)) c = Some ta \<and> \<not> exception e
             \<and> fst (thread_op E (ta_notify ta) ph (view (site_main z) st)) = Inl e))"
proof -
  have "well_typed y" using assms(1) by (rule site.reachable_inv)
  from stopped_steps [OF assms(3) this assms(2)]
  have z: "well_typed z" "site_stage z = Ended" "n + work_left z \<le> work_left y" by simp_all
  then have "selfdestruct (site_main z)" by (simp add: well_typed_def)
  moreover have "n \<le> 3 * length (sv_threads (site_main y))"
    using z(3) work_left_le [of y] by linarith
  ultimately show ?thesis using all_joined_iff [OF z(1)] chan_stuck [OF z(1)] by blast
qed

lemma main_end_ends_channels_witness:
  "\<exists>y z st. reaches site_init (site_step (lab_door ''secret'')) y \<and> site_stage y = Ended
     \<and> site_threads y ''#lab'' = Some (At_top, st) \<and> (site_step (lab_door ''secret'') ^^ 1) y z
     \<and> site_threads z ''#lab'' = None \<and> selfdestruct (site_main z)
     \<and> 1 \<le> 3 * length (sv_threads (site_main y))"
proof -
  let ?E = "lab_door ''secret''"
  obtain s ta t where x: "lab_door_reaches (lab_site s (Some (At_top, started ta 0 s)))"
    "trace s = Ev_poll # t" by (rule lab_alice_waits)
  then obtain y where y: "site_step ?E (lab_site s (Some (At_top, started ta 0 s))) y" "site_stage y = Ended"
    "site_threads y ''#lab'' = Some (At_top, started ta 0 s)"
    using lab_main_ends [of s "Some (At_top, started ta 0 s)"] by auto
  have reached: "lab_door_reaches y" using x(1) y(1) by (rule reaches_step)
  then have "well_typed y" by (rule site.reachable_inv)
  moreover from this y(2) have "selfdestruct (site_main y)" by (simp add: well_typed_def)
  ultimately obtain st' where "chan_step ?E ''#lab'' y (chan_moved ''#lab'' None st' y)"
    using y(3) by (rule at_top_ends)
  then have step: "(site_step ?E ^^ 1) y (chan_moved ''#lab'' None st' y)"
    by (simp add: eq_OO) (rule by_channel)
  moreover have "site_threads (chan_moved ''#lab'' None st' y) ''#lab'' = None" by simp
  moreover note main_end_ends_channels [OF reached y(2) step]
  ultimately show ?thesis using reached y(2,3) by blast
qed

text \<open>C8: An iteration of a channel's thread stays at home, in every environment and however it ends: of
  the shared state it changes only its own channel's queue of new users, which it leaves alone or
  empties, and the deque, from which it takes; it leaves every channel's flag and the flag that ends
  the server as they are, neither makes nor copies a socket, and what it queues are messages that a
  reader can produce.\<close>

theorem servlet_iter_stays_home:
  "\<exists>t. trace (snd (servlet_iter E p s)) = trace s @ t
    \<and> flags (snd (servlet_iter E p s)) = flags s
    \<and> selfdestruct (snd (servlet_iter E p s)) = selfdestruct s
    \<and> s_channel_name (snd (servlet_iter E p s)) = s_channel_name s
    \<and> (\<forall>c. smap_get [] (chan_newusers (snd (servlet_iter E p s))) c
          \<in> {smap_get [] (chan_newusers s) c} \<union> (if c = s_channel_name s then {[]} else {}))
    \<and> mset (global_socks (snd (servlet_iter E p s))) \<subseteq># mset (global_socks s)
    \<and> mset (s_socks (snd (servlet_iter E p s)) @ global_socks (snd (servlet_iter E p s)))
        \<subseteq># mset (s_socks s @ global_socks s)
    \<and> (wire_typed s \<longrightarrow> wire_typed (snd (servlet_iter E p s)))"
proof -
  let ?s = "snd (servlet_iter E p s)"
  have "at_home s ?s" by (rule keepsD [OF home.keeps_servlet_iter at_home_refl])
  moreover have "owned_within (mset (s_socks s @ global_socks s)) ?s"
    by (rule keepsD [OF owner.keeps_servlet_iter]) (simp add: owned_within_def)
  moreover have "wire_typed s \<longrightarrow> wire_typed ?s"
    using keepsD [OF wire.keeps_servlet_iter] by blast
  moreover have "selfdestruct ?s = selfdestruct s"
    by (rule keepsD [OF destruct.keeps_servlet_iter]) (rule refl)
  ultimately show ?thesis by (auto simp: at_home_def owned_within_def)
qed

lemma lab_arrivals_typed: "wire_typed lab_arrivals"
proof -
  have wf: "smap_wf (chan_newusers lab_arrivals)" by (simp add: smap_wf_def)
  have "wire_msg ''PRIVMSG #lab :hi''"
    by (simp add: wire_msg_def starts_with_def nul_def crlf_def BUFF_SIZE_def)
  then have "list_all wire_msg ms" if "(u, ms) \<in> set (smap_get [] (chan_newusers lab_arrivals) c)" for c u ms
    using that by (auto simp: smap_get_def split: if_splits)
  with wf show ?thesis
    by (auto simp: wire_typed_def wire_queues_def wire_waiting_def smap_get_def)
qed

lemma lab_arrivals_untold: "\<not> selfdestruct lab_arrivals"
  by (simp add: lab_arrivals_def lab_servlet_def)

lemma servlet_iter_stays_home_witness:
  "\<exists>s'. s' = snd (servlet_iter (lab_env\<lparr>remote_ep := \<lambda>_ _. None\<rparr>) (Some 0) lab_arrivals) \<and> wire_typed s'
     \<and> smap_get [] (chan_newusers s') ''#other'' = [(lab_user ''eve'' 9, [])]
     \<and> flags s' = [True] \<and> \<not> selfdestruct s' \<and> mset (global_socks s') \<subseteq># {#4, 9, 5#}"
  using servlet_iter_stays_home [of "lab_env\<lparr>remote_ep := \<lambda>_ _. None\<rparr>" "Some 0" lab_arrivals] lab_arrivals_typed
    lab_arrivals_untold
  by (auto simp: smap_get_def dest: spec [where x = "''#other''"])

end
