(* ===== verification/Client.thy ===== *)
theory Client
  imports Sockio Users
begin

text \<open>
  \<open>client/Client\<close>: the interactive client. Its state are the members of the class and the standard
  input, as the characters that are left and whether the stream is still good. What the operating
  system answers (the login name, the socket) and \<open>address_v4::from_string\<close> are parameters.
\<close>

record client = world +
  cin :: string
  cin_good :: bool
  c_sock :: "sock option"
  c_user :: user
  c_sock_msgs :: "string list"
  c_topic :: string
  c_channel :: string

datatype client_code = quitting | not_quitting | switching

definition new_client :: "string \<Rightarrow> client" where
  "new_client input = \<lparr>trace = [], cin = input, cin_good = True, c_sock = None,
     c_user = user_default, c_sock_msgs = [], c_topic = [], c_channel = []\<rparr>"

section \<open>Standard streams\<close>

text \<open>
  \<open>std::getline(std::cin, str)\<close>: up to the next newline, or up to the end of the input, after which
  the stream is no longer good; on such a stream \<open>str\<close> keeps the value it had.
\<close>

definition getline :: "string \<Rightarrow> (client, string) cmd" where
  "getline str =
     bindE (gets (\<lambda>s. (cin_good s, cin s))) (\<lambda>(good, left).
       if \<not> good then ret str
       else (case find_idx ''\<newline>'' left of
               Some i \<Rightarrow> thenE (update (\<lambda>s. s\<lparr>cin := drop (i + 1) left\<rparr>)) (ret (take i left))
             | None \<Rightarrow> thenE (update (\<lambda>s. s\<lparr>cin := [], cin_good := False\<rparr>)) (ret left)))"

definition esc :: string where
  "esc = [CHR 0x1B]"

definition to_blue :: "string \<Rightarrow> string" where
  "to_blue msg = esc @ ''[1;34m'' @ msg @ esc @ ''[0m''"

definition to_cyan :: "string \<Rightarrow> string" where
  "to_cyan msg = esc @ ''[1;36m'' @ msg @ esc @ ''[0m''"

definition to_magenta :: "string \<Rightarrow> string" where
  "to_magenta msg = esc @ ''[1;35m'' @ msg @ esc @ ''[0m''"

definition banner :: string where
  "banner = ''\<newline>'' @ ''##########################\<newline>''"

definition DEBUG :: bool where
  "DEBUG = False"

definition debug_out :: "string \<Rightarrow> (client, unit) cmd" where
  "debug_out m = (if DEBUG then print_out m else ret ())"

section \<open>The socket\<close>

text \<open>\<open>*_sockptr\<close>, and the wrappers around \<open>sockio\<close>.\<close>

definition the_sock :: "(client, sock) cmd" where
  "the_sock = bindE (gets c_sock) (\<lambda>p.
     case p of None \<Rightarrow> throw (UB Null_pointer) | Some k \<Rightarrow> ret k)"

definition client_try_reading :: "env \<Rightarrow> (client, string) cmd" where
  "client_try_reading E =
     bindE the_sock (\<lambda>k.
     bindE (gets c_sock_msgs) (\<lambda>q.
     bindE (try_reading_from_sock E k q) (\<lambda>(m, q').
     thenE (update (\<lambda>s. s\<lparr>c_sock_msgs := q'\<rparr>)) (ret m))))"

definition client_try_writing :: "env \<Rightarrow> string \<Rightarrow> (client, unit) cmd" where
  "client_try_writing E msg =
     bindE the_sock (\<lambda>k. bindE (try_writing_to_sock E k msg) (\<lambda>_. ret ()))"

definition client_update :: "env \<Rightarrow> (client, unit) cmd" where
  "client_update E =
     bindE the_sock (\<lambda>k.
     bindE (gets c_sock_msgs) (\<lambda>q.
     bindE (update_sockmsgs E k q) (\<lambda>q'. update (\<lambda>s. s\<lparr>c_sock_msgs := q'\<rparr>))))"

definition set_sock :: "sock \<Rightarrow> (client, unit) cmd" where
  "set_sock k = thenE (log_event (Ev_socket k)) (update (\<lambda>s. s\<lparr>c_sock := Some k\<rparr>))"

definition connect_sock :: "env \<Rightarrow> endpoint \<Rightarrow> (client, unit) cmd" where
  "connect_sock E e =
     bindE the_sock (\<lambda>k.
       call (Ev_connect k e) (\<lambda>t. if connect_ok E t k e then Inr () else Inl System_error))"

section \<open>Registering\<close>

text \<open>\<open>login\<close> is the name in the password entry of the effective user, \<open>None\<close> if there is no entry.\<close>

definition query_and_create :: "string option \<Rightarrow> (client, unit) cmd" where
  "query_and_create login =
     thenE (print_out (to_blue (''\<newline>'' @ ''##########################\<newline>''
        @ ''Going to ask for user info...\<newline>''
        @ ''Note: these are reserved characters that cannot be used:\<newline>''
        @ '': ! @\<newline>\<newline>''
        @ ''What is your nickname?\<newline>'')))
    (bindE (getline []) (\<lambda>nick.
     bindE (case login of None \<Rightarrow> throw (UB Null_pointer) | Some w \<Rightarrow> ret w) (\<lambda>whoami.
     thenE (print_out (to_blue ''What is your real name?\<newline>''))
    (bindE (getline []) (\<lambda>real.
     thenE (print_out (to_blue ''Lastly, what is your password?\<newline>''))
    (bindE (getline []) (\<lambda>pass.
       update (\<lambda>s. s\<lparr>c_user := user4 nick whoami real pass\<rparr>))))))))"

text \<open>\<open>parts[i]\<close>, which is not checked.\<close>

definition part_at :: "string list \<Rightarrow> nat \<Rightarrow> ('s, string) cmd" where
  "part_at parts i = (if i < length parts then ret (parts ! i) else throw (UB Container_index))"

definition pass_user_info_to_server :: "env \<Rightarrow> (client, bool) cmd" where
  "pass_user_info_to_server E =
     bindE (gets c_user) (\<lambda>u.
     thenE (client_try_writing E (''NICK '' @ u_nick u @ crlf))
    (thenE (client_try_writing E (''USER '' @ u_whoami u @ '' * * :'' @ u_real u @ crlf))
    (thenE (client_try_writing E (''PASS '' @ u_pass u @ crlf @ crlf))
    (bindE (client_try_reading E) (\<lambda>reply.
     bindE (split_msg reply '' '') (\<lambda>parts.
     bindE (part_at parts 3) (\<lambda>p3.
     bindE (lift (substr p3 1)) (\<lambda>txt.
     thenE (print_out (to_blue (txt @ ''\<newline>'')))
    (bindE (part_at parts 1) (\<lambda>p1. ret (p1 = RPL_WELCOME)))))))))))"

section \<open>Joining a channel\<close>

text \<open>The loop over the parts after the first.\<close>

fun rest_of_parts :: "string \<Rightarrow> string list \<Rightarrow> string" where
  "rest_of_parts new_msg [] = new_msg"
| "rest_of_parts new_msg [p] = new_msg @ p"
| "rest_of_parts new_msg (p # q # ps) = rest_of_parts (new_msg @ p @ '':'') (q # ps)"

definition parse_topic_msg :: "string \<Rightarrow> (client, string) cmd" where
  "parse_topic_msg msg = bindE (split_msg msg '':'') (\<lambda>parts. ret (rest_of_parts [] (tl parts)))"

definition parse_user_list_msg :: "string \<Rightarrow> (client, string) cmd" where
  "parse_user_list_msg msg = parse_topic_msg msg"

definition connect_to_channel :: "env \<Rightarrow> (client, string) cmd" where
  "connect_to_channel E =
     thenE (print_out (to_blue (banner @ ''What #channel would you like to join?\<newline>'')))
    (bindE (getline []) (\<lambda>typed.
     let channel = (if take 1 typed \<noteq> ''#'' then ''#'' @ typed else typed) in
     thenE (client_try_writing E (''JOIN '' @ channel @ crlf))
    (bindE (client_try_reading E) (\<lambda>reply.
     thenE (debug_out ''DEBUG: should be confirmation message\<newline>'')
    (thenE (debug_out (reply @ ''\<newline>''))
    (thenE (print_out (to_blue (banner @ ''Successfully connected to '' @ channel @ ''\<newline>'')))
    (bindE (client_try_reading E) (\<lambda>reply.
     thenE (debug_out (reply @ ''\<newline>''))
    (bindE (parse_topic_msg reply) (\<lambda>topic.
     thenE (update (\<lambda>s. s\<lparr>c_topic := topic\<rparr>))
    (thenE (print_out (to_blue (banner @ channel @ '' Topic:\<newline>'' @ topic @ ''\<newline>'')))
    (bindE (client_try_reading E) (\<lambda>reply.
     thenE (debug_out (reply @ ''\<newline>''))
    (bindE (parse_user_list_msg reply) (\<lambda>users.
     thenE (print_out (to_blue (banner @ channel @ '' Users:\<newline>'' @ users @ ''\<newline>'')))
    (bindE (client_try_reading E) (\<lambda>reply.
     thenE (debug_out (reply @ ''\<newline>'')) (ret channel))))))))))))))))))"

section \<open>The session\<close>

text \<open>
  The four regular expressions are sequences of literal text, \<open>\w+\<close> and \<open>\d+\<close> after a \<open>^\<close>, so
  \<open>regex_search\<close> looks for them at the start of the message only. \<open>rx_left r s\<close> are the texts that
  can be left of \<open>s\<close> after a match of \<open>r\<close> at its start; \<open>regex_search\<close> backtracks over them.
\<close>

datatype rx = Lit string | Words | Digits

definition cuts :: "string \<Rightarrow> nat \<Rightarrow> string list" where
  "cuts s n = map (\<lambda>i. drop i s) (rev [1..<Suc n])"

fun rx_left :: "rx \<Rightarrow> string \<Rightarrow> string list" where
  "rx_left (Lit l) s = (if starts_with l s then [drop (length l) s] else [])"
| "rx_left Words s = cuts s (length (takeWhile is_word_char s))"
| "rx_left Digits s = cuts s (length (takeWhile is_digit s))"

fun regex_search :: "rx list \<Rightarrow> string \<Rightarrow> bool" where
  "regex_search [] s = True"
| "regex_search (r # rs) s = list_ex (regex_search rs) (rx_left r s)"

definition rx_origin :: "rx list" where
  "rx_origin = [Words, Lit ''!'', Words, Lit ''@'', Digits, Lit ''.'', Digits, Lit ''.'', Digits,
     Lit ''.'', Digits]"

definition priv_rx :: "rx list" where
  "priv_rx = Lit '':'' # rx_origin @ [Lit '' PRIVMSG'']"

definition part_rx :: "rx list" where
  "part_rx = Lit '':'' # rx_origin @ [Lit '' PART'']"

definition join_rx :: "rx list" where
  "join_rx = rx_origin @ [Lit '' JOIN'']"

definition topic_rx :: "rx list" where
  "topic_rx = rx_origin @ [Lit '' TOPIC'']"

definition unparseable :: error where
  "unparseable = Invalid_argument ''not parseable message or buffer overflow\<newline>''"

definition parse_priv :: "string \<Rightarrow> (client, unit) cmd" where
  "parse_priv msg =
     bindE (lift (substr_n msg 1 (size_minus (pos_of (find_from msg ''!'' 0)) 1))) (\<lambda>nick.
     bindE (lift (substr msg (pos_plus (find_from msg '':'' 1) 1))) (\<lambda>content.
       print_out (to_magenta (nick @ '': '' @ content @ ''\<newline>''))))"

definition parse_part :: "string \<Rightarrow> (client, unit) cmd" where
  "parse_part msg =
     bindE (lift (substr_n msg 1 (size_minus (pos_of (find_from msg ''!'' 0)) 1))) (\<lambda>nick.
     bindE (lift (substr msg (pos_plus (find_from msg ''PART'' 0) 5))) (\<lambda>channel.
       print_out (to_magenta (nick @ '' LEFT CHANNEL '' @ channel @ ''\<newline>''))))"

definition parse_join :: "string \<Rightarrow> (client, unit) cmd" where
  "parse_join msg =
     bindE (lift (substr_n msg 0 (pos_of (find_from msg ''!'' 0)))) (\<lambda>nick.
     bindE (lift (substr msg (pos_plus (find_from msg ''JOIN'' 0) 5))) (\<lambda>channel.
       print_out (to_magenta (nick @ '' JOINED CHANNEL '' @ channel @ ''\<newline>''))))"

definition parse_topic_change :: "string \<Rightarrow> (client, unit) cmd" where
  "parse_topic_change msg =
     bindE (lift (substr_n msg 0 (pos_of (find_from msg ''!'' 0)))) (\<lambda>nick.
     bindE (gets c_channel) (\<lambda>chan.
     let delim = '' TOPIC '' @ chan @ '' :'' in
     bindE (lift (substr msg (pos_plus (find_from msg delim 0) (length delim)))) (\<lambda>new_topic.
     thenE (update (\<lambda>s. s\<lparr>c_topic := new_topic\<rparr>))
       (print_out (to_magenta (nick @ '' CHANGED TOPIC TO: '' @ new_topic @ ''\<newline>''))))))"

definition parse_session_msg :: "string \<Rightarrow> (client, unit) cmd" where
  "parse_session_msg msg =
     (if regex_search priv_rx msg then parse_priv msg
      else if regex_search part_rx msg then parse_part msg
      else if regex_search join_rx msg then parse_join msg
      else if regex_search topic_rx msg then parse_topic_change msg
      else thenE (print_out (''ERROR, unrecognized message or buffer overflow\<newline>'' @ msg @ ''\<newline>''))
          (thenE (print_out (''MSG length: '' @ to_string (length msg) @ ''\<newline>''))
             (throw unparseable)))"

section \<open>Commands\<close>

definition handle_topic_request :: "env \<Rightarrow> (client, unit) cmd" where
  "handle_topic_request E =
     thenE (print_out (to_blue (banner @ ''Do you want to SHOW or SET the topic?\<newline>''
        @ ''Type SHOW or SET for the respective option\<newline>'')))
    (bindE (getline []) (\<lambda>resp.
       if resp = ''SHOW'' then
         bindE (gets (\<lambda>s. (u_chan (c_user s), c_topic s))) (\<lambda>(chan, topic).
           print_out (to_blue (banner @ chan @ '' Topic:\<newline>'' @ topic @ ''\<newline>\<newline>'')))
       else if resp = ''SET'' then
         thenE (print_out (to_blue (banner @ ''Please type in the channel's new topic:\<newline>'')))
        (bindE (getline resp) (\<lambda>resp.
         bindE (gets (\<lambda>s. u_chan (c_user s))) (\<lambda>chan.
           client_try_writing E (''TOPIC '' @ chan @ '' :'' @ resp @ crlf))))
       else print_out (to_blue ''Sorry that wasn't an option\<newline>'')))"

definition help_text :: string where
  "help_text = banner @ ''options...\<newline>''
     @ ''TOPIC: SET or SHOW the current chat topic\<newline>''
     @ ''EXIT: exit the client\<newline>''
     @ ''LEAVE: exit channel, and connect to new one\<newline>''
     @ ''HELP: print this dialog\<newline>\<newline>''"

definition parse_user_input :: "env \<Rightarrow> string \<Rightarrow> (client, client_code) cmd" where
  "parse_user_input E msg =
     bindE (gets (\<lambda>s. u_chan (c_user s))) (\<lambda>chan.
       if msg = [] then ret not_quitting
       else if msg = ''EXIT'' then
         thenE (client_try_writing E (''PART '' @ chan @ crlf)) (ret quitting)
       else if msg = ''HELP'' then thenE (print_out (to_blue help_text)) (ret not_quitting)
       else if msg = ''TOPIC'' then thenE (handle_topic_request E) (ret not_quitting)
       else if msg = ''LEAVE'' then
         thenE (client_try_writing E (''PART '' @ chan @ crlf)) (ret switching)
       else
         thenE (client_try_writing E (''PRIVMSG '' @ chan @ '' :'' @ msg @ crlf)) (ret not_quitting))"

section \<open>The client's main loop\<close>

definition enter_channel :: "env \<Rightarrow> (client, unit) cmd" where
  "enter_channel E =
     bindE (connect_to_channel E) (\<lambda>channel.
       update (\<lambda>s. s\<lparr>c_channel := channel, c_user := set_channel channel (c_user s)\<rparr>))"

definition rejoin :: "env \<Rightarrow> endpoint \<Rightarrow> (client, unit) cmd" where
  "rejoin E e =
     bindE the_sock (\<lambda>k.
     thenE (close_sock k)
    (thenE (connect_sock E e)
    (bindE (pass_user_info_to_server E) (\<lambda>_. enter_channel E))))"

text \<open>One iteration of the loop of \<open>run\<close>; \<open>userIO\<close> is the variable that \<open>getline\<close> reads into.\<close>

definition client_iter :: "env \<Rightarrow> endpoint \<Rightarrow> string \<Rightarrow> (client, client_code \<times> string) cmd" where
  "client_iter E e userIO =
     thenE (client_update E)
    (bindE (gets c_sock_msgs) (\<lambda>msgs.
     thenE (for_each parse_session_msg msgs)
    (thenE (update (\<lambda>s. s\<lparr>c_sock_msgs := []\<rparr>))
    (bindE (gets (\<lambda>s. u_nick (c_user s))) (\<lambda>nick.
     thenE (print_out (to_cyan (nick @ '': '')))
    (bindE (getline userIO) (\<lambda>userIO.
     bindE (parse_user_input E userIO) (\<lambda>cc.
     thenE (if cc = switching then rejoin E e else ret ()) (ret (cc, userIO))))))))))"

partial_function (option) client_loop ::
  "env \<Rightarrow> endpoint \<Rightarrow> client_code \<Rightarrow> string \<Rightarrow> client \<Rightarrow> ((error + unit) \<times> client) option" where
  "client_loop E e cc userIO s =
     (if cc = quitting then Some (Inr (), s)
      else (case client_iter E e userIO s of
              (Inl x, s') \<Rightarrow> Some (Inl x, s')
            | (Inr (cc', userIO'), s') \<Rightarrow> client_loop E e cc' userIO' s'))"

declare client_loop.simps [code]

text \<open>\<open>std::stoul\<close>, and its conversion to \<open>unsigned short\<close>.\<close>

definition stoul :: "string \<Rightarrow> error + 64 word" where
  "stoul str =
     (let body = dropWhile is_space str;
          sign = (body \<noteq> [] \<and> (hd body = CHR ''-'' \<or> hd body = CHR ''+''));
          digits = takeWhile is_digit (if sign then tl body else body);
          n = foldl (\<lambda>n c. 10 * n + (of_char c - 48)) (0::nat) digits
      in if digits = [] then Inl (Invalid_argument ''stoul'')
         else if 2 ^ 64 \<le> n then Inl Out_of_range
         else Inr (if sign \<and> hd body = CHR ''-'' then - of_nat n else of_nat n))"

definition the_port :: "string \<Rightarrow> error + 16 word" where
  "the_port port = map_sum id ucast (stoul port)"

definition welcome_text :: string where
  "welcome_text = banner
     @ ''Type and press <ENTER> to send a message\<newline>''
     @ ''Type EXIT and press <ENTER> to exit the client\<newline>''
     @ ''EXIT<ENTER>\<newline>''
     @ ''Type HELP and press <ENTER> to find out more\<newline>''
     @ ''HELP<ENTER>\<newline>''
     @ ''Have fun :)\<newline>\<newline>''"

text \<open>
  \<open>run\<close> up to its loop; the result is the endpoint of the server, \<open>None\<close> where the code returns
  because the registration failed. \<open>k\<close> is the new socket.
\<close>

definition start_session ::
  "env \<Rightarrow> string option \<Rightarrow> (string \<Rightarrow> 32 word option) \<Rightarrow> sock \<Rightarrow> string \<Rightarrow> string
     \<Rightarrow> (client, endpoint option) cmd" where
  "start_session E login from_string k serv_ip port =
     thenE (print_out ''Starting client...\<newline>'')
    (bindE (lift (the_port port)) (\<lambda>serv_port.
     let serv_ip = (if serv_ip = ''localhost'' then ''127.0.0.1'' else serv_ip) in
     thenE (query_and_create login)
    (bindE (lift (or_throw System_error (from_string serv_ip))) (\<lambda>a.
     let e = Endpoint a serv_port in
     thenE (set_sock k)
    (thenE (connect_sock E e)
    (bindE (pass_user_info_to_server E) (\<lambda>successful.
       if \<not> successful then ret None
       else thenE (enter_channel E)
           (thenE (print_out (to_blue welcome_text)) (ret (Some e))))))))))"

definition client_run ::
  "env \<Rightarrow> string option \<Rightarrow> (string \<Rightarrow> 32 word option) \<Rightarrow> sock \<Rightarrow> string \<Rightarrow> string \<Rightarrow> client
     \<Rightarrow> ((error + unit) \<times> client) option" where
  "client_run E login from_string k serv_ip port s =
     map_option (\<lambda>(r, s'). catch_exception r ret (\<lambda>e. print_err (what E e @ ''\<newline>'')) s')
       (case start_session E login from_string k serv_ip port s of
          (Inl x, s1) \<Rightarrow> Some (Inl x, s1)
        | (Inr None, s1) \<Rightarrow> Some (Inr (), s1)
        | (Inr (Some e), s1) \<Rightarrow> client_loop E e not_quitting welcome_text s1)"

end
