(* ===== verification/Client_Text.thy ===== *)
theory Client_Text
  imports Client Delivery
begin

text \<open>
  What the client makes of the texts that the server sends: the languages of its regular expressions,
  and for each message of the server what the client prints.
\<close>

section \<open>The languages of the regular expressions\<close>

definition word :: "string \<Rightarrow> bool" where
  "word w \<longleftrightarrow> w \<noteq> [] \<and> list_all is_word_char w"

definition number :: "string \<Rightarrow> bool" where
  "number w \<longleftrightarrow> w \<noteq> [] \<and> list_all is_digit w"

fun rx_lang :: "rx \<Rightarrow> string \<Rightarrow> bool" where
  "rx_lang (Lit l) w = (w = l)"
| "rx_lang Words w = word w"
| "rx_lang Digits w = number w"

lemma cuts_iff:
  "r \<in> set (cuts s (length (takeWhile P s))) \<longleftrightarrow> (\<exists>w. w \<noteq> [] \<and> list_all P w \<and> s = w @ r)"
proof
  assume "r \<in> set (cuts s (length (takeWhile P s)))"
  then obtain i where i: "1 \<le> i" "i \<le> length (takeWhile P s)" "r = drop i s"
    by (auto simp: cuts_def)
  have "take i s = take i (takeWhile P s)"
    using i(2) by (metis append_eq_conv_conj take_all_iff takeWhile_dropWhile_id take_append
        diff_is_0_eq take0 append_Nil2)
  then have "\<forall>c \<in> set (take i s). P c"
    using set_takeWhileD by (metis in_set_takeD)
  moreover have "take i s \<noteq> []"
    using i(1,2) by (metis le_zero_eq length_takeWhile_le list.size(3) take_eq_Nil zero_neq_one)
  ultimately show "\<exists>w. w \<noteq> [] \<and> list_all P w \<and> s = w @ r"
    using i(3) by (intro exI [of _ "take i s"]) (simp add: list_all_iff)
next
  assume "\<exists>w. w \<noteq> [] \<and> list_all P w \<and> s = w @ r"
  then obtain w where w: "w \<noteq> []" "list_all P w" "s = w @ r" by blast
  then have "length w \<le> length (takeWhile P s)"
    by (simp add: takeWhile_append list_all_iff)
  then have "length w \<in> set (rev [1..<Suc (length (takeWhile P s))])"
    using w(1) by (cases w) auto
  with w(3) show "r \<in> set (cuts s (length (takeWhile P s)))"
    by (force simp: cuts_def)
qed

lemma rx_left_iff: "r \<in> set (rx_left x s) \<longleftrightarrow> (\<exists>w. rx_lang x w \<and> s = w @ r)"
  by (cases x) (auto simp: cuts_iff word_def number_def starts_with_iff)

lemma regex_search_iff:
  "regex_search rs s \<longleftrightarrow> (\<exists>ws r. list_all2 rx_lang rs ws \<and> s = concat ws @ r)"
proof (induction rs arbitrary: s)
  case Nil
  show ?case by simp
next
  case (Cons x rs)
  have "regex_search (x # rs) s \<longleftrightarrow> (\<exists>t \<in> set (rx_left x s). regex_search rs t)"
    by (simp add: list_ex_iff)
  also have "\<dots> \<longleftrightarrow> (\<exists>w t. rx_lang x w \<and> s = w @ t \<and> regex_search rs t)"
    by (simp only: Bex_def rx_left_iff) blast
  also have "\<dots> \<longleftrightarrow> (\<exists>w ws r. rx_lang x w \<and> list_all2 rx_lang rs ws \<and> s = w @ concat ws @ r)"
    by (auto simp: Cons.IH)
  also have "\<dots> \<longleftrightarrow> (\<exists>ws r. list_all2 rx_lang (x # rs) ws \<and> s = concat ws @ r)"
    by (auto simp: list_all2_Cons1) (metis append.assoc concat.simps(2))+
  finally show ?case .
qed

text \<open>What \<open>rx_origin\<close> stands for: a nickname, a user name and an IPv4 address.\<close>

definition origin :: "string \<Rightarrow> bool" where
  "origin p \<longleftrightarrow> (\<exists>n u a. p = n @ ''!'' @ u @ ''@'' @ a \<and> word n \<and> word u \<and> dotted_decimal a)"

lemma dotted_decimal_number:
  "dotted_decimal p \<longleftrightarrow> (\<exists>a b c d. p = a @ ''.'' @ b @ ''.'' @ c @ ''.'' @ d
     \<and> number a \<and> number b \<and> number c \<and> number d)"
  by (auto simp: dotted_decimal_def number_def)

lemma regex_origin:
  "regex_search (rx_origin @ [Lit t]) s \<longleftrightarrow> (\<exists>p r. origin p \<and> s = p @ t @ r)"
proof
  assume "regex_search (rx_origin @ [Lit t]) s"
  then obtain ws r where "list_all2 rx_lang (rx_origin @ [Lit t]) ws" "s = concat ws @ r"
    unfolding regex_search_iff by blast
  then obtain n u a b c d where "s = (n @ ''!'' @ u @ ''@'' @ a @ ''.'' @ b @ ''.'' @ c @ ''.'' @ d) @ t @ r"
    "word n" "word u" "number a" "number b" "number c" "number d"
    by (auto simp: rx_origin_def list_all2_Cons1)
  then show "\<exists>p r. origin p \<and> s = p @ t @ r"
    unfolding origin_def dotted_decimal_number by blast
next
  assume "\<exists>p r. origin p \<and> s = p @ t @ r"
  then obtain n u a b c d r where
    "s = n @ ''!'' @ u @ ''@'' @ a @ ''.'' @ b @ ''.'' @ c @ ''.'' @ d @ t @ r"
    "word n" "word u" "number a" "number b" "number c" "number d"
    unfolding origin_def dotted_decimal_number by auto
  then have "list_all2 rx_lang (rx_origin @ [Lit t])
      [n, ''!'', u, ''@'', a, ''.'', b, ''.'', c, ''.'', d, t]"
    and "s = concat [n, ''!'', u, ''@'', a, ''.'', b, ''.'', c, ''.'', d, t] @ r"
    by (simp_all add: rx_origin_def)
  then show "regex_search (rx_origin @ [Lit t]) s"
    unfolding regex_search_iff by blast
qed

lemma regex_colon:
  "regex_search (Lit '':'' # rs) s \<longleftrightarrow> (\<exists>t. s = '':'' @ t \<and> regex_search rs t)"
  by (auto simp: starts_with_iff)

section \<open>Characters of an origin\<close>

lemma word_char_simps [simp]:
  "\<not> is_word_char CHR '':''" "\<not> is_word_char CHR ''!''" "\<not> is_word_char CHR ''@''"
  "\<not> is_word_char CHR ''.''" "\<not> is_word_char CHR '' ''"
  by (simp_all add: is_word_char_def is_digit_def)

lemma digit_is_word: "is_digit c \<Longrightarrow> is_word_char c"
  by (simp add: is_word_char_def)

lemma word_notin: "word w \<Longrightarrow> \<not> is_word_char c \<Longrightarrow> c \<notin> set w"
  by (auto simp: word_def list_all_iff)

lemma number_notin: "number w \<Longrightarrow> \<not> is_word_char c \<Longrightarrow> c \<notin> set w"
  by (auto simp: number_def list_all_iff dest: digit_is_word)

lemma dotted_notin: "dotted_decimal a \<Longrightarrow> \<not> is_word_char c \<Longrightarrow> c \<noteq> CHR ''.'' \<Longrightarrow> c \<notin> set a"
  unfolding dotted_decimal_number by (auto dest: number_notin)

lemma origin_notin:
  "origin p \<Longrightarrow> \<not> is_word_char c \<Longrightarrow> c \<notin> {CHR ''.'', CHR ''!'', CHR ''@''} \<Longrightarrow> c \<notin> set p"
  unfolding origin_def by (auto dest: word_notin dotted_notin)

lemma origin_head: "origin p \<Longrightarrow> \<exists>c q. p = c # q \<and> is_word_char c"
  unfolding origin_def word_def by (auto simp: neq_Nil_conv)

lemma takeWhile_upto: "c \<notin> set u \<Longrightarrow> takeWhile (\<lambda>x. x \<noteq> c) (u @ c # v) = u"
  by (induction u) auto

lemma cut_unique:
  assumes "u @ c # v = u' @ c # v'" and "c \<notin> set u" and "c \<notin> set u'"
  shows "u = u'" and "v = v'"
proof -
  have "takeWhile (\<lambda>x. x \<noteq> c) (u @ c # v) = u" "takeWhile (\<lambda>x. x \<noteq> c) (u' @ c # v') = u'"
    using assms(2,3) by (simp_all add: takeWhile_upto)
  with assms(1) show "u = u'" by simp
  with assms(1) show "v = v'" by simp
qed

lemma origin_unique:
  assumes "p @ '' '' @ v = p' @ '' '' @ v'" and "origin p" and "origin p'"
  shows "v = v'"
proof -
  have "CHR '' '' \<notin> set p" "CHR '' '' \<notin> set p'"
    using assms(2,3) by (simp_all add: origin_notin)
  with cut_unique [of p "CHR '' ''" v p' v'] assms(1) show ?thesis by simp
qed

section \<open>Which branch a message takes\<close>

lemma search_priv: "origin p \<Longrightarrow> regex_search priv_rx ('':'' @ p @ '' PRIVMSG'' @ r)"
  unfolding priv_rx_def regex_colon regex_origin by blast

lemma search_part: "origin p \<Longrightarrow> regex_search part_rx ('':'' @ p @ '' PART'' @ r)"
  unfolding part_rx_def regex_colon regex_origin by blast

lemma no_colon:
  assumes "origin p"
  shows "\<not> regex_search priv_rx (p @ r)" and "\<not> regex_search part_rx (p @ r)"
  using origin_head [OF assms] unfolding priv_rx_def part_rx_def regex_colon by auto

lemma part_not_priv:
  assumes "origin p"
  shows "\<not> regex_search priv_rx ('':'' @ p @ '' PART'' @ r)"
proof
  assume "regex_search priv_rx ('':'' @ p @ '' PART'' @ r)"
  then obtain q r' where "origin q" "p @ '' '' @ (''PART'' @ r) = q @ '' '' @ (''PRIVMSG'' @ r')"
    unfolding priv_rx_def regex_colon regex_origin by auto
  with origin_unique [of p "''PART'' @ r" q "''PRIVMSG'' @ r'"] assms show False by simp
qed

lemma search_join: "origin p \<Longrightarrow> regex_search join_rx (p @ '' JOIN'' @ r)"
  unfolding join_rx_def regex_origin by blast

lemma search_topic: "origin p \<Longrightarrow> regex_search topic_rx (p @ '' TOPIC'' @ r)"
  unfolding topic_rx_def regex_origin by blast

lemma topic_not_join:
  assumes "origin p"
  shows "\<not> regex_search join_rx (p @ '' TOPIC'' @ r)"
proof
  assume "regex_search join_rx (p @ '' TOPIC'' @ r)"
  then obtain q r' where "origin q" "p @ '' '' @ (''TOPIC'' @ r) = q @ '' '' @ (''JOIN'' @ r')"
    unfolding join_rx_def regex_origin by auto
  with origin_unique [of p "''TOPIC'' @ r" q "''JOIN'' @ r'"] assms show False by simp
qed

section \<open>The parts of a message\<close>

lemma prefix_text:
  "prefix_of E u = u_nick u @ CHR ''!'' # u_whoami u @ CHR ''@'' # address_text E (u_endpt u)"
  by (simp add: prefix_of_def)

text \<open>A user whose messages the clients can read, with the documented form of an IPv4 address.\<close>

definition readable :: "env \<Rightarrow> user \<Rightarrow> bool" where
  "readable E u \<longleftrightarrow> word (u_nick u) \<and> word (u_whoami u) \<and> dotted_decimal (address_text E (u_endpt u))"

lemma readable_origin: "readable E u \<Longrightarrow> origin (prefix_of E u)"
  unfolding readable_def origin_def prefix_of_def by blast

lemma readable_notin:
  "readable E u \<Longrightarrow> \<not> is_word_char c \<Longrightarrow> c \<notin> {CHR ''.'', CHR ''!'', CHR ''@''} \<Longrightarrow>
     c \<notin> set (prefix_of E u)"
  by (rule origin_notin [OF readable_origin])

lemma nick_after_colon:
  assumes "word n"
  shows "substr_n (CHR '':'' # n @ CHR ''!'' # v) 1
      (size_minus (pos_of (find_from (CHR '':'' # n @ CHR ''!'' # v) ''!'' 0)) 1) = Inr n"
proof -
  have "find_idx [CHR ''!''] ((CHR '':'' # n) @ CHR ''!'' # v) = Some (length (CHR '':'' # n))"
    by (rule find_idx_char) (use word_notin [OF assms] in simp)
  then show ?thesis
    by (simp add: find_from_def pos_of_def size_minus_def substr_n_def del: find_idx.simps)
qed

lemma nick_at_start:
  assumes "word n"
  shows "substr_n (n @ CHR ''!'' # v) 0 (pos_of (find_from (n @ CHR ''!'' # v) ''!'' 0)) = Inr n"
proof -
  have "find_idx [CHR ''!''] (n @ CHR ''!'' # v) = Some (length n)"
    by (rule find_idx_char) (use word_notin [OF assms] in simp)
  then show ?thesis
    by (simp add: find_from_def pos_of_def)
qed

lemma run_parse_priv:
  assumes "word n" and "CHR '':'' \<notin> set w" and "n @ CHR ''!'' # v = w @ CHR '':'' # said"
  shows "parse_priv (CHR '':'' # n @ CHR ''!'' # v) s =
    (Inr (), s\<lparr>trace := trace s @ [Ev_print (to_magenta (n @ '': '' @ said @ ''\<newline>''))]\<rparr>)"
proof -
  have "find_from (CHR '':'' # w @ CHR '':'' # said) '':'' 1 = Some (1 + length w)"
    using find_idx_char [OF assms(2), of said] by (simp add: find_from_def)
  then have "substr (CHR '':'' # n @ CHR ''!'' # v)
      (pos_plus (find_from (CHR '':'' # n @ CHR ''!'' # v) '':'' 1) 1) = Inr said"
    unfolding assms(3) by (simp add: substr_def)
  with nick_after_colon [OF assms(1), of v] show ?thesis
    by (simp add: parse_priv_def run print_out_def)
qed

section \<open>Messages of the server\<close>

lemma priv_shown:
  assumes "readable E u" and "CHR '':'' \<notin> set chan"
  shows "parse_session_msg ('':'' @ prefix_of E u @ '' PRIVMSG '' @ chan @ '' :'' @ said) s =
    (Inr (), s\<lparr>trace := trace s @ [Ev_print (to_magenta (u_nick u @ '': '' @ said @ ''\<newline>''))]\<rparr>)"
proof -
  let ?p = "prefix_of E u"
  have "regex_search priv_rx ('':'' @ ?p @ '' PRIVMSG'' @ '' '' @ chan @ '' :'' @ said)"
    using search_priv readable_origin [OF assms(1)] by blast
  then have "parse_session_msg ('':'' @ ?p @ '' PRIVMSG '' @ chan @ '' :'' @ said) s
      = parse_priv ('':'' @ ?p @ '' PRIVMSG '' @ chan @ '' :'' @ said) s"
    by (simp add: parse_session_msg_def del: regex_search.simps)
  also have "\<dots> = (Inr (), s\<lparr>trace := trace s @ [Ev_print (to_magenta (u_nick u @ '': '' @ said @ ''\<newline>''))]\<rparr>)"
    using run_parse_priv [of "u_nick u" "?p @ '' PRIVMSG '' @ chan @ '' ''"
        "u_whoami u @ CHR ''@'' # address_text E (u_endpt u) @ '' PRIVMSG '' @ chan @ '' :'' @ said" said s]
      assms readable_notin [OF assms(1), of "CHR '':''"]
    by (simp add: readable_def prefix_text)
  finally show ?thesis .
qed

lemma find_at_head:
  assumes "p = c # q" and "c \<notin> set u"
  shows "find_from (u @ p @ v) p 0 = Some (length u)"
  using find_idx_head_notin [OF assms] by (simp add: find_from_def)

text \<open>The three other branches, once the positions are known.\<close>

lemma run_parse_topic_change:
  assumes "substr_n msg 0 (pos_of (find_from msg ''!'' 0)) = Inr nick"
    and "d = '' TOPIC '' @ c_channel s @ '' :''"
    and "substr msg (pos_plus (find_from msg d 0) (length d)) = Inr new"
  shows "parse_topic_change msg s = (Inr (), s\<lparr>c_topic := new, trace := trace s
       @ [Ev_print (to_magenta (nick @ '' CHANGED TOPIC TO: '' @ new @ ''\<newline>''))]\<rparr>)"
proof -
  have "s\<lparr>c_topic := new, trace := t\<rparr> = s\<lparr>trace := t, c_topic := new\<rparr>" for t
    by (cases s) simp
  then show ?thesis
    by (simp only: parse_topic_change_def run_bind run_lift run_gets Let_def assms(1)
        assms(2) [symmetric] assms(3) prod.case sum.case) (simp add: run print_out_def)
qed

lemma run_parse_join:
  assumes "substr_n msg 0 (pos_of (find_from msg ''!'' 0)) = Inr nick"
    and "substr msg (pos_plus (find_from msg ''JOIN'' 0) 5) = Inr chan"
  shows "parse_join msg s = (Inr (), s\<lparr>trace := trace s
       @ [Ev_print (to_magenta (nick @ '' JOINED CHANNEL '' @ chan @ ''\<newline>''))]\<rparr>)"
  by (simp only: parse_join_def run_bind run_lift assms prod.case sum.case)
    (simp add: run print_out_def)

lemma run_parse_part:
  assumes "substr_n msg 1 (size_minus (pos_of (find_from msg ''!'' 0)) 1) = Inr nick"
    and "substr msg (pos_plus (find_from msg ''PART'' 0) 5) = Inr chan"
  shows "parse_part msg s = (Inr (), s\<lparr>trace := trace s
       @ [Ev_print (to_magenta (nick @ '' LEFT CHANNEL '' @ chan @ ''\<newline>''))]\<rparr>)"
  by (simp only: parse_part_def run_bind run_lift assms prod.case sum.case)
    (simp add: run print_out_def)

lemma topic_change_shown:
  assumes "readable E u" and "c_channel s = chan"
  shows "parse_session_msg (prefix_of E u @ '' TOPIC '' @ chan @ '' :'' @ said) s =
    (Inr (), s\<lparr>c_topic := said, trace := trace s
       @ [Ev_print (to_magenta (u_nick u @ '' CHANGED TOPIC TO: '' @ said @ ''\<newline>''))]\<rparr>)"
proof -
  let ?p = "prefix_of E u" and ?d = "'' TOPIC '' @ chan @ '' :''"
  let ?m = "?p @ '' TOPIC'' @ '' '' @ chan @ '' :'' @ said"
  have o: "origin ?p" by (rule readable_origin [OF assms(1)])
  have branch: "\<not> regex_search priv_rx ?m" "\<not> regex_search part_rx ?m" "\<not> regex_search join_rx ?m"
    "regex_search topic_rx ?m"
    using no_colon [OF o] topic_not_join [OF o] search_topic [OF o] by blast+
  have "find_from (?p @ ?d @ said) ?d 0 = Some (length ?p)"
    by (rule find_at_head) (use readable_notin [OF assms(1), of "CHR '' ''"] in simp_all)
  then have new: "substr ?m (pos_plus (find_from ?m ?d 0) (length ?d)) = Inr said"
    using substr_append [of "?p @ ?d" said] by simp
  have "substr_n ?m 0 (pos_of (find_from ?m ''!'' 0)) = Inr (u_nick u)"
    using nick_at_start [of "u_nick u"] assms(1) by (simp add: prefix_text readable_def)
  then have "parse_topic_change ?m s = (Inr (), s\<lparr>c_topic := said, trace := trace s
       @ [Ev_print (to_magenta (u_nick u @ '' CHANGED TOPIC TO: '' @ said @ ''\<newline>''))]\<rparr>)"
    by (rule run_parse_topic_change [OF _ _ new]) (simp add: assms(2))
  with branch show ?thesis
    by (simp add: parse_session_msg_def del: regex_search.simps)
qed

lemma join_shown:
  assumes "readable E u" and "find_idx ''JOIN'' (prefix_of E u) = None"
  shows "parse_session_msg (prefix_of E u @ '' JOIN '' @ chan) s =
    (Inr (), s\<lparr>trace := trace s
       @ [Ev_print (to_magenta (u_nick u @ '' JOINED CHANNEL '' @ chan @ ''\<newline>''))]\<rparr>)"
proof -
  let ?p = "prefix_of E u" and ?m = "prefix_of E u @ '' JOIN'' @ '' '' @ chan"
  have o: "origin ?p" by (rule readable_origin [OF assms(1)])
  have branch: "\<not> regex_search priv_rx ?m" "\<not> regex_search part_rx ?m" "regex_search join_rx ?m"
    using no_colon [OF o] search_join [OF o] by blast+
  have "find_idx ''JOIN'' (?p @ CHR '' '' # ''JOIN '' @ chan) = Some (length ?p + 1)"
    using find_idx_sep [OF _ assms(2), of "CHR '' ''" "''JOIN '' @ chan"]
    by (simp add: starts_with_def)
  then have "substr ?m (pos_plus (find_from ?m ''JOIN'' 0) 5) = Inr chan"
    using substr_append [of "?p @ '' JOIN ''" chan]
    by (simp add: find_from_def eval_nat_numeral)
  moreover have "substr_n ?m 0 (pos_of (find_from ?m ''!'' 0)) = Inr (u_nick u)"
    using nick_at_start [of "u_nick u"] assms(1) by (simp add: prefix_text readable_def)
  ultimately have "parse_join ?m s = (Inr (), s\<lparr>trace := trace s
       @ [Ev_print (to_magenta (u_nick u @ '' JOINED CHANNEL '' @ chan @ ''\<newline>''))]\<rparr>)"
    by (intro run_parse_join)
  with branch show ?thesis
    by (simp add: parse_session_msg_def del: regex_search.simps)
qed

text \<open>A PART message, wherever its \<open>PART\<close> is found.\<close>

lemma part_branch:
  assumes "readable E u"
  shows "parse_session_msg ('':'' @ prefix_of E u @ '' PART'' @ r) s
      = parse_part ('':'' @ prefix_of E u @ '' PART'' @ r) s"
    and "substr_n ('':'' @ prefix_of E u @ '' PART'' @ r) 1
      (size_minus (pos_of (find_from ('':'' @ prefix_of E u @ '' PART'' @ r) ''!'' 0)) 1) = Inr (u_nick u)"
proof -
  have o: "origin (prefix_of E u)" by (rule readable_origin [OF assms])
  show "parse_session_msg ('':'' @ prefix_of E u @ '' PART'' @ r) s
      = parse_part ('':'' @ prefix_of E u @ '' PART'' @ r) s"
    using part_not_priv [OF o, of r] search_part [OF o, of r]
    unfolding parse_session_msg_def by (simp only: if_True if_False)
  show "substr_n ('':'' @ prefix_of E u @ '' PART'' @ r) 1
      (size_minus (pos_of (find_from ('':'' @ prefix_of E u @ '' PART'' @ r) ''!'' 0)) 1) = Inr (u_nick u)"
    using nick_after_colon [of "u_nick u"] assms by (simp add: prefix_text readable_def)
qed

lemma part_position:
  assumes "find_idx ''PART'' (prefix_of E u) = None"
  shows "find_from ('':'' @ prefix_of E u @ '' PART'' @ r) ''PART'' 0
    = Some (length ('':'' @ prefix_of E u @ '' ''))"
  using find_idx_sep [OF _ assms, of "CHR '' ''" "''PART'' @ r"]
  by (simp add: find_from_def starts_with_def)

lemma part_shown:
  assumes "readable E u" and "find_idx ''PART'' (prefix_of E u) = None"
  shows "parse_session_msg ('':'' @ prefix_of E u @ '' PART '' @ chan) s =
    (Inr (), s\<lparr>trace := trace s
       @ [Ev_print (to_magenta (u_nick u @ '' LEFT CHANNEL '' @ chan @ ''\<newline>''))]\<rparr>)"
proof -
  let ?m = "'':'' @ prefix_of E u @ '' PART'' @ '' '' @ chan"
  have "substr ?m (pos_plus (find_from ?m ''PART'' 0) 5) = Inr chan"
    unfolding part_position [OF assms(2)]
    using substr_append [of "'':'' @ prefix_of E u @ '' PART ''" chan] by (simp add: eval_nat_numeral)
  then have "parse_part ?m s = (Inr (), s\<lparr>trace := trace s
       @ [Ev_print (to_magenta (u_nick u @ '' LEFT CHANNEL '' @ chan @ ''\<newline>''))]\<rparr>)"
    by (rule run_parse_part [OF part_branch(2) [OF assms(1)]])
  with part_branch(1) [OF assms(1), of "'' '' @ chan"] show ?thesis by simp
qed

section \<open>Typing\<close>

text \<open>The lines that \<open>parse_user_input\<close> takes for a message.\<close>

definition said_line :: "string \<Rightarrow> bool" where
  "said_line l \<longleftrightarrow> l \<noteq> [] \<and> l \<notin> {''EXIT'', ''HELP'', ''TOPIC'', ''LEAVE''}"

lemma run_the_sock: "c_sock s = Some k \<Longrightarrow> the_sock s = (Inr k, s)"
  by (simp add: the_sock_def run)

lemma run_client_writing:
  assumes "c_sock s = Some k" and "ends_crlf msg"
  shows "client_try_writing E msg s = (Inr (), s\<lparr>trace := trace s @ [Ev_write k msg]\<rparr>)"
proof -
  have "2 \<le> length msg" using assms(2) by (simp add: ends_crlf_def)
  with assms show ?thesis
    by (simp add: client_try_writing_def run run_the_sock try_writing_cases)
qed

lemma run_said:
  assumes "said_line l" and "c_sock s = Some k"
  shows "parse_user_input E l s = (Inr not_quitting, s\<lparr>trace := trace s
    @ [Ev_write k (''PRIVMSG '' @ u_chan (c_user s) @ '' :'' @ l @ crlf)]\<rparr>)"
proof -
  have "client_try_writing E (''PRIVMSG '' @ u_chan (c_user s) @ '' :'' @ l @ crlf) s = (Inr (), s\<lparr>trace := trace s
    @ [Ev_write k (''PRIVMSG '' @ u_chan (c_user s) @ '' :'' @ l @ crlf)]\<rparr>)"
    by (rule run_client_writing [OF assms(2)]) simp
  with assms(1) show ?thesis
    by (simp only: parse_user_input_def said_line_def run_bind run_gets run_then run_ret prod.case sum.case
        if_False insert_iff empty_iff simp_thms de_Morgan_disj)
qed

lemma run_getline:
  "cin_good s \<Longrightarrow> cin s = l @ CHR 0x0A # left \<Longrightarrow> CHR 0x0A \<notin> set l \<Longrightarrow>
     getline old s = (Inr l, s\<lparr>cin := left\<rparr>)"
  using find_idx_char [of "CHR 0x0A" l left] by (simp add: getline_def run)

lemma run_topic_set:
  assumes "c_sock s = Some k" and "cin_good s" and "cin s = ''SET'' @ CHR 0x0A # tp @ CHR 0x0A # left"
    and "CHR 0x0A \<notin> set tp"
  obtains t where "handle_topic_request E s = (Inr (), s\<lparr>cin := left, trace := trace s @ t\<rparr>)"
    and "sent t = [(k, ''TOPIC '' @ u_chan (c_user s) @ '' :'' @ tp @ crlf)]"
proof -
  let ?w = "''TOPIC '' @ u_chan (c_user s) @ '' :'' @ tp @ crlf"
  let ?a = "to_blue (banner @ ''Do you want to SHOW or SET the topic?\<newline>''
        @ ''Type SHOW or SET for the respective option\<newline>'')"
    and ?b = "to_blue (banner @ ''Please type in the channel's new topic:\<newline>'')"
  let ?s1 = "s\<lparr>trace := trace s @ [Ev_print ?a]\<rparr>"
  let ?s2 = "?s1\<lparr>cin := tp @ CHR 0x0A # left\<rparr>"
  let ?s3 = "?s2\<lparr>trace := trace ?s2 @ [Ev_print ?b]\<rparr>"
  let ?s4 = "?s3\<lparr>cin := left\<rparr>"
  have 1: "getline [] ?s1 = (Inr ''SET'', ?s2)"
    by (rule run_getline) (use assms(2,3) in simp_all)
  have 2: "getline ''SET'' ?s3 = (Inr tp, ?s4)"
    by (rule run_getline) (use assms(2,4) in simp_all)
  have 3: "client_try_writing E ?w ?s4 = (Inr (), ?s4\<lparr>trace := trace ?s4 @ [Ev_write k ?w]\<rparr>)"
    by (rule run_client_writing) (use assms(1) in simp_all)
  have swap: "v\<lparr>cin := c, trace := t\<rparr> = v\<lparr>trace := t, cin := c\<rparr>" for v :: client and c t
    by (cases v) simp
  have "handle_topic_request E s = (Inr (), ?s4\<lparr>trace := trace ?s4 @ [Ev_write k ?w]\<rparr>)"
    using 1 2 3 unfolding handle_topic_request_def
    by (simp add: run print_out_def)
  then show thesis
    by (intro that [of "[Ev_print ?a, Ev_print ?b, Ev_write k ?w]"]) (simp_all add: swap)
qed

lemma line_append: "line m \<Longrightarrow> line n \<Longrightarrow> line (m @ n)"
  by (auto simp: line_def)

lemma messages_of_line: "line m \<Longrightarrow> messages_of (m @ crlf) = [m]"
  using messages_of_lines [of "[m]"] by (simp add: lines_text_def)

lemma line_origin: "origin p \<Longrightarrow> line p"
  using origin_notin [of p "CHR 0x0A"] origin_notin [of p "CHR 0x0D"] origin_notin [of p nul]
    origin_head [of p]
  by (auto simp: line_def nul_def is_word_char_def is_digit_def)

section \<open>Properties\<close>

lemma takeWhile_stop: "list_all P v \<Longrightarrow> \<not> P c \<Longrightarrow> takeWhile P (v @ c # w) = v"
  by (induction v) auto

lemma search_words_bang:
  assumes "regex_search (Words # Lit ''!'' # rs) (v @ c # w)" and "list_all is_word_char v"
    and "\<not> is_word_char c"
  shows "c = CHR ''!''"
proof -
  obtain u r where u: "word u" "v @ c # w = u @ CHR ''!'' # r"
    using assms(1) unfolding regex_search_iff by (auto simp: list_all2_Cons1)
  have "takeWhile is_word_char (v @ c # w) = v"
    using assms(2,3) by (rule takeWhile_stop)
  moreover have "takeWhile is_word_char (u @ CHR ''!'' # r) = u"
    using u(1) by (intro takeWhile_stop) (simp_all add: word_def)
  ultimately show ?thesis using u(2) by simp
qed

text \<open>C25: The client's four regular expressions recognise exactly the messages of the protocol: a message
  matches when it starts, after a colon or not, with a nickname and a user name of word characters
  and the dotted address, followed by the command; no message matches two of them.\<close>

theorem session_regexes:
  "(regex_search priv_rx m \<longleftrightarrow> (\<exists>p r. origin p \<and> m = '':'' @ p @ '' PRIVMSG'' @ r))
   \<and> (regex_search part_rx m \<longleftrightarrow> (\<exists>p r. origin p \<and> m = '':'' @ p @ '' PART'' @ r))
   \<and> (regex_search join_rx m \<longleftrightarrow> (\<exists>p r. origin p \<and> m = p @ '' JOIN'' @ r))
   \<and> (regex_search topic_rx m \<longleftrightarrow> (\<exists>p r. origin p \<and> m = p @ '' TOPIC'' @ r))
   \<and> length (filter (\<lambda>rx. regex_search rx m) [priv_rx, part_rx, join_rx, topic_rx]) \<le> 1"
proof -
  have langs: "regex_search priv_rx m \<longleftrightarrow> (\<exists>p r. origin p \<and> m = '':'' @ p @ '' PRIVMSG'' @ r)"
    "regex_search part_rx m \<longleftrightarrow> (\<exists>p r. origin p \<and> m = '':'' @ p @ '' PART'' @ r)"
    "regex_search join_rx m \<longleftrightarrow> (\<exists>p r. origin p \<and> m = p @ '' JOIN'' @ r)"
    "regex_search topic_rx m \<longleftrightarrow> (\<exists>p r. origin p \<and> m = p @ '' TOPIC'' @ r)"
    unfolding priv_rx_def part_rx_def join_rx_def topic_rx_def regex_colon regex_origin by blast+
  have "\<not> (regex_search priv_rx m \<and> regex_search part_rx m)"
    using part_not_priv langs(2) by blast
  moreover have "\<not> (regex_search join_rx m \<and> regex_search topic_rx m)"
    using topic_not_join langs(4) by blast
  moreover have "\<not> regex_search priv_rx m" "\<not> regex_search part_rx m"
    if "regex_search join_rx m \<or> regex_search topic_rx m"
    using that no_colon langs(3,4) by blast+
  ultimately have "length (filter (\<lambda>rx. regex_search rx m) [priv_rx, part_rx, join_rx, topic_rx]) \<le> 1"
    by auto
  with langs show ?thesis by blast
qed

text \<open>C5: What a user types is what the others see: a line that is no command is sent as one PRIVMSG, which
  reaches the channel's thread as one message; when the thread handles it as coming from that user,
  and the channel's connections are up and the database executes statements, it writes one text to
  every other member and to nobody else, records exactly the typed line, and changes nothing; and
  each client that reads this text reads it as one message and prints the sender's nickname and
  exactly the typed line. (Nickname and user name are words, C35 for others; line and channel hold no line end
  and no NUL, the channel no colon.)\<close>

theorem typed_line_is_shown:
  assumes "readable E u" and "said_line l" and "line l" and "line (u_chan u)"
    and "CHR '':'' \<notin> set (u_chan u)" and "c_sock s = Some k" and "u_chan (c_user s) = u_chan u"
    and "steady E peer (set (s_socks st))" and "servlet_ok peer st" and "db_up E" and "u \<in> set (s_users st)"
  shows "\<exists>w m n d t. parse_user_input F l s = (Inr not_quitting, s\<lparr>trace := trace s @ [Ev_write k w]\<rparr>)
    \<and> messages_of w = [m]
    \<and> handle_msg E m (u_endpt u) st = (Inr (), st\<lparr>trace := trace st @ t\<rparr>)
    \<and> deliveries peer t = map (\<lambda>v. (u_endpt v, n @ crlf)) (filter (\<lambda>v. u_endpt v \<noteq> u_endpt u) (s_users st))
    \<and> executed t = [(s_conn st, q_now),
        (s_conn st, q_insertMsg E (u_nick u) d l (s_channel_name st) (s_server_name st))]
    \<and> messages_of (n @ crlf) = [n]
    \<and> (\<forall>v. parse_session_msg n v = (Inr (), v\<lparr>trace := trace v
          @ [Ev_print (to_magenta (u_nick u @ '': '' @ l @ ''\<newline>''))]\<rparr>))"
proof -
  let ?m = "''PRIVMSG '' @ u_chan u @ '' :'' @ l" and ?p = "prefix_of E u"
  let ?n = "'':'' @ ?p @ '' '' @ ?m"
  have m: "line ?m"
    using assms(3,4) by (auto simp: line_def nul_def)
  have "line (''x'' @ ?p @ '' '' @ ?m)" using line_origin [OF readable_origin [OF assms(1)]] m
    by (auto simp: line_def nul_def)
  then have n: "line ?n" by (auto simp: line_def nul_def)
  obtain t d where t: "handle_msg E ?m (u_endpt u) st = (Inr (), st\<lparr>trace := trace st @ t\<rparr>)"
    "deliveries peer t = to_others (room_abs st) (u_endpt u) (relayed E u ?m)"
    "executed t = [(s_conn st, q_now),
      (s_conn st, q_insertMsg E (u_nick u) d l (s_channel_name st) (s_server_name st))]"
    by (rule handle_msg_said [OF assms(8-11,5)])
  have "deliveries peer t
      = map (\<lambda>v. (u_endpt v, ?n @ crlf)) (filter (\<lambda>v. u_endpt v \<noteq> u_endpt u) (s_users st))"
    unfolding t(2) by (simp add: to_others_def relayed_def)
  moreover have "parse_user_input F l s = (Inr not_quitting, s\<lparr>trace := trace s @ [Ev_write k (?m @ crlf)]\<rparr>)"
    using run_said [OF assms(2,6), of F] assms(7) by simp
  moreover have "parse_session_msg ?n v = (Inr (), v\<lparr>trace := trace v
          @ [Ev_print (to_magenta (u_nick u @ '': '' @ l @ ''\<newline>''))]\<rparr>)" for v
    using priv_shown [OF assms(1,5), of l v] by simp
  ultimately show ?thesis
    using messages_of_line [OF m] messages_of_line [OF n] t(1,3) by blast
qed

lemma lab_readable: "word n \<Longrightarrow> readable lab_env (lab_user n k)"
  using lab_dotted by (simp add: readable_def address_text_def)

lemma word_simps: "word ''carol''" "word ''PARTY''"
  by (simp_all add: word_def is_word_char_def is_digit_def)

definition lab_client :: "string \<Rightarrow> client" where
  "lab_client input = (new_client input)\<lparr>c_sock := Some 4, c_channel := ''#lab'',
     c_user := (user4 ''carol'' ''carol'' ''Carol'' ''pw'')\<lparr>u_chan := ''#lab''\<rparr>\<rparr>"

lemma lab_client_fields [simp]:
  "trace (lab_client i) = []" "cin (lab_client i) = i" "cin_good (lab_client i)"
  "c_sock (lab_client i) = Some 4" "c_sock_msgs (lab_client i) = []" "c_channel (lab_client i) = ''#lab''"
  "u_chan (c_user (lab_client i)) = ''#lab''" "u_nick (c_user (lab_client i)) = ''carol''"
  "u_whoami (c_user (lab_client i)) = ''carol''" "u_real (c_user (lab_client i)) = ''Carol''"
  "u_pass (c_user (lab_client i)) = ''pw''"
  by (simp_all add: lab_client_def new_client_def user4_def user_default_def)

lemma lab_bob: "readable lab_env (lab_user ''bob'' 3)" "lab_user ''bob'' 3 \<in> set (s_users (lab_servlet []))"
  "lab_peer 2 \<noteq> lab_peer 3" "servlet_ok lab_peer (lab_servlet [])"
proof -
  show ne: "lab_peer 2 \<noteq> lab_peer 3" by (simp add: lab_peer_def)
  then show "servlet_ok lab_peer (lab_servlet [])" by (simp add: servlet_ok_def)
  show "readable lab_env (lab_user ''bob'' 3)"
    by (rule lab_readable) (simp add: word_def is_word_char_def is_digit_def)
qed simp

lemma typed_line_is_shown_witness:
  "\<exists>m w n t. parse_user_input lab_env ''hello'' (lab_client []) = (Inr not_quitting, (lab_client [])\<lparr>trace := [Ev_write 4 w]\<rparr>)
    \<and> messages_of w = [m]
    \<and> handle_msg lab_env m (lab_peer 3) (lab_servlet []) = (Inr (), (lab_servlet [])\<lparr>trace := t\<rparr>)
    \<and> deliveries lab_peer t = [(lab_peer 2, n @ crlf)] \<and> messages_of (n @ crlf) = [n]"
proof -
  let ?s = "lab_client []" and ?st = "lab_servlet []"
  obtain w m n d t where
    "parse_user_input lab_env ''hello'' ?s = (Inr not_quitting, ?s\<lparr>trace := trace ?s @ [Ev_write 4 w]\<rparr>)"
    "messages_of w = [m]"
    "handle_msg lab_env m (u_endpt (lab_user ''bob'' 3)) ?st = (Inr (), ?st\<lparr>trace := trace ?st @ t\<rparr>)"
    "deliveries lab_peer t = map (\<lambda>v. (u_endpt v, n @ crlf))
      (filter (\<lambda>v. u_endpt v \<noteq> u_endpt (lab_user ''bob'' 3)) (s_users ?st))"
    "messages_of (n @ crlf) = [n]"
    using typed_line_is_shown [OF lab_bob(1) _ _ _ _ _ _ lab_steady lab_bob(4) lab_db_up lab_bob(2),
        of "''hello''" ?s 4 lab_env]
    by (auto simp: said_line_def line_def nul_def)
  with lab_bob(3) show ?thesis
    by (intro exI [of _ w] exI [of _ m] exI [of _ n] exI [of _ t]) simp
qed

text \<open>C19: Changing the topic from a client: after TOPIC and SET, the line the user types is sent as one TOPIC
  message, which reaches the channel's thread as one message; when the thread handles it as coming
  from a member, and the channel's connections are up and the database executes statements, exactly
  that line becomes the channel's topic and is stored as such, and one text is written to every
  member, the sender included; and each client of the channel that reads this text reads it as one
  message, takes the line for its own topic and prints it with the sender's nickname. (Nickname and user
  name are words; line and channel hold no line end and no NUL, and the line does not hold the text of the
  command for this channel itself.)\<close>

theorem typed_topic_is_set:
  assumes "readable E u" and "line tp" and "line (u_chan u)"
    and "find_idx (''TOPIC '' @ u_chan u @ '' :'') tp = None"
    and "c_sock s = Some k" and "u_chan (c_user s) = u_chan u"
    and "cin_good s" and "cin s = ''SET'' @ CHR 0x0A # tp @ CHR 0x0A # left"
    and "steady E peer (set (s_socks st))" and "servlet_ok peer st" and "db_up E" and "u \<in> set (s_users st)"
    and "s_channel_name st = u_chan u"
  shows "\<exists>r w m n t. handle_topic_request F s = (Inr (), s\<lparr>cin := left, trace := trace s @ r\<rparr>)
    \<and> sent r = [(k, w)] \<and> messages_of w = [m]
    \<and> handle_msg E m (u_endpt u) st = (Inr (), st\<lparr>s_channel_topic := tp, trace := trace st @ t\<rparr>)
    \<and> deliveries peer t = map (\<lambda>v. (u_endpt v, n @ crlf)) (s_users st)
    \<and> executed t = [(s_conn st, q_updateChannelTopic E (u_chan u) tp (s_server_name st))]
    \<and> messages_of (n @ crlf) = [n]
    \<and> (\<forall>v. c_channel v = u_chan u \<longrightarrow> parse_session_msg n v = (Inr (), v\<lparr>c_topic := tp, trace := trace v
          @ [Ev_print (to_magenta (u_nick u @ '' CHANGED TOPIC TO: '' @ tp @ ''\<newline>''))]\<rparr>))"
proof -
  let ?p = "prefix_of E u"
  let ?m = "''TOPIC '' @ u_chan u @ '' :'' @ tp" and ?n = "?p @ '' TOPIC '' @ u_chan u @ '' :'' @ tp"
  have m: "line ?m" using assms(2,3) by (auto simp: line_def nul_def)
  have n: "line ?n"
    using line_origin [OF readable_origin [OF assms(1)]] m by (auto simp: line_def nul_def)
  have nl: "CHR 0x0A \<notin> set tp" using assms(2) by (simp add: line_def)
  obtain r where r: "handle_topic_request F s = (Inr (), s\<lparr>cin := left, trace := trace s @ r\<rparr>)"
    "sent r = [(k, ?m @ crlf)]"
    by (rule run_topic_set [OF assms(5,7,8) nl, of F]) (use assms(6) in simp)
  obtain t where t: "handle_msg E ?m (u_endpt u) st = (Inr (), st\<lparr>s_channel_topic := tp, trace := trace st @ t\<rparr>)"
    "deliveries peer t = to_all (room_abs st) (topic_notice E (u_chan u) u tp)"
    "executed t = [(s_conn st, q_updateChannelTopic E (u_chan u) tp (s_server_name st))]"
    by (rule handle_msg_set [OF assms(9-12), of tp, unfolded assms(13)]) (use assms(4) in simp)
  have "deliveries peer t = map (\<lambda>v. (u_endpt v, ?n @ crlf)) (s_users st)"
    unfolding t(2) by (simp add: to_all_def topic_notice_def)
  with r t(1,3) show ?thesis
    using messages_of_line [OF m] messages_of_line [OF n] topic_change_shown [OF assms(1), of _ "u_chan u" tp]
    by blast
qed

lemma typed_topic_is_set_witness:
  "\<exists>r w m n t. handle_topic_request lab_env (lab_client (''SET'' @ CHR 0x0A # ''tea'' @ [CHR 0x0A]))
     = (Inr (), (lab_client (''SET'' @ CHR 0x0A # ''tea'' @ [CHR 0x0A]))\<lparr>cin := [], trace := r\<rparr>)
     \<and> sent r = [(4, w)] \<and> messages_of w = [m]
     \<and> handle_msg lab_env m (lab_peer 3) (lab_servlet []) = (Inr (), (lab_servlet [])\<lparr>s_channel_topic := ''tea'', trace := t\<rparr>)
     \<and> deliveries lab_peer t = [(lab_peer 2, n @ crlf), (lab_peer 3, n @ crlf)]"
proof -
  let ?s = "lab_client (''SET'' @ CHR 0x0A # ''tea'' @ [CHR 0x0A])" and ?st = "lab_servlet []"
  obtain r w m n t where t: "handle_topic_request lab_env ?s = (Inr (), ?s\<lparr>cin := [], trace := trace ?s @ r\<rparr>)"
    "sent r = [(4, w)]" "messages_of w = [m]"
    "handle_msg lab_env m (u_endpt (lab_user ''bob'' 3)) ?st
      = (Inr (), ?st\<lparr>s_channel_topic := ''tea'', trace := trace ?st @ t\<rparr>)"
    "deliveries lab_peer t = map (\<lambda>v. (u_endpt v, n @ crlf)) (s_users ?st)"
    using typed_topic_is_set [OF lab_bob(1) _ _ _ _ _ _ _ lab_steady lab_bob(4) lab_db_up lab_bob(2),
        of "''tea''" ?s 4 "[]" lab_env]
    by (auto simp: line_def nul_def starts_with_def)
  then show ?thesis
    by (intro exI [of _ r] exI [of _ w] exI [of _ m] exI [of _ n] exI [of _ t]) simp
qed

text \<open>C35: A nickname is never checked against the characters that the client calls reserved, or at all: if
  it holds a character that is no word character, say a space, before any exclamation mark or colon,
  then no client can read a message of that user. Reading one, with the leading colon or without,
  ends in the exception \<open>invalid_argument\<close>, which ends the reading client.\<close>

theorem nickname_unreadable:
  assumes "list_all is_word_char v" and "\<not> is_word_char c" and "c \<notin> {CHR ''!'', CHR '':''}"
    and "colon \<in> {[], '':''}"
  shows "\<exists>t. parse_session_msg (colon @ (v @ c # y) @ ''!'' @ z) s
    = (Inl unparseable, s\<lparr>trace := trace s @ t\<rparr>) \<and> sent t = []"
proof -
  let ?n = "v @ c # y @ ''!'' @ z"
  have n: "\<not> regex_search (rx_origin @ rs) ?n" for rs
    using search_words_bang [OF _ assms(1,2)] assms(3) by (auto simp: rx_origin_def)
  have colon: "\<not> regex_search (rx_origin @ rs) (CHR '':'' # u)" for rs u
    using search_words_bang [of _ "[]" "CHR '':''" u] by (auto simp: rx_origin_def)
  have head: "?n \<noteq> CHR '':'' # u" for u
    using assms(1,3) by (cases v) auto
  have "\<not> regex_search priv_rx (colon @ ?n)" "\<not> regex_search part_rx (colon @ ?n)"
    unfolding priv_rx_def part_rx_def append_Cons regex_colon using assms(4) n head by auto
  moreover have "\<not> regex_search join_rx (colon @ ?n)" "\<not> regex_search topic_rx (colon @ ?n)"
    unfolding join_rx_def topic_rx_def using assms(4) n colon by auto
  ultimately have "parse_session_msg (colon @ ?n) s
    = thenE (print_out (''ERROR, unrecognized message or buffer overflow\<newline>'' @ (colon @ ?n) @ ''\<newline>''))
          (thenE (print_out (''MSG length: '' @ to_string (length (colon @ ?n)) @ ''\<newline>''))
             (throw unparseable)) s"
    unfolding parse_session_msg_def by (simp only: if_False)
  then show ?thesis
    by (simp add: run print_out_def) (intro exI conjI, rule refl, simp)
qed

lemma nickname_unreadable_witness:
  "fst (parse_session_msg '':Zeke Reyna!zeke@127.0.0.1 PRIVMSG #lab :hi'' (lab_client [])) = Inl unparseable"
  using nickname_unreadable [of "''Zeke''" "CHR '' ''" "'':''" "''Reyna''"
      "''zeke@127.0.0.1 PRIVMSG #lab :hi''" "lab_client []"]
  by (auto simp: is_word_char_def is_digit_def)

text \<open>C36: The channel that a client prints for a user who leaves is what follows the first PART in the
  message: it is right when neither the names nor the address hold PART, wrong when the nickname
  starts with it, and if the leaving client sent no channel after PART, reading the message throws
  \<open>out_of_range\<close>, which ends the reading client.\<close>

theorem part_messages_read:
  assumes "readable E u"
  shows "(find_idx ''PART'' (prefix_of E u) = None \<longrightarrow>
      parse_session_msg ('':'' @ prefix_of E u @ '' PART '' @ chan) s = (Inr (), s\<lparr>trace := trace s
         @ [Ev_print (to_magenta (u_nick u @ '' LEFT CHANNEL '' @ chan @ ''\<newline>''))]\<rparr>)
      \<and> fst (parse_session_msg ('':'' @ prefix_of E u @ '' PART'') s) = Inl Out_of_range)
    \<and> (\<forall>d x. u_nick u = ''PART'' @ d # x \<longrightarrow>
      parse_session_msg ('':'' @ prefix_of E u @ '' PART '' @ chan) s = (Inr (), s\<lparr>trace := trace s
         @ [Ev_print (to_magenta (u_nick u @ '' LEFT CHANNEL ''
              @ drop 5 (prefix_of E u @ '' PART '' @ chan) @ ''\<newline>''))]\<rparr>))"
proof (intro conjI impI allI)
  assume none: "find_idx ''PART'' (prefix_of E u) = None"
  show "parse_session_msg ('':'' @ prefix_of E u @ '' PART '' @ chan) s = (Inr (), s\<lparr>trace := trace s
         @ [Ev_print (to_magenta (u_nick u @ '' LEFT CHANNEL '' @ chan @ ''\<newline>''))]\<rparr>)"
    by (rule part_shown [OF assms none])
  let ?m = "'':'' @ prefix_of E u @ '' PART'' @ []"
  have "substr ?m (pos_plus (find_from ?m ''PART'' 0) 5) = Inl Out_of_range"
    unfolding part_position [OF none] by (simp add: substr_def)
  then have "fst (parse_part ?m s) = Inl Out_of_range"
    by (simp only: parse_part_def run_bind run_lift part_branch(2) [OF assms] prod.case sum.case fst_conv)
  then show "fst (parse_session_msg ('':'' @ prefix_of E u @ '' PART'') s) = Inl Out_of_range"
    using part_branch(1) [OF assms, of "[]" s] by simp
next
  fix d x assume nick: "u_nick u = ''PART'' @ d # x"
  let ?m = "'':'' @ prefix_of E u @ '' PART'' @ '' '' @ chan"
  have "substr ?m (pos_plus (find_from ?m ''PART'' 0) 5) = Inr (drop 5 (prefix_of E u @ '' PART '' @ chan))"
    by (simp add: prefix_text nick find_from_def starts_with_def substr_def)
  then have "parse_part ?m s = (Inr (), s\<lparr>trace := trace s
         @ [Ev_print (to_magenta (u_nick u @ '' LEFT CHANNEL ''
              @ drop 5 (prefix_of E u @ '' PART '' @ chan) @ ''\<newline>''))]\<rparr>)"
    by (rule run_parse_part [OF part_branch(2) [OF assms]])
  then show "parse_session_msg ('':'' @ prefix_of E u @ '' PART '' @ chan) s = (Inr (), s\<lparr>trace := trace s
         @ [Ev_print (to_magenta (u_nick u @ '' LEFT CHANNEL ''
              @ drop 5 (prefix_of E u @ '' PART '' @ chan) @ ''\<newline>''))]\<rparr>)"
    using part_branch(1) [OF assms, of "'' '' @ chan" s] by simp
qed

lemma part_messages_read_witness:
  "\<exists>t. parse_session_msg ('':'' @ prefix_of lab_env (lab_user ''PARTY'' 4) @ '' PART #lab'') (lab_client [])
     = (Inr (), (lab_client [])\<lparr>trace := t\<rparr>)"
proof -
  have "readable lab_env (lab_user ''PARTY'' 4)" using word_simps(2) by (rule lab_readable)
  from part_messages_read [OF this, of "''#lab''" "lab_client []"] show ?thesis by auto
qed

end
