(* ===== verification/Client_Session.thy ===== *)
theory Client_Session
  imports Client_Text Registration
begin

text \<open>
  A client's session: registering with the server, joining a channel, and the main loop, for a server
  whose bytes arrive in any chunks of complete lines.
\<close>

section \<open>Reading\<close>

text \<open>The lines that the client will read, those it has already cut included.\<close>

definition c_pending :: "sock \<Rightarrow> string list list \<Rightarrow> client \<Rightarrow> string list" where
  "c_pending k chunks s = c_sock_msgs s @ concat (drop (reads_of k (trace s)) chunks)"

lemma trace_last_client [simp]:
  "s\<lparr>trace := t, c_sock_msgs := q\<rparr> = s\<lparr>c_sock_msgs := q, trace := t\<rparr>"
  "s\<lparr>trace := t, c_topic := c\<rparr> = s\<lparr>c_topic := c, trace := t\<rparr>"
  "s\<lparr>trace := t, cin := i\<rparr> = s\<lparr>cin := i, trace := t\<rparr>"
  "s\<lparr>trace := t, cin_good := g\<rparr> = s\<lparr>cin_good := g, trace := t\<rparr>"
  "s\<lparr>c_topic := c, c_sock_msgs := q\<rparr> = s\<lparr>c_sock_msgs := q, c_topic := c\<rparr>"
  "s\<lparr>c_sock_msgs := q, cin := i\<rparr> = s\<lparr>cin := i, c_sock_msgs := q\<rparr>"
  "s\<lparr>c_topic := c, cin := i\<rparr> = s\<lparr>cin := i, c_topic := c\<rparr>"
  by (cases s; simp)+

lemma c_pending_quiet [simp]:
  "reads t = [] \<Longrightarrow> c_pending k chunks (s\<lparr>trace := trace s @ t\<rparr>) = c_pending k chunks s"
  by (simp add: c_pending_def)

lemma client_read:
  assumes "c_sock s = Some k" and "delivers E k chunks" and "c_pending k chunks s = m # ms"
  obtains q t where "client_try_reading E s = (Inr m, s\<lparr>c_sock_msgs := q, trace := trace s @ t\<rparr>)"
    and "sent t = []" and "printed t = []"
    and "c_pending k chunks (s\<lparr>c_sock_msgs := q, trace := trace s @ t\<rparr>) = ms"
proof (cases "c_sock_msgs s")
  case (Cons x q)
  then have "m = x" "ms = q @ concat (drop (reads_of k (trace s)) chunks)"
    using assms(3) by (simp_all add: c_pending_def)
  with Cons assms(1) that [of "[]" q] show thesis
    by (simp add: client_try_reading_def run run_the_sock try_reading_from_sock_def pop_front_def
        c_pending_def)
next
  case Nil
  let ?i = "reads_of k (trace s)"
  have left: "concat (drop ?i chunks) = m # ms" using assms(3) Nil by (simp add: c_pending_def)
  then have i: "?i < length chunks" by (metis concat.simps(1) drop_all not_le list.distinct(1))
  note rd = delivers_read [OF assms(2) i]
  obtain q where q: "chunks ! ?i = m # q" "ms = q @ concat (drop (Suc ?i) chunks)"
    using rd(4) i left by (cases "chunks ! ?i") (auto simp: Cons_nth_drop_Suc [symmetric])
  have "client_try_reading E s = (Inr m, s\<lparr>c_sock_msgs := q, trace := trace s @ [Ev_read k]\<rparr>)"
    using Nil assms(1) rd(2,3) q(1)
    by (simp add: client_try_reading_def run run_the_sock try_reading_from_sock_def pop_front_def
        run_read_messages)
  with that [of "[Ev_read k]" q] q(2) show thesis by (simp add: c_pending_def)
qed

section \<open>Registering\<close>

text \<open>A text that a line can hold.\<close>

definition clean :: "string \<Rightarrow> bool" where
  "clean m \<longleftrightarrow> CHR 0x0A \<notin> set m \<and> CHR 0x0D \<notin> set m \<and> nul \<notin> set m"

lemma clean_line: "clean m \<Longrightarrow> m \<noteq> [] \<Longrightarrow> line m"
  by (simp add: clean_def line_def)

lemma pieces_space: "c \<notin> set u \<Longrightarrow> pieces [c] (u @ c # v) = u # pieces [c] v"
  by (simp add: pieces_Some [OF find_idx_char])

lemma messages_of_lines_crlf: "list_all line ms \<Longrightarrow> messages_of (lines_text ms @ crlf) = ms"
proof -
  assume ms: "list_all line ms"
  have "pieces crlf (lines_text ms @ crlf) = ms @ [[], []]"
    using pieces_lines [OF ms, of crlf] pieces_after [of crlf "[]"] by (simp add: crlf_def)
  moreover have "nul \<notin> set (lines_text ms @ crlf)"
    using lines_text_no_nul [OF ms] by (simp add: crlf_def nul_def)
  moreover have "filter (\<lambda>m. m \<noteq> []) ms = ms"
    using ms by (auto simp: filter_id_conv line_def list_all_iff)
  ultimately show ?thesis by (simp add: messages_of_def takeWhile_no_nul)
qed

lemma reply_parts:
  assumes "CHR '' '' \<notin> set lip" and "CHR '' '' \<notin> set n"
    and "welcome_msg lip (fst (reply_of ok)) n (snd (reply_of ok)) u rem = m @ crlf"
  shows "\<exists>ps. pieces '' '' m = lip # fst (reply_of ok) # n
    # (if ok then '':Welcome'' else '':Password'') # ps"
proof -
  have "m = lip @ CHR '' '' # fst (reply_of ok) @ CHR '' '' # n @ CHR '' '' # snd (reply_of ok)
      @ '' '' @ n @ ''!'' @ u @ ''@'' @ rem"
    using assms(3) by (simp add: welcome_msg_def)
  moreover have "CHR '' '' \<notin> set (fst (reply_of ok))"
    by (simp add: reply_of_def reply_codes)
  moreover have "\<exists>ps. pieces '' '' (snd (reply_of ok) @ r) = (if ok then '':Welcome'' else '':Password'') # ps" for r
    using pieces_space [of "CHR '' ''" "'':Welcome''"] pieces_space [of "CHR '' ''" "'':Password''"]
    by (simp add: reply_of_def)
  ultimately show ?thesis
    using assms(1,2) by (simp add: pieces_space)
qed

text \<open>The three lines that are sent, and the run of \<open>pass_user_info_to_server\<close> on the server's answer.\<close>

definition registration_writes :: "user \<Rightarrow> string list" where
  "registration_writes u =
     [''NICK '' @ u_nick u @ crlf, ''USER '' @ u_whoami u @ '' * * :'' @ u_real u @ crlf,
      ''PASS '' @ u_pass u @ crlf @ crlf]"

lemma registration_writes_text:
  "concat (registration_writes u)
    = lines_text (registration_lines (u_nick u) (u_whoami u) (u_real u) (u_pass u)) @ crlf"
  by (simp add: registration_writes_def registration_lines_def lines_text_def)

lemma run_pass_user_info:
  assumes "c_sock s = Some k" and "delivers E k chunks" and "c_pending k chunks s = m # ms"
    and "pieces '' '' m = p0 # code # p2 # (c # shown) # ps"
  obtains q t where "pass_user_info_to_server E s
      = (Inr (code = RPL_WELCOME), s\<lparr>c_sock_msgs := q, trace := trace s @ t\<rparr>)"
    and "sent t = map (Pair k) (registration_writes (c_user s))"
    and "printed t = [to_blue (shown @ ''\<newline>'')]"
    and "c_pending k chunks (s\<lparr>c_sock_msgs := q, trace := trace s @ t\<rparr>) = ms"
proof -
  let ?w = "map (Ev_write k) (registration_writes (c_user s))"
  let ?s1 = "s\<lparr>trace := trace s @ ?w\<rparr>"
  have "reads ?w = []" by (simp add: registration_writes_def)
  then have "c_sock ?s1 = Some k" "c_pending k chunks ?s1 = m # ms"
    using assms(1,3) by simp_all
  then obtain q t where t: "client_try_reading E ?s1 = (Inr m, ?s1\<lparr>c_sock_msgs := q, trace := trace ?s1 @ t\<rparr>)"
    "sent t = []" "printed t = []"
    "c_pending k chunks (?s1\<lparr>c_sock_msgs := q, trace := trace ?s1 @ t\<rparr>) = ms"
    by (rule client_read [OF _ assms(2)])
  have w: "sent ?w = map (Pair k) (registration_writes (c_user s))" "printed ?w = []"
    by (simp_all add: registration_writes_def)
  let ?t = "?w @ t @ [Ev_print (to_blue (shown @ ''\<newline>''))]"
  have "pass_user_info_to_server E s
      = (Inr (code = RPL_WELCOME), s\<lparr>c_sock_msgs := q, trace := trace s @ ?t\<rparr>)"
    using t(1) assms(1,4)
    by (simp add: pass_user_info_to_server_def run run_client_writing registration_writes_def part_at_def
        substr_def print_out_def)
  moreover have "c_pending k chunks (s\<lparr>c_sock_msgs := q, trace := trace s @ ?t\<rparr>) = ms"
    using t(4) by (simp add: c_pending_def)
  ultimately show thesis
    using that [of ?t q] w t(2,3) by simp
qed

text \<open>C14: Registration is the same protocol on both sides: what the client sends is, once it is cut into
  lines, exactly the three lines that \<open>register_session\<close> reads; and on the answer of the server the
  client knows whether it was accepted, although of the text it prints only the first word.\<close>

theorem registration_agrees:
  assumes "c_sock s = Some k" and "delivers E k chunks" and "c_pending k chunks s = m # ms"
    and "clean (u_nick (c_user s))" and "clean (u_whoami (c_user s))" and "clean (u_real (c_user s))"
    and "clean (u_pass (c_user s))"
    and "CHR '' '' \<notin> set lip" and "CHR '' '' \<notin> set (u_nick (c_user s))"
    and "welcome_msg lip (fst (reply_of ok)) (u_nick (c_user s)) (snd (reply_of ok)) user_name rem
      = m @ crlf"
  shows "\<exists>q t ws. pass_user_info_to_server E s = (Inr ok, s\<lparr>c_sock_msgs := q, trace := trace s @ t\<rparr>)
    \<and> sent t = map (Pair k) ws
    \<and> messages_of (concat ws) = registration_lines (u_nick (c_user s)) (u_whoami (c_user s))
        (u_real (c_user s)) (u_pass (c_user s))
    \<and> printed t = [to_blue ((if ok then ''Welcome'' else ''Password'') @ ''\<newline>'')]
    \<and> c_pending k chunks (s\<lparr>c_sock_msgs := q, trace := trace s @ t\<rparr>) = ms"
proof -
  let ?u = "c_user s"
  have "list_all line (registration_lines (u_nick ?u) (u_whoami ?u) (u_real ?u) (u_pass ?u))"
    using assms(4-7) by (auto simp: registration_lines_def line_def clean_def nul_def)
  then have msgs: "messages_of (concat (registration_writes ?u))
      = registration_lines (u_nick ?u) (u_whoami ?u) (u_real ?u) (u_pass ?u)"
    unfolding registration_writes_text by (rule messages_of_lines_crlf)
  obtain ps where "pieces '' '' m = lip # fst (reply_of ok) # u_nick ?u
      # (if ok then '':Welcome'' else '':Password'') # ps"
    using reply_parts [OF assms(8-10)] by blast
  then have ps: "pieces '' '' m = lip # fst (reply_of ok) # u_nick ?u
      # (CHR '':'' # (if ok then ''Welcome'' else ''Password'')) # ps" by simp
  have code: "(fst (reply_of ok) = RPL_WELCOME) = ok"
    by (simp add: reply_of_def reply_codes)
  obtain q t where "pass_user_info_to_server E s
      = (Inr (fst (reply_of ok) = RPL_WELCOME), s\<lparr>c_sock_msgs := q, trace := trace s @ t\<rparr>)"
    "sent t = map (Pair k) (registration_writes ?u)"
    "printed t = [to_blue ((if ok then ''Welcome'' else ''Password'') @ ''\<newline>'')]"
    "c_pending k chunks (s\<lparr>c_sock_msgs := q, trace := trace s @ t\<rparr>) = ms"
    by (rule run_pass_user_info [OF assms(1-3) ps])
  with msgs code show ?thesis
    by (intro exI [of _ q] exI [of _ t] exI [of _ "registration_writes ?u"]) simp
qed

definition lab_feed :: "string list \<Rightarrow> env" where
  "lab_feed ms = lab_env\<lparr>read_some := \<lambda>t k. if reads_of k t < 1 then lines_text ms else []\<rparr>"

lemma lab_feed_delivers:
  "ms \<noteq> [] \<Longrightarrow> list_all line ms \<Longrightarrow> length (lines_text ms) < BUFF_SIZE \<Longrightarrow> delivers (lab_feed ms) k [ms]"
  by (simp add: delivers_def lab_feed_def)

lemma registration_agrees_witness:
  "\<exists>s'. pass_user_info_to_server
     (lab_feed [''127.0.0.1 001 carol :Welcome to the Internet Relay Network carol!carol@127.0.0.1'']) (lab_client [])
     = (Inr True, s')"
proof -
  let ?m = "''127.0.0.1 001 carol :Welcome to the Internet Relay Network carol!carol@127.0.0.1''"
  have d: "delivers (lab_feed [?m]) 4 [[?m]]"
    by (rule lab_feed_delivers) (simp_all add: line_def nul_def lines_text_def BUFF_SIZE_def)
  have p: "c_pending 4 [[?m]] (lab_client []) = ?m # []" by (simp add: c_pending_def)
  have w: "welcome_msg ''127.0.0.1'' (fst (reply_of True)) (u_nick (c_user (lab_client [])))
      (snd (reply_of True)) ''carol'' ''127.0.0.1'' = ?m @ crlf"
    by (simp add: welcome_msg_def reply_of_def reply_codes)
  from registration_agrees [OF _ d p _ _ _ _ _ _ w] show ?thesis
    by (fastforce simp: clean_def nul_def)
qed

section \<open>Joining a channel\<close>

lemma rest_of_parts_join: "rest_of_parts a ps = a @ join '':'' ps"
  by (induction a ps rule: rest_of_parts.induct) simp_all

text \<open>\<open>parse_topic_msg\<close>, which cuts the message at its colons and puts the parts after the first
  together again, is what follows the first colon, whatever colons that text holds itself, and
  nothing for a message without a colon.\<close>

lemma parse_topic_msg_after_colon:
  "parse_topic_msg m s
    = (Inr (case find_idx '':'' m of None \<Rightarrow> [] | Some i \<Rightarrow> drop (i + 1) m), s)"
proof (cases "find_idx '':'' m")
  case None
  then show ?thesis by (simp add: parse_topic_msg_def run pieces_None del: find_idx.simps)
next
  case (Some i)
  then have "join '':'' (tl (pieces '':'' m)) = drop (i + 1) m"
    using join_pieces [of "'':''" "drop (i + 1) m"] by (simp add: pieces_Some del: find_idx.simps)
  with Some show ?thesis
    by (simp add: parse_topic_msg_def run rest_of_parts_join del: find_idx.simps)
qed

lemma parse_reply:
  assumes "CHR '':'' \<notin> set lip" and "CHR '':'' \<notin> set code" and "CHR '':'' \<notin> set (u_nick u)"
    and "CHR '':'' \<notin> set (u_chan u)" and "reply_msg lip code u body = m @ crlf"
  shows "parse_topic_msg m s = (Inr body, s)"
proof -
  let ?a = "lip @ '' '' @ code @ '' '' @ u_nick u @ '' '' @ u_chan u @ '' ''"
  have "m = ?a @ CHR '':'' # body" using assms(5) by (simp add: reply_msg_def)
  moreover have "find_idx '':'' (?a @ CHR '':'' # body) = Some (length ?a)"
    by (rule find_idx_char) (use assms(1-4) in simp)
  moreover have "drop (length ?a + 1) (?a @ CHR '':'' # body) = body"
    by (simp only: drop_append) simp
  ultimately show ?thesis
    unfolding parse_topic_msg_after_colon by (simp only: option.case)
qed

lemma debug_quiet [run]: "debug_out m s = (Inr (), s)"
  by (simp add: debug_out_def DEBUG_def run)

text \<open>The channel that the typed name stands for.\<close>

definition channel_typed :: "string \<Rightarrow> string" where
  "channel_typed l = (if take 1 l = ''#'' then l else ''#'' @ l)"

lemma wp_client_read:
  assumes "c_sock s = Some k" and "delivers E k chunks" and "c_pending k chunks s = m # ms"
    and "\<And>q t. sent t = [] \<Longrightarrow> printed t = [] \<Longrightarrow>
      c_pending k chunks (s\<lparr>c_sock_msgs := q, trace := trace s @ t\<rparr>) = ms \<Longrightarrow>
      Q m (s\<lparr>c_sock_msgs := q, trace := trace s @ t\<rparr>)"
  shows "wp (client_try_reading E) Q R s"
  by (rule client_read [OF assms(1-3)]) (simp add: wp_run_Inr assms(4))

text \<open>The same with the continuation before the pending lines, which the simplifier then solves first.\<close>

lemma wp_client_read_next:
  assumes "c_sock s = Some k" and "delivers E k chunks"
    and "\<And>q t. sent t = [] \<Longrightarrow> printed t = [] \<Longrightarrow>
      q @ concat (drop (reads_of k (trace s) + reads_of k t) chunks) = ms \<Longrightarrow>
      Q m (s\<lparr>c_sock_msgs := q, trace := trace s @ t\<rparr>)"
    and "c_sock_msgs s @ concat (drop (reads_of k (trace s)) chunks) = m # ms"
  shows "wp (client_try_reading E) Q R s"
  by (rule wp_client_read [OF assms(1,2)]) (use assms(3,4) in \<open>simp_all add: c_pending_def\<close>)

lemma wp_client_writing:
  "c_sock s = Some k \<Longrightarrow> ends_crlf m \<Longrightarrow>
     wp (client_try_writing E m) Q R s = Q () (s\<lparr>trace := trace s @ [Ev_write k m]\<rparr>)"
  by (simp add: wp_run_Inr run_client_writing)

lemma wp_getline:
  "cin_good s \<Longrightarrow> cin s = l @ CHR 0x0A # left \<Longrightarrow> CHR 0x0A \<notin> set l \<Longrightarrow>
     wp (getline old) Q R s = Q l (s\<lparr>cin := left\<rparr>)"
  by (simp add: wp_run_Inr run_getline)

lemma wp_parse_topic_msg:
  "(\<And>v. parse_topic_msg m v = (Inr body, v)) \<Longrightarrow> wp (parse_topic_msg m) Q R s = Q body s"
  by (simp add: wp_run_Inr)

text \<open>What the client prints while it joins.\<close>

definition joining_prints :: "string \<Rightarrow> string \<Rightarrow> string \<Rightarrow> string list" where
  "joining_prints chan tp names = map to_blue
     [banner @ ''What #channel would you like to join?\<newline>'',
      banner @ ''Successfully connected to '' @ chan @ ''\<newline>'',
      banner @ chan @ '' Topic:\<newline>'' @ tp @ ''\<newline>'',
      banner @ chan @ '' Users:\<newline>'' @ names @ ''\<newline>'']"

lemma thenE_ret [simp]: "thenE (ret ()) m = m"
  by (simp add: fun_eq_iff run)

lemma connect_to_channel_steps:
  "connect_to_channel E =
     thenE (print_out (to_blue (banner @ ''What #channel would you like to join?\<newline>'')))
    (bindE (getline []) (\<lambda>l.
     thenE (client_try_writing E (''JOIN '' @ channel_typed l @ crlf))
    (bindE (client_try_reading E) (\<lambda>_.
     thenE (print_out (to_blue (banner @ ''Successfully connected to '' @ channel_typed l @ ''\<newline>'')))
    (bindE (client_try_reading E) (\<lambda>reply.
     bindE (parse_topic_msg reply) (\<lambda>topic.
     thenE (update (\<lambda>s. s\<lparr>c_topic := topic\<rparr>))
    (thenE (print_out (to_blue (banner @ channel_typed l @ '' Topic:\<newline>'' @ topic @ ''\<newline>'')))
    (bindE (client_try_reading E) (\<lambda>reply.
     bindE (parse_topic_msg reply) (\<lambda>users.
     thenE (print_out (to_blue (banner @ channel_typed l @ '' Users:\<newline>'' @ users @ ''\<newline>'')))
    (bindE (client_try_reading E) (\<lambda>_. ret (channel_typed l))))))))))))))"
proof -
  have "(if take 1 l \<noteq> ''#'' then ''#'' @ l else l) = channel_typed l" for l
    by (simp add: channel_typed_def)
  then show ?thesis
    unfolding connect_to_channel_def debug_out_def DEBUG_def parse_user_list_msg_def if_False Let_def
      thenE_ret by (simp only:)
qed

lemma run_enter_channel:
  assumes "c_sock s = Some k" and "delivers E k chunks" and "cin_good s"
    and "cin s = l @ CHR 0x0A # left" and "CHR 0x0A \<notin> set l"
    and "c_pending k chunks s = j # mt # mn # me # ms"
    and "\<And>v. parse_topic_msg mt v = (Inr tp, v)" and "\<And>v. parse_topic_msg mn v = (Inr names, v)"
  obtains s' t where "enter_channel E s = (Inr (), s')" and "trace s' = trace s @ t"
    and "sent t = [(k, ''JOIN '' @ channel_typed l @ crlf)]"
    and "printed t = joining_prints (channel_typed l) tp names"
    and "c_topic s' = tp" and "c_channel s' = channel_typed l"
    and "c_user s' = set_channel (channel_typed l) (c_user s)" and "cin s' = left" and "cin_good s'"
    and "c_sock s' = Some k" and "c_pending k chunks s' = ms"
proof -
  let ?c = "channel_typed l"
  let ?Q = "\<lambda>(_::unit) s'. \<exists>t. trace s' = trace s @ t \<and> sent t = [(k, ''JOIN '' @ ?c @ crlf)]
      \<and> printed t = joining_prints ?c tp names \<and> c_topic s' = tp \<and> c_channel s' = ?c
      \<and> c_user s' = set_channel ?c (c_user s) \<and> cin s' = left \<and> cin_good s' \<and> c_sock s' = Some k
      \<and> c_pending k chunks s' = ms"
  have "wp (enter_channel E) ?Q (\<lambda>_ _. False) s"
    unfolding enter_channel_def connect_to_channel_steps print_out_def
    apply (simp add: wp_simps wp_getline [OF _ _ assms(5)] assms(1,3,4) wp_client_writing del: append_Cons)
    apply (rule wp_client_read_next [OF _ assms(2)];
        simp add: assms(1) assms(6) [unfolded c_pending_def] wp_simps
        wp_parse_topic_msg [OF assms(7)] wp_parse_topic_msg [OF assms(8)] add.assoc)+
    apply (simp add: assms(3) c_pending_def joining_prints_def add.assoc)
    done
  then show thesis
    by (rule wp_ok_run) (auto intro: that)
qed

text \<open>C15: Joining is the same protocol on both sides: the channel the user types, with a number sign in
  front if there was none, is sent in one JOIN, and from the four lines with which the server greets
  a new member the client takes exactly the channel's topic and exactly the list of names, whatever
  characters these hold, prints both, and records channel and topic.\<close>

theorem joining_agrees:
  assumes "c_sock s = Some k" and "delivers E k chunks" and "cin_good s"
    and "cin s = l @ CHR 0x0A # left" and "CHR 0x0A \<notin> set l"
    and "c_pending k chunks s = j # mt # mn # me # ms"
    and "reply_msg lip RPL_TOPIC u tp = mt @ crlf" and "reply_msg lip RPL_NAMREPLY u names = mn @ crlf"
    and "CHR '':'' \<notin> set lip" and "CHR '':'' \<notin> set (u_nick u)" and "CHR '':'' \<notin> set (u_chan u)"
  shows "\<exists>s' t. enter_channel E s = (Inr (), s') \<and> trace s' = trace s @ t
    \<and> sent t = [(k, ''JOIN '' @ channel_typed l @ crlf)]
    \<and> printed t = joining_prints (channel_typed l) tp names
    \<and> c_topic s' = tp \<and> c_channel s' = channel_typed l
    \<and> c_user s' = set_channel (channel_typed l) (c_user s)
    \<and> c_pending k chunks s' = ms"
proof -
  have codes: "CHR '':'' \<notin> set RPL_TOPIC" "CHR '':'' \<notin> set RPL_NAMREPLY"
    by (simp_all add: reply_codes)
  have "parse_topic_msg mt v = (Inr tp, v)" "parse_topic_msg mn v = (Inr names, v)" for v
    using parse_reply [OF assms(9) codes(1) assms(10,11,7)]
      parse_reply [OF assms(9) codes(2) assms(10,11,8)] by simp_all
  with assms(1-6) show ?thesis
    by (rule run_enter_channel) blast
qed

lemma joining_agrees_witness:
  "\<exists>s'. enter_channel (lab_feed [''carol!carol@127.0.0.1 JOIN #lab'', ''127.0.0.1 332 carol #lab :a: b'',
       ''127.0.0.1 252 carol #lab :@carol '', ''127.0.0.1 366 carol #lab :End of NAMES list''])
     (lab_client (''lab'' @ [CHR 0x0A])) = (Inr (), s') \<and> c_topic s' = ''a: b'' \<and> c_channel s' = ''#lab''"
proof -
  let ?ms = "[''carol!carol@127.0.0.1 JOIN #lab'', ''127.0.0.1 332 carol #lab :a: b'',
       ''127.0.0.1 252 carol #lab :@carol '', ''127.0.0.1 366 carol #lab :End of NAMES list'']"
  let ?s = "lab_client (''lab'' @ [CHR 0x0A])"
  have d: "delivers (lab_feed ?ms) 4 [?ms]"
    by (rule lab_feed_delivers) (simp_all add: line_def nul_def lines_text_def BUFF_SIZE_def)
  have p: "c_pending 4 [?ms] ?s = ?ms" by (simp add: c_pending_def)
  have "reply_msg ''127.0.0.1'' RPL_TOPIC (lab_user ''carol'' 4) ''a: b'' = ''127.0.0.1 332 carol #lab :a: b'' @ crlf"
    "reply_msg ''127.0.0.1'' RPL_NAMREPLY (lab_user ''carol'' 4) ''@carol '' = ''127.0.0.1 252 carol #lab :@carol '' @ crlf"
    by (simp_all add: reply_msg_def reply_codes)
  from joining_agrees [OF _ d _ _ _ p this, of "''lab''" "[]"] show ?thesis
    by (fastforce simp: channel_typed_def)
qed

end
