(* ===== verification/Session.thy ===== *)
theory Session
  imports Client_Session System_Props
begin

text \<open>
  A client and a server that are connected: what each of them reads is what the other has written. The
  client registers and joins a channel; the server's main thread takes the registration in, and the
  channel's thread greets the new user.
\<close>

section \<open>What a connection carries\<close>

text \<open>The text that the server writes to the connection whose remote endpoint is \<open>e\<close>.\<close>

definition addressed :: "endpoint \<Rightarrow> delivery list \<Rightarrow> string" where
  "addressed e ds = concat (map snd (filter (\<lambda>d. fst d = e) ds))"

definition heard :: "(sock \<Rightarrow> endpoint) \<Rightarrow> endpoint \<Rightarrow> event list \<Rightarrow> string" where
  "heard peer e t = addressed e (deliveries peer t)"

lemma addressed_simps [simp]:
  "addressed e [] = []" "addressed e (ds @ ds') = addressed e ds @ addressed e ds'"
  "addressed e (d # ds) = (if fst d = e then snd d else []) @ addressed e ds"
  by (simp_all add: addressed_def)

lemma heard_append [simp]: "heard peer e (t @ u) = heard peer e t @ heard peer e u"
  by (simp add: heard_def)

lemma heard_quiet [simp]: "sent t = [] \<Longrightarrow> heard peer e t = []"
  by (simp add: heard_def)

lemma addressed_to_all_other: "e \<notin> u_endpt ` set (members r) \<Longrightarrow> addressed e (to_all r m) = []"
  by (auto simp: addressed_def to_all_def filter_empty_conv)

text \<open>Users who join are heard by members only; the one who joins last hears its own arrival.\<close>

lemma room_joins_append:
  "snd (room_joins E ip r (us @ vs)) = snd (room_joins E ip r us)
     @ snd (room_joins E ip (r\<lparr>members := members r @ us\<rparr>) vs)"
  by (induction us arbitrary: r) (simp_all add: room_join_def Let_def case_prod_beta)

lemma room_joins_other:
  "e \<notin> u_endpt ` set (members r @ us) \<Longrightarrow> addressed e (snd (room_joins E ip r us)) = []"
  by (induction us arbitrary: r)
    (auto simp: room_join_def Let_def case_prod_beta intro!: addressed_to_all_other)

lemma room_join_last:
  assumes "u_endpt u \<notin> u_endpt ` set (members r @ us)"
  shows "addressed (u_endpt u) (snd (room_joins E ip r (us @ [u])))
    = join_msg E u @ reply_msg ip RPL_TOPIC u (topic r)
      @ reply_msg ip RPL_NAMREPLY u (names_of (members r @ us @ [u]))
      @ reply_msg ip RPL_ENDOFNAMES u ''End of NAMES list''"
proof -
  let ?r = "r\<lparr>members := members r @ us @ [u]\<rparr>"
  have "addressed (u_endpt u) (to_all (r\<lparr>members := members r @ us\<rparr>) m) = []" for m
    using assms by (intro addressed_to_all_other) simp
  then have "addressed (u_endpt u) (to_all ?r m) = m" for m
    by (simp add: to_all_def)
  with room_joins_other [OF assms] show ?thesis
    by (simp add: room_joins_append room_join_def Let_def)
qed

section \<open>Lines\<close>

lemma messages_of_first_line: "line m \<Longrightarrow> messages_of (m @ crlf @ rest) = m # messages_of rest"
proof -
  assume m: "line m"
  then have nul: "nul \<notin> set (m @ crlf)" by (simp add: line_def crlf_def nul_def)
  have "takeWhile (\<lambda>c. c \<noteq> nul) ((m @ crlf) @ rest) = (m @ crlf) @ takeWhile (\<lambda>c. c \<noteq> nul) rest"
    by (rule takeWhile_append2) (use nul in auto)
  moreover have "pieces crlf (m @ crlf @ r) = m # pieces crlf r" for r
    using pieces_lines [of "[m]" r] m by (simp add: lines_text_def)
  ultimately show ?thesis using m by (simp add: messages_of_def line_def)
qed

text \<open>A text that a line can hold between spaces and colons.\<close>

definition token :: "string \<Rightarrow> bool" where
  "token m \<longleftrightarrow> clean m \<and> CHR '' '' \<notin> set m \<and> CHR '':'' \<notin> set m"

lemma clean_append [simp]: "clean (a @ b) \<longleftrightarrow> clean a \<and> clean b"
  by (auto simp: clean_def)

lemma clean_Cons [simp]: "clean (c # b) \<longleftrightarrow> c \<notin> {CHR 0x0A, CHR 0x0D, nul} \<and> clean b"
  by (auto simp: clean_def)

lemma clean_Nil [simp]: "clean []"
  by (simp add: clean_def)

lemma clean_codes [simp]:
  "clean (fst (reply_of ok))" "clean (snd (reply_of ok))" "clean RPL_TOPIC" "clean RPL_NAMREPLY"
  "clean RPL_ENDOFNAMES"
  by (simp_all add: reply_of_def reply_codes nul_def)

lemma clean_names: "\<forall>u \<in> set us. clean (u_nick u) \<Longrightarrow> clean (names_of us)"
  by (induction us) (simp_all add: names_of_def nul_def)

lemma clean_reply:
  assumes "clean ip" and "clean code" and "clean (u_nick u)" and "clean (u_chan u)" and "clean txt"
  obtains m where "reply_msg ip code u txt = m @ crlf" and "line m"
  by (rule that [of "ip @ '' '' @ code @ '' '' @ u_nick u @ '' '' @ u_chan u @ '' '' @ '':'' @ txt"])
    (use assms in \<open>simp_all add: reply_msg_def clean_line nul_def\<close>)

lemma clean_join:
  assumes "clean (u_nick u)" and "clean (u_whoami u)" and "clean (address_text E (u_endpt u))"
    and "clean (u_chan u)"
  obtains m where "join_msg E u = m @ crlf" and "line m"
  by (rule that [of "prefix_of E u @ '' JOIN '' @ u_chan u"])
    (use assms in \<open>simp_all add: join_msg_def prefix_of_def clean_line nul_def\<close>)

lemma clean_welcome:
  assumes "clean ip" and "clean n" and "clean w" and "clean rem"
  obtains m where "welcome_msg ip (fst (reply_of ok)) n (snd (reply_of ok)) w rem = m @ crlf" and "line m"
  by (rule that [of "ip @ '' '' @ fst (reply_of ok) @ '' '' @ n @ '' '' @ snd (reply_of ok) @ '' '' @ n
      @ ''!'' @ w @ ''@'' @ rem"])
    (use assms in \<open>simp_all add: welcome_msg_def clean_line nul_def\<close>)

section \<open>The server's side\<close>

text \<open>
  The channel's thread, with its private state \<open>st\<close>, finds its invariant, and the endpoint \<open>e\<close> is
  nobody's who is a member or waits.
\<close>

definition awaits :: "(sock \<Rightarrow> endpoint) \<Rightarrow> server \<Rightarrow> servlet \<Rightarrow> endpoint \<Rightarrow> bool" where
  "awaits peer s st e \<longleftrightarrow> thread_ok peer (view s st)
     \<and> e \<notin> u_endpt ` set (s_users st @ map fst (queue_of s (s_channel_name st)))
     \<and> e \<notin> peer ` set (s_socks st @ global_socks s)"

lemma thread_ok_view_queued:
  assumes "awaits peer s st (peer k)" and "u_endpt u = peer k" and "list_all plain ms"
    and "queue_of s1 (s_channel_name st) = queue_of s (s_channel_name st) @ [(u, ms)]"
    and "global_socks s1 = global_socks s @ [k]"
  shows "thread_ok peer (view s1 st)"
proof -
  let ?c = "s_channel_name st"
  note wait = waiting_for_view [OF refl, of _ st]
  have "thread_ok peer (view s st)" and fresh: "peer k \<notin> u_endpt ` set (s_users st @ map fst (queue_of s ?c))"
      "peer k \<notin> peer ` set (s_socks st @ global_socks s)"
    using assms(1) by (simp_all add: awaits_def)
  then have ok: "servlet_ok peer st" "admissible peer (view s st)"
      "\<forall>e. list_all plain (smap_get [] (s_end_msgs st) e)"
      "\<forall>(u, ms) \<in> set (queue_of s ?c). list_all plain ms"
    by (simp_all add: thread_ok_def wait)
  have "admissible peer (view s1 st)"
    using ok(2) fresh assms(2) unfolding admissible_def wait assms(4) by (auto simp: assms(5) image_subset_iff)
  with ok assms(3) show ?thesis by (simp add: thread_ok_def wait assms(4))
qed

text \<open>The flag with which the channel's thread runs, and its iteration after a pass of the main loop.\<close>

definition admission :: "env \<Rightarrow> server \<Rightarrow> servlet \<Rightarrow> (error + unit) \<times> servlet" where
  "admission E s st =
     (let s1 = snd (inner_scope_run E s)
      in servlet_iter E (smap_get None (sv_notify s1) (s_channel_name st)) (view s1 st))"

text \<open>Once \<open>n\<close> reads of the socket \<open>k\<close> are over, every message that is read on any socket satisfies \<open>P\<close>.\<close>

definition traffic_after :: "(string \<Rightarrow> bool) \<Rightarrow> env \<Rightarrow> sock \<Rightarrow> nat \<Rightarrow> bool" where
  "traffic_after P E k n \<longleftrightarrow> (\<forall>h j. (j = k \<longrightarrow> n \<le> reads_of k h) \<longrightarrow>
     list_all P (messages_of (take BUFF_SIZE (read_some E h j))))"

lemma traffic_after_since: "traffic_after P E k n \<Longrightarrow> n \<le> reads_of k h \<Longrightarrow> reads_all P E h"
  by (auto simp: traffic_after_def reads_all_def)

lemma drop_read:
  assumes "delivers E k chunks" and "concat (drop n chunks) = []"
  shows "length chunks \<le> n"
proof (rule ccontr)
  assume "\<not> length chunks \<le> n"
  then have "chunks ! n \<in> set chunks" "drop n chunks = chunks ! n # drop (Suc n) chunks"
    by (simp_all add: Cons_nth_drop_Suc)
  with assms show False by (auto simp: delivers_def)
qed

text \<open>The messages that an iteration handles: those that were queued, and those that it reads.\<close>

lemma queued_satisfy:
  assumes "extends peer ks (data_read E h t) (admitted qs m0) m" and "reads_all P E h"
    and "\<forall>e. list_all P (smap_get [] m0 e)" and "\<forall>(u, ms) \<in> set qs. list_all P ms"
  shows "\<forall>(e, x) \<in> set (queued_of m). P x"
proof -
  have "list_all P (smap_get [] m e)" for e
    using assms(1,3,4) received_all [OF assms(2)] by (auto simp: extends_def admitted_get list_all_iff)
  moreover have "smap_wf m" using assms(1) by (simp add: extends_def)
  ultimately show ?thesis by (simp add: queued_of_all)
qed

text \<open>After the pass of the main loop the thread finds the user at the end of its queue, and its flag raised.\<close>

lemma server_hands_over:
  assumes "arrives E peer loc chunks a s" and "ar_more a = []" and "smap_wf (sv_end_msgs s)" and "db_up E"
    and "hashPassword E (ar_pass a) = Inr (success, h)" and "account E (ar_nick a) acc" and "accepts acc h"
    and "notifier_ok (the_notifier s)" and "channel_row E (defaultName (sv_config s)) (ar_chan a) row"
    and "s_channel_name st = ar_chan a" and "awaits peer s st (peer (ar_sock a))"
  obtains s1 t where "inner_scope_run E s = (Inr (), s1)" and "trace s1 = trace s @ t"
    and "heard peer (peer (ar_sock a)) t = answer_to E peer loc a True"
    and "waiting_for (view s1 st)
      = queue_of s (ar_chan a) @ [(set_channel (ar_chan a) (client_of peer a h), [])]"
    and "thread_ok peer (view s1 st)"
    and "load_flag (flags (view s1 st)) (smap_get None (sv_notify s1) (ar_chan a)) = Inr True"
    and "length chunks \<le> reads_of (ar_sock a) (trace s1)"
proof -
  let ?k = "ar_sock a" and ?c = "ar_chan a" and ?u = "set_channel (ar_chan a) (client_of peer a h)"
  obtain s1 tmp rest t n where s1: "inner_scope_run E s = (Inr (), s1)" "trace s1 = trace s @ t"
    "sent t = [(?k, answer_to E peer loc a True)]"
    "chan_newusers s1 = smap_put ?c (smap_get [] (chan_newusers s) ?c @ [(?u, tmp)]) (chan_newusers s)"
    "ar_more a = tmp @ rest" "global_socks s1 = global_socks s @ [?k]"
    "notifier_update ?c (the_notifier s) = Inr (the_notifier s1)"
    "rest = concat (drop n chunks)" "n \<le> reads_of ?k (trace s1)"
    by (rule inner_run_success [OF assms(1,4,3,5-9)]) (rule that; assumption)
  have "delivers E ?k chunks" using assms(1) by (simp add: arrives_def)
  moreover have none: "tmp = []" "concat (drop n chunks) = []" using s1(5,8) assms(2) by simp_all
  ultimately have read: "length chunks \<le> reads_of ?k (trace s1)"
    using drop_read [of E ?k chunks n] s1(9) by linarith
  have queue: "queue_of s1 ?c = queue_of s ?c @ [(?u, [])]"
    using s1(4) none(1) by (simp add: queue_of_def)
  have "u_endpt ?u = peer ?k" by (simp add: set_channel_def client_of_def set_endpoint_def)
  then have ok: "thread_ok peer (view s1 st)"
    by (rule thread_ok_view_queued [OF assms(11)]) (use queue assms(10) s1(6) in simp_all)
  have "flag_raised (the_notifier s1) (smap_get None (sv_notify s1) ?c)"
    using notify_board.upd_raises [OF assms(8) s1(7)] by (simp add: pass_ptr_def the_notifier_def)
  then have flag: "load_flag (flags (view s1 st)) (smap_get None (sv_notify s1) ?c) = Inr True"
    by (simp add: flag_raised_def the_notifier_def)
  show thesis
    by (rule that [OF s1(1,2) _ _ ok flag read])
      (simp_all add: heard_def deliveries_def s1(3) waiting_for_view [OF assms(10)] queue)
qed

text \<open>The iteration of the thread that finds the user \<open>u\<close> last in its queue.\<close>

lemma thread_admits:
  assumes "steady E peer UNIV" and "\<forall>k t. local_ep E t k = Some loc" and "db_up E" and "short_reads E"
    and "plain_since E (trace s)" and "thread_ok peer s" and "load_flag (flags s) p = Inr True"
    and "waiting_for s = q0 @ [(u, [])]" and "u_endpt u \<notin> u_endpt ` set (s_users s @ map fst q0)"
  obtains th t q where "servlet_iter E p s = (Inr (), th)" and "trace th = trace s @ t"
    and "heard peer (u_endpt u) t = join_msg E u @ reply_msg (address_text E loc) RPL_TOPIC u (s_channel_topic s)
      @ reply_msg (address_text E loc) RPL_NAMREPLY u (names_of (s_users th))
      @ reply_msg (address_text E loc) RPL_ENDOFNAMES u ''End of NAMES list''
      @ addressed (u_endpt u)
          (snd (room_run E (s_channel_name s) \<lparr>members = s_users th, topic = s_channel_topic s\<rparr> q))"
    and "s_users th = s_users s @ map fst q0 @ [u]"
    and "\<forall>P. reads_all P E (trace s) \<and> (\<forall>e. list_all P (smap_get [] (s_end_msgs s) e))
      \<and> (\<forall>(u, ms) \<in> set q0. list_all P ms) \<longrightarrow> (\<forall>(e, x) \<in> set q. P x)"
proof -
  let ?socks = "set (s_socks s) \<union> set (global_socks s)" and ?g = "taken_in peer True s"
  have E: "steady E peer ?socks" "\<forall>k \<in> ?socks. \<forall>t. local_ep E t k = Some loc"
    using steady_mono [OF assms(1)] assms(2) by simp_all
  note ok = assms(6) [unfolded thread_ok_def]
  obtain th t1 t2 t3 m m' tp where th: "servlet_iter E p s = (Inr (), th)"
    "th = ?g\<lparr>s_end_msgs := m', s_channel_topic := tp, trace := trace s @ t1 @ t2 @ t3\<rparr>" "sent t2 = []"
    "room_joins E (address_text E loc) (room_abs s) (newcomers True s) = (room_abs ?g, deliveries peer t1)"
    "extends peer (s_socks th) (data_read E (trace s @ t1) t2) (s_end_msgs ?g) m"
    "room_run E (s_channel_name s) (room_abs ?g) (queued_of m) = (room_abs th, deliveries peer t3)"
    by (rule servlet_iter_run [OF E conjunct1 [OF ok] ok [THEN conjunct2, THEN conjunct1] assms(3-5)
          ok [THEN conjunct2, THEN conjunct2, THEN conjunct1]
          ok [THEN conjunct2, THEN conjunct2, THEN conjunct2] assms(7)]) blast
  have users: "s_users th = s_users s @ map fst q0 @ [u]"
    using th(2) assms(8) by (simp add: taken_in_def)
  have joined: "heard peer (u_endpt u) t1 = join_msg E u
      @ reply_msg (address_text E loc) RPL_TOPIC u (s_channel_topic s)
      @ reply_msg (address_text E loc) RPL_NAMREPLY u (names_of (s_users th))
      @ reply_msg (address_text E loc) RPL_ENDOFNAMES u ''End of NAMES list''"
    using room_join_last [of u "room_abs s" "map fst q0" E "address_text E loc"] th(4) assms(8,9) users
    by (simp add: heard_def newcomers_def)
  have later: "heard peer (u_endpt u) t3 = addressed (u_endpt u)
      (snd (room_run E (s_channel_name s) \<lparr>members = s_users th, topic = s_channel_topic s\<rparr> (queued_of m)))"
    using th(2,6) by (simp add: heard_def room_abs_def taken_in_def)
  have "\<forall>(e, x) \<in> set (queued_of m). P x"
    if "reads_all P E (trace s)" "\<forall>e. list_all P (smap_get [] (s_end_msgs s) e)"
      "\<forall>(u, ms) \<in> set q0. list_all P ms" for P
    by (rule queued_satisfy [of peer "s_socks th" E "trace s @ t1" t2 "waiting_for s" "s_end_msgs s"])
      (use th(5) that assms(8) in \<open>simp_all add: taken_in_def\<close>)
  moreover have "trace th = trace s @ t1 @ t2 @ t3" unfolding th(2) by simp
  ultimately show thesis
    using joined later th(3) by (intro that [OF th(1) _ _ users]) auto
qed

lemma server_admits:
  assumes "arrives E peer loc chunks a s" and "ar_more a = []" and "smap_wf (sv_end_msgs s)"
    and "steady E peer UNIV" and "\<forall>k t. local_ep E t k = Some loc" and "db_up E" and "short_reads E"
    and "traffic_after plain E (ar_sock a) (length chunks)"
    and "hashPassword E (ar_pass a) = Inr (success, h)" and "account E (ar_nick a) acc" and "accepts acc h"
    and "notifier_ok (the_notifier s)" and "channel_row E (defaultName (sv_config s)) (ar_chan a) row"
    and "s_channel_name st = ar_chan a" and "awaits peer s st (peer (ar_sock a))"
  defines "u \<equiv> set_channel (ar_chan a) (client_of peer a h)"
  obtains s1 th t q where "inner_scope_run E s = (Inr (), s1)" and "admission E s st = (Inr (), th)"
    and "trace th = trace s @ t"
    and "heard peer (peer (ar_sock a)) t = answer_to E peer loc a True @ join_msg E u
      @ reply_msg (address_text E loc) RPL_TOPIC u (s_channel_topic st)
      @ reply_msg (address_text E loc) RPL_NAMREPLY u (names_of (s_users th))
      @ reply_msg (address_text E loc) RPL_ENDOFNAMES u ''End of NAMES list''
      @ addressed (peer (ar_sock a))
          (snd (room_run E (ar_chan a) \<lparr>members = s_users th, topic = s_channel_topic st\<rparr> q))"
    and "s_users th = s_users st @ map fst (queue_of s (ar_chan a)) @ [u]"
    and "\<forall>P. traffic_after P E (ar_sock a) (length chunks) \<and> (\<forall>e. list_all P (smap_get [] (s_end_msgs st) e))
      \<and> (\<forall>(u, ms) \<in> set (queue_of s (ar_chan a)). list_all P ms) \<longrightarrow> (\<forall>(e, x) \<in> set q. P x)"
proof -
  let ?k = "ar_sock a" and ?c = "ar_chan a"
  have u: "u_endpt u = peer ?k" by (simp add: u_def set_channel_def client_of_def set_endpoint_def)
  obtain s1 t0 where s1: "inner_scope_run E s = (Inr (), s1)" "trace s1 = trace s @ t0"
    "heard peer (peer ?k) t0 = answer_to E peer loc a True"
    "waiting_for (view s1 st) = queue_of s ?c @ [(u, [])]" "thread_ok peer (view s1 st)"
    "load_flag (flags (view s1 st)) (smap_get None (sv_notify s1) ?c) = Inr True"
    "length chunks \<le> reads_of ?k (trace s1)"
    by (rule server_hands_over [OF assms(1-3,6,9-15), folded u_def])
  have plain: "plain_since E (trace (view s1 st))" using traffic_after_since [OF assms(8) s1(7)] by simp
  have fresh: "u_endpt u \<notin> u_endpt ` set (s_users (view s1 st) @ map fst (queue_of s ?c))"
    using assms(14,15) by (simp add: u awaits_def)
  obtain th t q where th: "servlet_iter E (smap_get None (sv_notify s1) ?c) (view s1 st) = (Inr (), th)"
    "trace th = trace (view s1 st) @ t"
    "heard peer (u_endpt u) t = join_msg E u
      @ reply_msg (address_text E loc) RPL_TOPIC u (s_channel_topic (view s1 st))
      @ reply_msg (address_text E loc) RPL_NAMREPLY u (names_of (s_users th))
      @ reply_msg (address_text E loc) RPL_ENDOFNAMES u ''End of NAMES list''
      @ addressed (u_endpt u) (snd (room_run E (s_channel_name (view s1 st))
          \<lparr>members = s_users th, topic = s_channel_topic (view s1 st)\<rparr> q))"
    "s_users th = s_users (view s1 st) @ map fst (queue_of s ?c) @ [u]"
    "\<forall>P. reads_all P E (trace (view s1 st)) \<and> (\<forall>e. list_all P (smap_get [] (s_end_msgs (view s1 st)) e))
      \<and> (\<forall>(u, ms) \<in> set (queue_of s ?c). list_all P ms) \<longrightarrow> (\<forall>(e, x) \<in> set q. P x)"
    by (rule thread_admits [OF assms(4-7) plain s1(5,6,4) fresh])
  show thesis
  proof (rule that [OF s1(1), of th "t0 @ t" q])
    show "admission E s st = (Inr (), th)" using s1(1) th(1) by (simp add: admission_def assms(14))
    have "reads_all P E (trace (view s1 st))" if "traffic_after P E ?k (length chunks)" for P
      using traffic_after_since [OF that s1(7)] by simp
    then show "\<forall>P. traffic_after P E ?k (length chunks) \<and> (\<forall>e. list_all P (smap_get [] (s_end_msgs st) e))
      \<and> (\<forall>(u, ms) \<in> set (queue_of s ?c). list_all P ms) \<longrightarrow> (\<forall>(e, x) \<in> set q. P x)"
      using th(5) by simp
  qed (use s1(2,3) th(2-4) u assms(14) in simp_all)
qed

section \<open>The client's side\<close>

text \<open>The registration of a client that types \<open>l\<close> for its channel, as it comes out of the socket \<open>k\<close>.\<close>

definition arrival_of :: "client \<Rightarrow> string \<Rightarrow> sock \<Rightarrow> arrival" where
  "arrival_of cl l k = \<lparr>ar_sock = k, ar_nick = u_nick (c_user cl), ar_user = u_whoami (c_user cl),
     ar_real = u_real (c_user cl), ar_pass = u_pass (c_user cl), ar_chan = channel_typed l, ar_more = []\<rparr>"

lemma arrival_of_fields [simp]:
  "ar_sock (arrival_of cl l k) = k" "ar_nick (arrival_of cl l k) = u_nick (c_user cl)"
  "ar_user (arrival_of cl l k) = u_whoami (c_user cl)" "ar_real (arrival_of cl l k) = u_real (c_user cl)"
  "ar_pass (arrival_of cl l k) = u_pass (c_user cl)" "ar_chan (arrival_of cl l k) = channel_typed l"
  "ar_more (arrival_of cl l k) = []"
  by (simp_all add: arrival_of_def)

definition clean_user :: "user \<Rightarrow> bool" where
  "clean_user u \<longleftrightarrow> token (u_nick u) \<and> clean (u_whoami u) \<and> clean (u_real u) \<and> clean (u_pass u)"

lemma messages_of_first_lines: "list_all line ms \<Longrightarrow> messages_of (lines_text ms @ rest) = ms @ messages_of rest"
  by (induction ms) (simp_all add: lines_text_def messages_of_first_line)

lemma messages_of_crlf: "messages_of (crlf @ rest) = messages_of rest"
proof -
  have "takeWhile (\<lambda>c. c \<noteq> nul) (crlf @ rest) = crlf @ takeWhile (\<lambda>c. c \<noteq> nul) rest"
    by (simp add: crlf_def nul_def)
  moreover have "pieces crlf (crlf @ r) = [] # pieces crlf r" for r
    by (subst pieces_Some [where i = 0]) (simp_all add: crlf_def starts_with_def)
  ultimately show ?thesis by (simp add: messages_of_def)
qed

text \<open>What the client writes is, line by line, the registration that the server reads.\<close>

lemma written_lines:
  assumes "clean_user (c_user cl)" and "clean (channel_typed l)"
  shows "messages_of (concat (registration_writes (c_user cl) @ [''JOIN '' @ channel_typed l @ crlf]))
    = arrival_lines (arrival_of cl l k)"
proof -
  let ?u = "c_user cl"
  let ?ls = "registration_lines (u_nick ?u) (u_whoami ?u) (u_real ?u) (u_pass ?u)"
  have ls: "list_all line ?ls" "line (''JOIN '' @ channel_typed l)"
    using assms by (auto simp: registration_lines_def line_def clean_def clean_user_def token_def nul_def)
  obtain j where j: "j = ''JOIN '' @ channel_typed l" by blast
  have "messages_of (lines_text [j]) = [j]"
    using messages_of_first_lines [of "[j]" "[]"] ls(2) [folded j] by simp
  then have "messages_of (lines_text ?ls @ crlf @ lines_text [j]) = ?ls @ [j]"
    unfolding messages_of_first_lines [OF ls(1)] messages_of_crlf by simp
  moreover have "concat (registration_writes ?u @ [j @ crlf]) = lines_text ?ls @ crlf @ lines_text [j]"
    using registration_writes_text [of ?u] by (simp add: lines_text_def)
  moreover have "''JOIN '' @ channel_typed l @ crlf = j @ crlf" by (simp add: j)
  ultimately show ?thesis
    unfolding arrival_lines_def arrival_of_fields by (simp only: j)
qed

text \<open>The client's run on the five lines that it is owed.\<close>

lemma client_enters:
  assumes "c_sock cl = Some k" and "delivers E k chunks" and "cin_good cl"
    and "cin cl = l @ CHR 0x0A # left" and "CHR 0x0A \<notin> set l"
    and "c_pending k chunks cl = w # j # mt # mn # me # ms"
    and "token lip" and "clean_user (c_user cl)" and "token (u_nick u)" and "CHR '':'' \<notin> set (u_chan u)"
    and "welcome_msg lip (fst (reply_of True)) (u_nick (c_user cl)) (snd (reply_of True)) who rem = w @ crlf"
    and "reply_msg lip RPL_TOPIC u tp = mt @ crlf" and "reply_msg lip RPL_NAMREPLY u names = mn @ crlf"
  obtains cl1 cl2 t where "pass_user_info_to_server E cl = (Inr True, cl1)"
    and "enter_channel E cl1 = (Inr (), cl2)" and "trace cl2 = trace cl @ t"
    and "map snd (sent t) = registration_writes (c_user cl) @ [''JOIN '' @ channel_typed l @ crlf]"
    and "fst ` set (sent t) = {k}"
    and "printed t = to_blue ''Welcome\<newline>'' # joining_prints (channel_typed l) tp names"
    and "c_topic cl2 = tp" and "c_channel cl2 = channel_typed l" and "c_pending k chunks cl2 = ms"
proof -
  have colon: "CHR '':'' \<notin> set lip" "CHR '':'' \<notin> set (u_nick u)" and space: "CHR '' '' \<notin> set lip"
      "CHR '' '' \<notin> set (u_nick (c_user cl))"
    using assms(7-9) by (simp_all add: token_def clean_user_def)
  obtain ps where "pieces '' '' w = lip # fst (reply_of True) # u_nick (c_user cl) # '':Welcome'' # ps"
    using reply_parts [OF space assms(11)] by auto
  then have "pieces '' '' w = lip # RPL_WELCOME # u_nick (c_user cl) # (CHR '':'' # ''Welcome'') # ps"
    by (simp add: reply_of_def)
  then obtain q t1 where reg: "pass_user_info_to_server E cl
      = (Inr (RPL_WELCOME = RPL_WELCOME), cl\<lparr>c_sock_msgs := q, trace := trace cl @ t1\<rparr>)"
    "sent t1 = map (Pair k) (registration_writes (c_user cl))" "printed t1 = [to_blue (''Welcome'' @ ''\<newline>'')]"
    "c_pending k chunks (cl\<lparr>c_sock_msgs := q, trace := trace cl @ t1\<rparr>) = j # mt # mn # me # ms"
    by (rule run_pass_user_info [OF assms(1,2,6)])
  let ?cl1 = "cl\<lparr>c_sock_msgs := q, trace := trace cl @ t1\<rparr>"
  have codes: "CHR '':'' \<notin> set RPL_TOPIC" "CHR '':'' \<notin> set RPL_NAMREPLY"
    by (simp_all add: reply_codes)
  have tp: "parse_topic_msg mt v = (Inr tp, v)" and names: "parse_topic_msg mn v = (Inr names, v)" for v
    using parse_reply [OF colon(1) codes(1) colon(2) assms(10,12)]
      parse_reply [OF colon(1) codes(2) colon(2) assms(10,13)] by simp_all
  obtain cl2 t2 where join: "enter_channel E ?cl1 = (Inr (), cl2)" "trace cl2 = trace ?cl1 @ t2"
    "sent t2 = [(k, ''JOIN '' @ channel_typed l @ crlf)]"
    "printed t2 = joining_prints (channel_typed l) tp names" "c_topic cl2 = tp"
    "c_channel cl2 = channel_typed l" "c_pending k chunks cl2 = ms"
    by (rule run_enter_channel [of ?cl1 k E chunks l left, OF _ assms(2) _ _ assms(5) reg(4) tp names])
      (use assms(1,3,4) in simp_all)
  have "fst ` set (sent (t1 @ t2)) = {k}" using reg(2) join(3) by auto
  with reg join show thesis by (intro that [of ?cl1 cl2 "t1 @ t2"]) (simp_all add: comp_def)
qed

section \<open>The session\<close>

text \<open>Nobody's text can break the lines of the protocol: neither the user's own, nor the channel's.\<close>

definition well_worded :: "env \<Rightarrow> (sock \<Rightarrow> endpoint) \<Rightarrow> endpoint \<Rightarrow> server \<Rightarrow> servlet \<Rightarrow> arrival \<Rightarrow> bool" where
  "well_worded E peer loc s st a \<longleftrightarrow>
     token (address_text E loc) \<and> clean (address_text E (peer (ar_sock a)))
     \<and> token (ar_nick a) \<and> clean (ar_user a) \<and> clean (ar_chan a) \<and> CHR '':'' \<notin> set (ar_chan a)
     \<and> clean (s_channel_topic st)
     \<and> (\<forall>u \<in> set (s_users st @ map fst (queue_of s (ar_chan a))). clean (u_nick u))"

lemma well_worded_lines:
  assumes "well_worded E peer loc s st a"
    and "s_users th = s_users st @ map fst (queue_of s (ar_chan a)) @ [u]"
    and "u = set_channel (ar_chan a) (client_of peer a h)"
  obtains w j mt mn me where "answer_to E peer loc a True = w @ crlf" and "join_msg E u = j @ crlf"
    and "reply_msg (address_text E loc) RPL_TOPIC u (s_channel_topic st) = mt @ crlf"
    and "reply_msg (address_text E loc) RPL_NAMREPLY u (names_of (s_users th)) = mn @ crlf"
    and "reply_msg (address_text E loc) RPL_ENDOFNAMES u ''End of NAMES list'' = me @ crlf"
    and "list_all line [w, j, mt, mn, me]"
proof -
  note ww = assms(1) [unfolded well_worded_def]
  have u: "u_endpt u = peer (ar_sock a)" "u_chan u = ar_chan a" "u_nick u = ar_nick a" "u_whoami u = ar_user a"
    by (simp_all add: assms(3) set_channel_def client_of_def set_endpoint_def user4_def)
  have c: "clean (address_text E loc)" "clean (u_nick u)" "clean (u_whoami u)" "clean (u_chan u)"
      "clean (address_text E (u_endpt u))" "clean (s_channel_topic st)" "clean (names_of (s_users th))"
    using ww u clean_names [of "s_users th"] by (simp_all add: token_def assms(2))
  have e: "clean ''End of NAMES list''" by (simp add: nul_def)
  obtain w where w: "answer_to E peer loc a True = w @ crlf" "line w"
    unfolding answer_to_def
    by (rule clean_welcome [OF c(1), of "ar_nick a" "ar_user a" "address_text E (peer (ar_sock a))" True])
      (use ww in \<open>auto simp: token_def\<close>)
  obtain j where j: "join_msg E u = j @ crlf" "line j" by (rule clean_join [OF c(2,3,5,4)])
  obtain mt where mt: "reply_msg (address_text E loc) RPL_TOPIC u (s_channel_topic st) = mt @ crlf" "line mt"
    by (rule clean_reply [OF c(1) clean_codes(3) c(2,4,6)])
  obtain mn where mn: "reply_msg (address_text E loc) RPL_NAMREPLY u (names_of (s_users th)) = mn @ crlf" "line mn"
    by (rule clean_reply [OF c(1) clean_codes(4) c(2,4,7)])
  obtain me where me: "reply_msg (address_text E loc) RPL_ENDOFNAMES u ''End of NAMES list'' = me @ crlf" "line me"
    by (rule clean_reply [OF c(1) clean_codes(5) c(2,4) e])
  show thesis by (rule that [OF w(1) j(1) mt(1) mn(1) me(1)]) (simp add: w j mt mn me)
qed

text \<open>C2: A client and a server that are connected open a session: if the server's main thread reads from
  the new connection what the client writes (\<open>arrives\<close>), and the client reads what the main thread and
  then the channel's thread write to it, in any chunks of whole lines, then the server hands the user
  over and the channel's thread greets it after the users who waited before; the client, having
  written exactly the lines that the server has read, finds itself registered and in the channel
  that was typed, knows the channel's topic, and prints exactly the names of the users who are then
  in the channel, its own the last; whatever else the channel's thread has written to it stays to be
  read.\<close>

theorem session_opens:
  assumes "arrives E peer loc chunks (arrival_of cl l k) s" and "smap_wf (sv_end_msgs s)"
    and "steady E peer UNIV" and "\<forall>k t. local_ep E t k = Some loc" and "db_up E" and "short_reads E"
    and "traffic_after plain E k (length chunks)"
    and "hashPassword E (u_pass (c_user cl)) = Inr (success, h)"
    and "account E (u_nick (c_user cl)) acc" and "accepts acc h" and "notifier_ok (the_notifier s)"
    and "channel_row E (defaultName (sv_config s)) (channel_typed l) row"
    and "s_channel_name st = channel_typed l" and "awaits peer s st (peer k)"
    and "well_worded E peer loc s st (arrival_of cl l k)" and "clean_user (c_user cl)"
    and "c_sock cl = Some kc" and "delivers F kc replies" and "cin_good cl"
    and "cin cl = l @ CHR 0x0A # left" and "CHR 0x0A \<notin> set l"
    and "c_pending kc replies cl
      = messages_of (heard peer (peer k) (drop (length (trace s)) (trace (snd (admission E s st)))))"
  shows "\<exists>s1 th u cl1 cl2 t q. inner_scope_run E s = (Inr (), s1) \<and> admission E s st = (Inr (), th)
    \<and> s_users th = s_users st @ map fst (queue_of s (channel_typed l)) @ [u]
    \<and> u_nick u = u_nick (c_user cl) \<and> u_endpt u = peer k
    \<and> pass_user_info_to_server F cl = (Inr True, cl1) \<and> enter_channel F cl1 = (Inr (), cl2)
    \<and> trace cl2 = trace cl @ t \<and> fst ` set (sent t) = {kc}
    \<and> messages_of (concat (map snd (sent t))) = arrival_lines (arrival_of cl l k)
    \<and> printed t = to_blue ''Welcome\<newline>''
        # joining_prints (channel_typed l) (s_channel_topic st) (names_of (s_users th))
    \<and> c_topic cl2 = s_channel_topic st \<and> c_channel cl2 = channel_typed l
    \<and> c_pending kc replies cl2 = messages_of (addressed (peer k)
        (snd (room_run E (channel_typed l) \<lparr>members = s_users th, topic = s_channel_topic st\<rparr> q)))
    \<and> list_all (\<lambda>(e, x). plain x) q"
proof -
  let ?a = "arrival_of cl l k" and ?c = "channel_typed l"
  obtain u where u: "u = set_channel (ar_chan ?a) (client_of peer ?a h)" by blast
  then have fields: "u_nick u = u_nick (c_user cl)" "u_endpt u = peer k" "u_chan u = ?c"
    by (simp_all add: set_channel_def client_of_def set_endpoint_def user4_def)
  have plain_before: "\<forall>e. list_all plain (smap_get [] (s_end_msgs st) e)"
    "\<forall>(u, ms) \<in> set (queue_of s ?c). list_all plain ms"
    using assms(13,14) by (simp_all add: awaits_def thread_ok_def waiting_for_view)
  obtain s1 th t q where srv: "inner_scope_run E s = (Inr (), s1)" "admission E s st = (Inr (), th)"
    "trace th = trace s @ t"
    "heard peer (peer k) t = answer_to E peer loc ?a True @ join_msg E u
      @ reply_msg (address_text E loc) RPL_TOPIC u (s_channel_topic st)
      @ reply_msg (address_text E loc) RPL_NAMREPLY u (names_of (s_users th))
      @ reply_msg (address_text E loc) RPL_ENDOFNAMES u ''End of NAMES list''
      @ addressed (peer k) (snd (room_run E ?c \<lparr>members = s_users th, topic = s_channel_topic st\<rparr> q))"
    "s_users th = s_users st @ map fst (queue_of s ?c) @ [u]"
    "\<forall>P. traffic_after P E k (length chunks) \<and> (\<forall>e. list_all P (smap_get [] (s_end_msgs st) e))
      \<and> (\<forall>(u, ms) \<in> set (queue_of s ?c). list_all P ms) \<longrightarrow> (\<forall>(e, x) \<in> set q. P x)"
    by (rule server_admits [OF assms(1) _ assms(2-6), of success h acc row st, folded u, unfolded arrival_of_fields])
      (rule refl assms(7-14) that; assumption)+
  let ?later = "addressed (peer k)
      (snd (room_run E ?c \<lparr>members = s_users th, topic = s_channel_topic st\<rparr> q))"
  have users: "s_users th = s_users st @ map fst (queue_of s (ar_chan ?a)) @ [u]" using srv(5) by simp
  obtain w j mt mn me where ls: "answer_to E peer loc ?a True = w @ crlf" "join_msg E u = j @ crlf"
    "reply_msg (address_text E loc) RPL_TOPIC u (s_channel_topic st) = mt @ crlf"
    "reply_msg (address_text E loc) RPL_NAMREPLY u (names_of (s_users th)) = mn @ crlf"
    "reply_msg (address_text E loc) RPL_ENDOFNAMES u ''End of NAMES list'' = me @ crlf"
    "list_all line [w, j, mt, mn, me]"
    by (rule well_worded_lines [OF assms(15) users u])
  have "messages_of (heard peer (peer k) t) = w # j # mt # mn # me # messages_of ?later"
    unfolding srv(4) ls(1-5) using ls(6) by (simp add: messages_of_first_line)
  then have pend: "c_pending kc replies cl = w # j # mt # mn # me # messages_of ?later"
    unfolding assms(22) srv(2) snd_conv srv(3) by simp
  have tok: "token (address_text E loc)" "token (u_nick u)" "CHR '':'' \<notin> set (u_chan u)" "clean ?c"
    using assms(15) fields by (simp_all add: well_worded_def)
  obtain cl1 cl2 t' where cli: "pass_user_info_to_server F cl = (Inr True, cl1)"
    "enter_channel F cl1 = (Inr (), cl2)" "trace cl2 = trace cl @ t'"
    "map snd (sent t') = registration_writes (c_user cl) @ [''JOIN '' @ ?c @ crlf]" "fst ` set (sent t') = {kc}"
    "printed t' = to_blue ''Welcome\<newline>'' # joining_prints ?c (s_channel_topic st) (names_of (s_users th))"
    "c_topic cl2 = s_channel_topic st" "c_channel cl2 = ?c" "c_pending kc replies cl2 = messages_of ?later"
    by (rule client_enters [OF assms(17-21) pend tok(1) assms(16) tok(2,3)
          ls(1) [unfolded answer_to_def arrival_of_fields] ls(3,4)])
  have "messages_of (concat (map snd (sent t'))) = arrival_lines ?a"
    unfolding cli(4) using assms(16) tok(4) by (rule written_lines)
  moreover have "list_all (\<lambda>(e, x). plain x) q" using srv(6) assms(7) plain_before by (auto simp: list_all_iff)
  ultimately show ?thesis using srv(1,2,5) cli fields by blast
qed

section \<open>A session\<close>

text \<open>Carol, whom the database does not know, joins Alice and Bob.\<close>

abbreviation lab_lines :: "string list" where
  "lab_lines \<equiv> [''NICK carol'', ''USER carol * * :Carol'', ''PASS pw'', ''JOIN #lab'']"

definition lab_hall :: env where
  "lab_hall = (lab_door ''secret'')\<lparr>read_some := \<lambda>t k.
     if k = 7 \<and> reads_of 7 t < 1 then lines_text lab_lines else []\<rparr>"

abbreviation lab_arrival_of_carol :: arrival where
  "lab_arrival_of_carol \<equiv> arrival_of (lab_client (''lab'' @ [CHR 0x0A])) ''lab'' 7"

lemma lab_hall_arrives:
  "arrives lab_hall lab_peer (Endpoint 0x7F000001 8080) [lab_lines] lab_arrival_of_carol lab_server"
proof -
  have "list_all line lab_lines" "length (lines_text lab_lines) < BUFF_SIZE"
    by (simp_all add: line_def nul_def lines_text_def crlf_def BUFF_SIZE_def)
  then have "delivers lab_hall 7 [lab_lines]" by (simp add: delivers_def lab_hall_def)
  moreover have "separated '' * * :'' [''USER carol'', ''Carol'']" by (simp add: starts_with_def)
  ultimately show ?thesis
    by (simp add: arrives_def lab_hall_def lab_door_def steady_def pending_def smap_get_def
        arrival_lines_def registration_lines_def channel_typed_def)
qed

lemma lab_hall_works:
  "steady lab_hall lab_peer UNIV" "\<forall>k t. local_ep lab_hall t k = Some (Endpoint 0x7F000001 8080)"
  "short_reads lab_hall" "traffic_after (\<lambda>_. False) lab_hall 7 (length [lab_lines])"
  "hashPassword lab_hall ''pw'' = Inr (True, lab_hash ''pw'')" "account lab_hall ''carol'' None"
  "channel_row lab_hall ''lab'' ''#lab'' None" "db_up lab_hall"
proof -
  have "length (lines_text lab_lines) < BUFF_SIZE" by (simp add: lines_text_def crlf_def BUFF_SIZE_def)
  then show "short_reads lab_hall" by (simp add: short_reads_def lab_hall_def BUFF_SIZE_def)
  show "hashPassword lab_hall ''pw'' = Inr (True, lab_hash ''pw'')"
  proof -
    have "convert_all lab_hall (replicate n c) = Inr (replicate n (char_of c))" if "c < 256" for n c
      using that by (induction n) (simp_all add: convertChar_def lab_hall_def lab_door_def)
    then show ?thesis by (simp add: hashPassword_def lab_hash_def lab_hall_def lab_door_def)
  qed
qed (auto simp: lab_hall_def lab_door_def steady_def traffic_after_def account_def channel_row_def db_up_def
    lab_quote_def q_checkUserExists_def q_password_def q_checkChannelExists_def q_now_def)

lemma lab_hall_awaits: "awaits lab_peer lab_server (lab_servlet []) (lab_peer 7)"
proof -
  have d: "distinct (map lab_peer [2, 3, 7])" by (simp add: lab_peer_def)
  then have "servlet_ok lab_peer (lab_servlet [])" by (auto simp: servlet_ok_def)
  with d show ?thesis
    by (auto simp: awaits_def thread_ok_def admissible_def waiting_for_view queue_of_def smap_get_def)
qed

text \<open>What the server writes to Carol.\<close>

abbreviation lab_replies :: "string list" where
  "lab_replies \<equiv> [''127.0.0.1 001 carol :Welcome to the Internet Relay Network carol!carol@127.0.0.1'',
     ''carol!carol@127.0.0.1 JOIN #lab'', ''127.0.0.1 332 carol #lab :start'',
     ''127.0.0.1 252 carol #lab :@alice @bob @carol '', ''127.0.0.1 366 carol #lab :End of NAMES list'']"

lemma lab_hall_heard:
  "messages_of (heard lab_peer (lab_peer 7)
     (drop (length (trace lab_server)) (trace (snd (admission lab_hall lab_server (lab_servlet [])))))) = lab_replies"
proof -
  let ?u = "set_channel ''#lab'' (client_of lab_peer lab_arrival_of_carol (lab_hash ''pw''))"
  have plain: "traffic_after plain lab_hall 7 (length [lab_lines])"
    using lab_hall_works(4) by (auto simp: traffic_after_def list_all_iff)
  obtain th t q where run: "admission lab_hall lab_server (lab_servlet []) = (Inr (), th)"
    "trace th = trace lab_server @ t"
    "heard lab_peer (lab_peer 7) t = answer_to lab_hall lab_peer (Endpoint 0x7F000001 8080) lab_arrival_of_carol True
      @ join_msg lab_hall ?u @ reply_msg (address_text lab_hall (Endpoint 0x7F000001 8080)) RPL_TOPIC ?u ''start''
      @ reply_msg (address_text lab_hall (Endpoint 0x7F000001 8080)) RPL_NAMREPLY ?u (names_of (s_users th))
      @ reply_msg (address_text lab_hall (Endpoint 0x7F000001 8080)) RPL_ENDOFNAMES ?u ''End of NAMES list''
      @ addressed (lab_peer 7) (snd (room_run lab_hall ''#lab'' \<lparr>members = s_users th, topic = ''start''\<rparr> q))"
    "s_users th = [lab_user ''alice'' 2, lab_user ''bob'' 3, ?u]" "\<forall>(e, x) \<in> set q. False"
    by (rule server_admits [OF lab_hall_arrives _ _ lab_hall_works(1,2,8,3), of True "lab_hash ''pw''" None None
          "lab_servlet []"])
      (use plain lab_hall_works lab_hall_awaits lab_notifier_ok in
        \<open>auto simp: the_notifier_def lab_server_def channel_typed_def accepts_def queue_of_def smap_get_def\<close>)
  have "q = []" using run(5) by (cases q) auto
  then have "heard lab_peer (lab_peer 7) t = lines_text lab_replies"
    unfolding run(3,4)
    by (simp add: answer_to_def welcome_msg_def reply_of_def reply_codes join_msg_def prefix_of_def reply_msg_def
        names_of_def lines_text_def address_text_def lab_hall_def lab_door_def set_channel_def client_of_def
        set_endpoint_def user4_def channel_typed_def)
  moreover have "list_all line lab_replies" by (simp add: line_def nul_def)
  ultimately show ?thesis
    using messages_of_first_lines [of lab_replies "[]"] run(1,2) by simp
qed

lemma session_opens_witness:
  "\<exists>th cl1 cl2. admission lab_hall lab_server (lab_servlet []) = (Inr (), th)
     \<and> map u_nick (s_users th) = [''alice'', ''bob'', ''carol'']
     \<and> pass_user_info_to_server (lab_feed lab_replies) (lab_client (''lab'' @ [CHR 0x0A])) = (Inr True, cl1)
     \<and> enter_channel (lab_feed lab_replies) cl1 = (Inr (), cl2)
     \<and> c_topic cl2 = ''start'' \<and> c_channel cl2 = ''#lab''"
proof -
  let ?cl = "lab_client (''lab'' @ [CHR 0x0A])"
  have "list_all line lab_replies" "length (lines_text lab_replies) < BUFF_SIZE"
    by (simp_all add: line_def nul_def lines_text_def crlf_def BUFF_SIZE_def)
  then have replies: "delivers (lab_feed lab_replies) 4 [lab_replies]" by (intro lab_feed_delivers) simp_all
  have plain: "traffic_after plain lab_hall 7 (length [lab_lines])"
    using lab_hall_works(4) by (auto simp: traffic_after_def list_all_iff)
  have words: "well_worded lab_hall lab_peer (Endpoint 0x7F000001 8080) lab_server (lab_servlet []) lab_arrival_of_carol"
    "clean_user (c_user ?cl)"
    by (simp_all add: well_worded_def clean_user_def token_def address_text_def lab_hall_def lab_door_def nul_def
        channel_typed_def queue_of_def smap_get_def)
  have pending: "c_pending 4 [lab_replies] ?cl = messages_of (heard lab_peer (lab_peer 7)
      (drop (length (trace lab_server)) (trace (snd (admission lab_hall lab_server (lab_servlet []))))))"
    unfolding lab_hall_heard by (simp add: c_pending_def)
  have rest: "hashPassword lab_hall (u_pass (c_user ?cl)) = Inr (True, lab_hash ''pw'')"
    "account lab_hall (u_nick (c_user ?cl)) None" "accepts None (lab_hash ''pw'')"
    "notifier_ok (the_notifier lab_server)"
    "channel_row lab_hall (defaultName (sv_config lab_server)) (channel_typed ''lab'') None"
    "s_channel_name (lab_servlet []) = channel_typed ''lab''" "smap_wf (sv_end_msgs lab_server)"
    using lab_hall_works(5-7) lab_notifier_ok
    by (simp_all add: accepts_def channel_typed_def the_notifier_def lab_server_def)
  obtain th u cl1 cl2 where
    "admission lab_hall lab_server (lab_servlet []) = (Inr (), th)"
    "s_users th = s_users (lab_servlet []) @ map fst (queue_of lab_server (channel_typed ''lab'')) @ [u]"
    "u_nick u = u_nick (c_user ?cl)" "pass_user_info_to_server (lab_feed lab_replies) ?cl = (Inr True, cl1)"
    "enter_channel (lab_feed lab_replies) cl1 = (Inr (), cl2)" "c_topic cl2 = s_channel_topic (lab_servlet [])"
    "c_channel cl2 = channel_typed ''lab''"
    using session_opens [OF lab_hall_arrives rest(7) lab_hall_works(1,2,8,3) plain rest(1-6) lab_hall_awaits words
        _ replies _ _ _ pending, of "[]"] by auto
  then show ?thesis by (auto simp: channel_typed_def queue_of_def smap_get_def)
qed

end
