(* ===== verification/Client_Loop.thy ===== *)
theory Client_Loop
  imports Client_Session
begin

text \<open>
  The client's main loop on whole inputs: what it sends for the lines that are typed, that EXIT ends
  it, and what it does when the input ends without EXIT.
\<close>

section \<open>Listening\<close>

text \<open>
  A message that the client can show whatever its state is; and a server that sends only such
  messages, in reads that do not fill the buffer.
\<close>

definition shows_msg :: "string \<Rightarrow> bool" where
  "shows_msg m \<longleftrightarrow> (\<forall>s. \<exists>c t. parse_session_msg m s = (Inr (), s\<lparr>c_topic := c, trace := trace s @ t\<rparr>)
     \<and> sent t = [])"

definition calm :: "env \<Rightarrow> sock \<Rightarrow> bool" where
  "calm E k \<longleftrightarrow> (\<forall>t. (\<exists>n. avail E t k = Some n) \<and> length (read_some E t k) < BUFF_SIZE
     \<and> list_all shows_msg (messages_of (read_some E t k)))"

lemma lab_calm: "calm lab_env k"
  by (simp add: calm_def BUFF_SIZE_def)

lemma shows_priv:
  assumes "readable E u" and "CHR '':'' \<notin> set chan"
  shows "shows_msg ('':'' @ prefix_of E u @ '' PRIVMSG '' @ chan @ '' :'' @ l)"
proof -
  let ?p = "Ev_print (to_magenta (u_nick u @ '': '' @ l @ ''\<newline>''))"
  have "s\<lparr>trace := trace s @ [?p]\<rparr> = s\<lparr>c_topic := c_topic s, trace := trace s @ [?p]\<rparr>" for s :: client
    by simp
  then show ?thesis
    unfolding shows_msg_def priv_shown [OF assms]
    by (intro allI, rule_tac x = "c_topic s" in exI) fastforce
qed

lemma run_show_all:
  "list_all shows_msg ms \<Longrightarrow>
     \<exists>c t. for_each parse_session_msg ms s = (Inr (), s\<lparr>c_topic := c, trace := trace s @ t\<rparr>) \<and> sent t = []"
proof (induction ms arbitrary: s)
  case Nil
  show ?case
    by (rule exI [of _ "c_topic s"], rule exI [of _ "[]"]) (simp add: run)
next
  case (Cons m ms)
  then obtain c t where m: "parse_session_msg m s = (Inr (), s\<lparr>c_topic := c, trace := trace s @ t\<rparr>)"
    "sent t = []"
    unfolding shows_msg_def by (simp only: list_all_iff list.set insert_iff) blast
  obtain c' t' where "for_each parse_session_msg ms (s\<lparr>c_topic := c, trace := trace s @ t\<rparr>)
      = (Inr (), s\<lparr>c_topic := c', trace := trace s @ t @ t'\<rparr>)" "sent t' = []"
    using Cons.IH [of "s\<lparr>c_topic := c, trace := trace s @ t\<rparr>"] Cons.prems by auto
  with m show ?case
    by (intro exI [of _ c'] exI [of _ "t @ t'"]) (simp add: run)
qed

lemma run_client_update:
  assumes "calm E k" and "c_sock s = Some k" and "c_sock_msgs s = []"
  obtains q t where "client_update E s = (Inr (), s\<lparr>c_sock_msgs := q, trace := trace s @ t\<rparr>)"
    and "list_all shows_msg q" and "sent t = []"
proof -
  let ?t = "trace s @ [Ev_available k]"
  obtain n where n: "avail E (trace s) k = Some n" using assms(1) by (auto simp: calm_def)
  have rd: "length (read_some E ?t k) < BUFF_SIZE" "list_all shows_msg (messages_of (read_some E ?t k))"
    using assms(1) by (simp_all add: calm_def)
  show thesis
  proof (cases "n = 0")
    case True
    then show thesis
      using n assms(2,3) that [of "[Ev_available k]" "[]"]
      by (simp add: client_update_def update_sockmsgs_def run run_the_sock available_def)
  next
    case False
    then show thesis
      using n assms(2,3) rd that [of "[Ev_available k, Ev_read k]" "messages_of (read_some E ?t k)"]
      by (simp add: client_update_def update_sockmsgs_def run run_the_sock available_def
          run_read_messages)
  qed
qed

text \<open>An iteration up to the prompt.\<close>

lemma client_iter_listens:
  assumes "calm E k" and "c_sock s = Some k" and "c_sock_msgs s = []"
  obtains c t where "client_iter E e u s = bindE (getline u) (\<lambda>u'. bindE (parse_user_input E u')
      (\<lambda>cc. thenE (if cc = switching then rejoin E e else ret ()) (ret (cc, u'))))
      (s\<lparr>c_topic := c, trace := trace s @ t\<rparr>)" and "sent t = []"
proof -
  obtain q t where q: "client_update E s = (Inr (), s\<lparr>c_sock_msgs := q, trace := trace s @ t\<rparr>)"
    "list_all shows_msg q" "sent t = []"
    by (rule run_client_update [OF assms])
  obtain c t' where c: "for_each parse_session_msg q (s\<lparr>c_sock_msgs := q, trace := trace s @ t\<rparr>)
      = (Inr (), s\<lparr>c_sock_msgs := q, c_topic := c, trace := trace s @ t @ t'\<rparr>)" "sent t' = []"
    using run_show_all [OF q(2), of "s\<lparr>c_sock_msgs := q, trace := trace s @ t\<rparr>"] by auto
  let ?p = "Ev_print (to_cyan (u_nick (c_user s) @ '': ''))"
  have same: "s\<lparr>c_sock_msgs := []\<rparr> = s" using assms(3) by (cases s) simp
  have "s\<lparr>c_sock_msgs := [], c_topic := c, trace := T\<rparr> = s\<lparr>c_topic := c, trace := T\<rparr>" for T
    by (subst same) simp
  then show thesis
    using q(1) c that [of "t @ t' @ [?p]" c] q(3)
    by (simp add: client_iter_def run print_out_def)
qed

section \<open>Commands\<close>

text \<open>What is sent for a typed line that is neither EXIT nor LEAVE nor TOPIC.\<close>

definition typed_sends :: "string \<Rightarrow> string \<Rightarrow> string list" where
  "typed_sends chan l =
     (if l = [] \<or> l = ''HELP'' then [] else [''PRIVMSG '' @ chan @ '' :'' @ l @ crlf])"

lemma run_typed:
  assumes "l \<notin> {''EXIT'', ''LEAVE'', ''TOPIC''}" and "c_sock s = Some k"
  obtains t where "parse_user_input E l s = (Inr not_quitting, s\<lparr>trace := trace s @ t\<rparr>)"
    and "sent t = map (Pair k) (typed_sends (u_chan (c_user s)) l)"
proof (cases "said_line l")
  case True
  then have "typed_sends (u_chan (c_user s)) l = [''PRIVMSG '' @ u_chan (c_user s) @ '' :'' @ l @ crlf]"
    by (simp add: typed_sends_def said_line_def)
  with run_said [OF True assms(2), of E] that show thesis by simp
next
  case False
  then consider "l = []" | "l = ''HELP''" using assms(1) by (auto simp: said_line_def)
  then show thesis
  proof cases
    case 1
    then show thesis using that [of "[]"] by (simp add: parse_user_input_def run typed_sends_def)
  next
    case 2
    then show thesis using that [of "[Ev_print (to_blue help_text)]"]
      by (simp add: parse_user_input_def run typed_sends_def print_out_def)
  qed
qed

lemma run_exit:
  "c_sock s = Some k \<Longrightarrow> parse_user_input E ''EXIT'' s
    = (Inr quitting, s\<lparr>trace := trace s @ [Ev_write k (''PART '' @ u_chan (c_user s) @ crlf)]\<rparr>)"
  by (simp add: parse_user_input_def run run_client_writing)

section \<open>A whole session\<close>

text \<open>One iteration that reads the line \<open>l\<close>.\<close>

lemma client_iter_line:
  assumes "calm E k" and "c_sock s = Some k" and "c_sock_msgs s = []" and "cin_good s"
    and "cin s = l @ CHR 0x0A # left" and "CHR 0x0A \<notin> set l"
  obtains c t where "client_iter E e u s = bindE (parse_user_input E l)
      (\<lambda>cc. thenE (if cc = switching then rejoin E e else ret ()) (ret (cc, l)))
      (s\<lparr>c_topic := c, trace := trace s @ t, cin := left\<rparr>)" and "sent t = []"
proof -
  obtain c t where c: "client_iter E e u s = bindE (getline u) (\<lambda>u'. bindE (parse_user_input E u')
      (\<lambda>cc. thenE (if cc = switching then rejoin E e else ret ()) (ret (cc, u'))))
      (s\<lparr>c_topic := c, trace := trace s @ t\<rparr>)" "sent t = []"
    by (rule client_iter_listens [OF assms(1-3)])
  have "getline u (s\<lparr>c_topic := c, trace := trace s @ t\<rparr>)
      = (Inr l, s\<lparr>c_topic := c, trace := trace s @ t, cin := left\<rparr>)"
    by (rule run_getline) (use assms(4-6) in simp_all)
  with c that show thesis by (simp add: run_bind_Inr)
qed

lemma typed_iter:
  assumes "calm E k" and "c_sock s = Some k" and "c_sock_msgs s = []" and "cin_good s"
    and "cin s = l @ CHR 0x0A # left" and "CHR 0x0A \<notin> set l" and "l \<notin> {''EXIT'', ''LEAVE'', ''TOPIC''}"
  obtains s' t where "client_iter E e u s = (Inr (not_quitting, l), s')"
    and "c_sock s' = Some k" and "c_sock_msgs s' = []" and "cin_good s'" and "cin s' = left"
    and "c_user s' = c_user s" and "trace s' = trace s @ t"
    and "sent t = map (Pair k) (typed_sends (u_chan (c_user s)) l)"
proof -
  obtain c t where it: "client_iter E e u s = bindE (parse_user_input E l)
      (\<lambda>cc. thenE (if cc = switching then rejoin E e else ret ()) (ret (cc, l)))
      (s\<lparr>c_topic := c, trace := trace s @ t, cin := left\<rparr>)" "sent t = []"
    by (rule client_iter_line [OF assms(1-6), of e u])
  let ?s1 = "s\<lparr>c_topic := c, trace := trace s @ t, cin := left\<rparr>"
  have "c_sock ?s1 = Some k" using assms(2) by simp
  then obtain t1 where t1: "parse_user_input E l ?s1 = (Inr not_quitting, ?s1\<lparr>trace := trace ?s1 @ t1\<rparr>)"
    "sent t1 = map (Pair k) (typed_sends (u_chan (c_user ?s1)) l)"
    by (rule run_typed [OF assms(7), of ?s1 k E])
  show thesis
    by (rule that [of "?s1\<lparr>trace := trace ?s1 @ t1\<rparr>" "t @ t1"]) (use it t1 assms in \<open>simp_all add: run\<close>)
qed

definition typed_text :: "string list \<Rightarrow> string" where
  "typed_text ls = concat (map (\<lambda>l. l @ [CHR 0x0A]) ls)"

text \<open>C16: A session does what is typed and ends with EXIT: for a server that sends only messages the
  client can show, and typed lines that are neither TOPIC nor LEAVE, the main loop returns, sends one
  PRIVMSG for every line that is neither empty nor HELP, in the order in which they were typed, then
  one PART, and nothing else, and reads no further than the line EXIT.\<close>

theorem session_sends_typed:
  assumes "calm E k" and "c_sock s = Some k" and "c_sock_msgs s = []" and "cin_good s"
    and "cin s = typed_text (ls @ [''EXIT'']) @ left"
    and "\<forall>l \<in> set ls. CHR 0x0A \<notin> set l \<and> l \<notin> {''EXIT'', ''LEAVE'', ''TOPIC''}"
  shows "\<exists>s' t. client_loop E e not_quitting u s = Some (Inr (), s') \<and> trace s' = trace s @ t
    \<and> sent t = map (Pair k) (concat (map (typed_sends (u_chan (c_user s))) ls)
        @ [''PART '' @ u_chan (c_user s) @ crlf])
    \<and> cin s' = left"
  using assms(2-6)
proof (induction ls arbitrary: s u)
  case Nil
  have in0: "cin s = ''EXIT'' @ CHR 0x0A # left" using Nil by (simp add: typed_text_def)
  obtain c t where it: "client_iter E e u s = bindE (parse_user_input E ''EXIT'')
      (\<lambda>cc. thenE (if cc = switching then rejoin E e else ret ()) (ret (cc, ''EXIT'')))
      (s\<lparr>c_topic := c, trace := trace s @ t, cin := left\<rparr>)" "sent t = []"
    by (rule client_iter_line [OF assms(1) Nil(1-3) in0, of e u]) simp
  then have "client_loop E e not_quitting u s = Some (Inr (), s\<lparr>c_topic := c, cin := left,
      trace := trace s @ t @ [Ev_write k (''PART '' @ u_chan (c_user s) @ crlf)]\<rparr>)"
    using Nil(1) by (simp add: client_loop.simps [of E e not_quitting] client_loop.simps [of E e quitting]
        run run_exit)
  with it(2) show ?case
    by (intro exI [of _ "s\<lparr>c_topic := c, cin := left, trace := trace s @ t
        @ [Ev_write k (''PART '' @ u_chan (c_user s) @ crlf)]\<rparr>"]
      exI [of _ "t @ [Ev_write k (''PART '' @ u_chan (c_user s) @ crlf)]"]) simp
next
  case (Cons l ls)
  have in0: "cin s = l @ CHR 0x0A # (typed_text (ls @ [''EXIT'']) @ left)"
    using Cons.prems(4) by (simp add: typed_text_def)
  have l: "CHR 0x0A \<notin> set l" "l \<notin> {''EXIT'', ''LEAVE'', ''TOPIC''}"
    using Cons.prems(5) by simp_all
  obtain s1 t1 where s1: "client_iter E e u s = (Inr (not_quitting, l), s1)"
    "c_sock s1 = Some k" "c_sock_msgs s1 = []" "cin_good s1" "cin s1 = typed_text (ls @ [''EXIT'']) @ left"
    "c_user s1 = c_user s" "trace s1 = trace s @ t1"
    "sent t1 = map (Pair k) (typed_sends (u_chan (c_user s)) l)"
    by (rule typed_iter [OF assms(1) Cons.prems(1-3) in0 l])
  have step: "client_loop E e not_quitting u s = client_loop E e not_quitting l s1"
    by (simp add: client_loop.simps [of E e not_quitting u] s1(1))
  obtain s' t2 where "client_loop E e not_quitting l s1 = Some (Inr (), s')" "trace s' = trace s1 @ t2"
    "sent t2 = map (Pair k) (concat (map (typed_sends (u_chan (c_user s1))) ls)
        @ [''PART '' @ u_chan (c_user s1) @ crlf])" "cin s' = left"
    using Cons.IH [OF s1(2-5), of l] Cons.prems(5) by auto
  with step s1(6-8) show ?case
    by (intro exI [of _ s'] exI [of _ "t1 @ t2"]) simp
qed

lemma session_sends_typed_witness:
  "\<exists>s'. client_loop lab_env (lab_peer 2) not_quitting [] (lab_client (typed_text [''hi'', [], ''HELP'', ''EXIT'']))
     = Some (Inr (), s') \<and> sent (trace s') = [(4, ''PRIVMSG #lab :hi'' @ crlf), (4, ''PART #lab'' @ crlf)]"
  using session_sends_typed [OF lab_calm, of "lab_client (typed_text [''hi'', [], ''HELP'', ''EXIT''])" 4
      "[''hi'', [], ''HELP'']" "[]" "lab_peer 2" "[]"]
  by (auto simp: typed_sends_def)

section \<open>The end of the input\<close>

definition client_iters_body :: "env \<Rightarrow> endpoint \<Rightarrow> string \<Rightarrow> (client, string) cmd" where
  "client_iters_body E e u = bindE (client_iter E e u) (\<lambda>(cc, u'). ret u')"

text \<open>\<open>n\<close> iterations of the loop that do not end it.\<close>

fun client_iters :: "env \<Rightarrow> endpoint \<Rightarrow> nat \<Rightarrow> string \<Rightarrow> (client, string) cmd" where
  "client_iters E e 0 u = ret u"
| "client_iters E e (Suc n) u = bindE (client_iters_body E e u) (client_iters E e n)"

text \<open>The stream is used up and the variable that \<open>getline\<close> no longer changes holds no word that ends the loop.\<close>

definition stuck :: "env \<Rightarrow> sock \<Rightarrow> string \<Rightarrow> client \<Rightarrow> bool" where
  "stuck E k u s \<longleftrightarrow> calm E k \<and> c_sock s = Some k \<and> c_sock_msgs s = [] \<and> \<not> cin_good s
     \<and> u \<notin> {''EXIT'', ''LEAVE''}"

lemma getline_bad: "\<not> cin_good s \<Longrightarrow> getline u s = (Inr u, s)"
  by (simp add: getline_def run)

lemma run_stuck_input:
  assumes "\<not> cin_good s" and "c_sock s = Some k" and "u \<notin> {''EXIT'', ''LEAVE''}"
  obtains t where "parse_user_input E u s = (Inr not_quitting, s\<lparr>trace := trace s @ t\<rparr>)"
    and "u \<noteq> ''TOPIC'' \<longrightarrow> sent t = map (Pair k) (typed_sends (u_chan (c_user s)) u)"
proof (cases "u = ''TOPIC''")
  case False
  with assms(3) have u: "u \<notin> {''EXIT'', ''LEAVE'', ''TOPIC''}" by simp
  show thesis
    by (rule run_typed [OF u assms(2), of E]) (use that in blast)
next
  case True
  then show thesis
    using assms(1) that [of "[Ev_print (to_blue (banner @ ''Do you want to SHOW or SET the topic?\<newline>''
        @ ''Type SHOW or SET for the respective option\<newline>'')),
      Ev_print (to_blue ''Sorry that wasn't an option\<newline>'')]"]
    by (simp add: parse_user_input_def handle_topic_request_def run print_out_def getline_bad)
qed

lemma stuck_iter:
  assumes "stuck E k u s"
  obtains s' t where "client_iter E e u s = (Inr (not_quitting, u), s')" and "stuck E k u s'"
    and "c_user s' = c_user s" and "trace s' = trace s @ t"
    and "u \<noteq> ''TOPIC'' \<longrightarrow> sent t = map (Pair k) (typed_sends (u_chan (c_user s)) u)"
proof -
  have s: "calm E k" "c_sock s = Some k" "c_sock_msgs s = []" "\<not> cin_good s" "u \<notin> {''EXIT'', ''LEAVE''}"
    using assms by (simp_all add: stuck_def)
  obtain c t where it: "client_iter E e u s = bindE (getline u) (\<lambda>u'. bindE (parse_user_input E u')
      (\<lambda>cc. thenE (if cc = switching then rejoin E e else ret ()) (ret (cc, u'))))
      (s\<lparr>c_topic := c, trace := trace s @ t\<rparr>)" "sent t = []"
    by (rule client_iter_listens [OF s(1-3)])
  let ?s1 = "s\<lparr>c_topic := c, trace := trace s @ t\<rparr>"
  have "\<not> cin_good ?s1" "c_sock ?s1 = Some k" using s(2,4) by simp_all
  then obtain t1 where t1: "parse_user_input E u ?s1 = (Inr not_quitting, ?s1\<lparr>trace := trace ?s1 @ t1\<rparr>)"
    "u \<noteq> ''TOPIC'' \<longrightarrow> sent t1 = map (Pair k) (typed_sends (u_chan (c_user ?s1)) u)"
    by (rule run_stuck_input [OF _ _ s(5), of ?s1 k E])
  let ?s2 = "?s1\<lparr>trace := trace ?s1 @ t1\<rparr>"
  have "client_iter E e u s = (Inr (not_quitting, u), ?s2)"
    using it(1) t1(1) s(4) by (simp add: run getline_bad)
  moreover have "stuck E k u ?s2" using assms by (simp add: stuck_def)
  ultimately show thesis
    using that [of ?s2 "t @ t1"] it(2) t1(2) by simp
qed

lemma stuck_never_returns: "client_loop E e cc u s = Some y \<Longrightarrow> cc \<noteq> quitting \<Longrightarrow> \<not> stuck E k u s"
proof (induction E e cc u s y rule: client_loop.raw_induct [rotated 1, consumes 1, case_names step])
  case (step loop E e cc u s y)
  show ?case
  proof
    assume st: "stuck E k u s"
    obtain s' where s': "client_iter E e u s = (Inr (not_quitting, u), s')" "stuck E k u s'"
      by (rule stuck_iter [OF st])
    then have more: "loop E e not_quitting u s' = Some y" using step by auto
    then have "\<not> stuck E k u s'" by (rule step(1)) simp
    with s'(2) show False by blast
  qed
qed

lemma stuck_iters:
  "stuck E k u s \<Longrightarrow> u \<noteq> ''TOPIC'' \<Longrightarrow>
     \<exists>s' t. client_iters E e n u s = (Inr u, s') \<and> trace s' = trace s @ t
       \<and> sent t = concat (replicate n (map (Pair k) (typed_sends (u_chan (c_user s)) u)))"
proof (induction n arbitrary: s)
  case 0
  then show ?case by (simp add: run)
next
  case (Suc n)
  obtain s1 t1 where s1: "client_iter E e u s = (Inr (not_quitting, u), s1)" "stuck E k u s1"
    "c_user s1 = c_user s" "trace s1 = trace s @ t1"
    "sent t1 = map (Pair k) (typed_sends (u_chan (c_user s)) u)"
    by (rule stuck_iter [OF Suc.prems(1)]) (use Suc.prems(2) in blast)
  obtain s' t where "client_iters E e n u s1 = (Inr u, s')" "trace s' = trace s1 @ t"
    "sent t = concat (replicate n (map (Pair k) (typed_sends (u_chan (c_user s1)) u)))"
    using Suc.IH [OF s1(2) Suc.prems(2)] by blast
  with s1 show ?case
    by (intro exI [of _ s'] exI [of _ "t1 @ t"]) (simp add: client_iters_body_def run)
qed

text \<open>The iteration that reaches the end of the input leads to a stuck state.\<close>

lemma last_line_stuck:
  assumes "calm E k" and "c_sock s = Some k" and "c_sock_msgs s = []" and "cin_good s"
    and "CHR 0x0A \<notin> set (cin s)" and "cin s \<notin> {''EXIT'', ''LEAVE''}"
  obtains s' t where "client_iter E e u s = (Inr (not_quitting, cin s), s')" and "stuck E k (cin s) s'"
    and "c_user s' = c_user s" and "trace s' = trace s @ t"
    and "cin s \<noteq> ''TOPIC'' \<longrightarrow> sent t = map (Pair k) (typed_sends (u_chan (c_user s)) (cin s))"
proof -
  let ?l = "cin s"
  obtain c t where it: "client_iter E e u s = bindE (getline u) (\<lambda>u'. bindE (parse_user_input E u')
      (\<lambda>cc. thenE (if cc = switching then rejoin E e else ret ()) (ret (cc, u'))))
      (s\<lparr>c_topic := c, trace := trace s @ t\<rparr>)" "sent t = []"
    by (rule client_iter_listens [OF assms(1-3)])
  let ?s1 = "s\<lparr>c_topic := c, trace := trace s @ t, cin := [], cin_good := False\<rparr>"
  have get: "getline u (s\<lparr>c_topic := c, trace := trace s @ t\<rparr>) = (Inr ?l, ?s1)"
    using assms(4) find_idx_char_None [of "CHR 0x0A" ?l] assms(5) by (simp add: getline_def run)
  have "\<not> cin_good ?s1" "c_sock ?s1 = Some k" using assms(2) by simp_all
  then obtain t1 where t1: "parse_user_input E ?l ?s1 = (Inr not_quitting, ?s1\<lparr>trace := trace ?s1 @ t1\<rparr>)"
    "?l \<noteq> ''TOPIC'' \<longrightarrow> sent t1 = map (Pair k) (typed_sends (u_chan (c_user ?s1)) ?l)"
    by (rule run_stuck_input [OF _ _ assms(6), of ?s1 k E])
  let ?s2 = "?s1\<lparr>trace := trace ?s1 @ t1\<rparr>"
  have "client_iter E e u s = (Inr (not_quitting, ?l), ?s2)"
    by (simp only: it(1) run_bind get t1(1) run_then run_ret prod.case sum.case) (simp add: run)
  moreover have "stuck E k ?l ?s2" using assms by (simp add: stuck_def)
  ultimately show thesis
    using that [of ?s2 "t @ t1"] it(2) t1(2) by simp
qed

lemma replicate_concat: "concat (replicate m [x]) = replicate m x"
  by (induction m) simp_all

text \<open>What is left of the input after its last newline.\<close>

lemma last_line_repeats:
  assumes "calm E k" and "c_sock s = Some k" and "c_sock_msgs s = []" and "cin_good s"
    and "CHR 0x0A \<notin> set (cin s)" and "cin s \<notin> {''EXIT'', ''LEAVE''}"
  shows "client_loop E e not_quitting u s = None"
    and "said_line (cin s) \<Longrightarrow> \<exists>s' t. client_iters E e (Suc n) u s = (Inr (cin s), s')
        \<and> trace s' = trace s @ t
        \<and> sent t = replicate (Suc n) (k, ''PRIVMSG '' @ u_chan (c_user s) @ '' :'' @ cin s @ crlf)"
proof -
  let ?l = "cin s"
  obtain s1 t1 where s1: "client_iter E e u s = (Inr (not_quitting, ?l), s1)" "stuck E k ?l s1"
    "c_user s1 = c_user s" "trace s1 = trace s @ t1"
    "?l \<noteq> ''TOPIC'' \<longrightarrow> sent t1 = map (Pair k) (typed_sends (u_chan (c_user s)) ?l)"
    by (rule last_line_stuck [OF assms])
  have "client_loop E e not_quitting ?l s1 = None"
    using stuck_never_returns [of E e not_quitting ?l s1] s1(2) by (cases "client_loop E e not_quitting ?l s1") auto
  then show "client_loop E e not_quitting u s = None"
    using s1(1) by (simp add: client_loop.simps [of E e not_quitting u s])
  assume said: "said_line ?l"
  have l: "?l \<noteq> ''TOPIC''" "typed_sends c ?l = [''PRIVMSG '' @ c @ '' :'' @ ?l @ crlf]" for c
    using said by (auto simp: said_line_def typed_sends_def)
  obtain s' t where "client_iters E e n ?l s1 = (Inr ?l, s')" "trace s' = trace s1 @ t"
    "sent t = concat (replicate n (map (Pair k) (typed_sends (u_chan (c_user s1)) ?l)))"
    using stuck_iters [OF s1(2) l(1)] by blast
  then show "\<exists>s' t. client_iters E e (Suc n) u s = (Inr ?l, s') \<and> trace s' = trace s @ t
      \<and> sent t = replicate (Suc n) (k, ''PRIVMSG '' @ u_chan (c_user s) @ '' :'' @ ?l @ crlf)"
    using s1 l by (intro exI [of _ s'] exI [of _ "t1 @ t"]) (simp add: client_iters_body_def run replicate_concat)
qed

text \<open>C20: If the input ends without EXIT the client never ends: for a server that sends only messages the
  client can show (\<open>calm\<close>), and an input of any number of lines other than EXIT, LEAVE and TOPIC
  followed by a rest without a newline (which may be empty) other than EXIT and LEAVE, the main loop
  does not return; and when the rest is a message, every line is sent as in a session that ends, and
  then the rest again in every further iteration, as often as the loop runs, since \<open>getline\<close> fails
  without changing the variable it reads into.\<close>

theorem input_end_never_returns:
  assumes "calm E k" and "c_sock s = Some k" and "c_sock_msgs s = []" and "cin_good s"
    and "cin s = typed_text ls @ left"
    and "\<forall>l \<in> set ls. CHR 0x0A \<notin> set l \<and> l \<notin> {''EXIT'', ''LEAVE'', ''TOPIC''}"
    and "CHR 0x0A \<notin> set left" and "left \<notin> {''EXIT'', ''LEAVE''}"
  shows "client_loop E e not_quitting u s = None
    \<and> (said_line left \<longrightarrow> (\<forall>n. \<exists>s' t. client_iters E e (length ls + Suc n) u s = (Inr left, s')
        \<and> trace s' = trace s @ t
        \<and> sent t = map (Pair k) (concat (map (typed_sends (u_chan (c_user s))) ls))
            @ replicate (Suc n) (k, ''PRIVMSG '' @ u_chan (c_user s) @ '' :'' @ left @ crlf)))"
  using assms(2-6)
proof (induction ls arbitrary: s u)
  case Nil
  then have "cin s = left" by (simp add: typed_text_def)
  with last_line_repeats [OF assms(1) Nil(1-3), where e = e and u = u] assms(7,8) show ?case
    by (simp add: typed_text_def)
next
  case (Cons l ls)
  have in0: "cin s = l @ CHR 0x0A # (typed_text ls @ left)"
    using Cons.prems(4) by (simp add: typed_text_def)
  have l: "CHR 0x0A \<notin> set l" "l \<notin> {''EXIT'', ''LEAVE'', ''TOPIC''}"
    using Cons.prems(5) by simp_all
  obtain s1 t1 where s1: "client_iter E e u s = (Inr (not_quitting, l), s1)"
    "c_sock s1 = Some k" "c_sock_msgs s1 = []" "cin_good s1" "cin s1 = typed_text ls @ left"
    "c_user s1 = c_user s" "trace s1 = trace s @ t1"
    "sent t1 = map (Pair k) (typed_sends (u_chan (c_user s)) l)"
    by (rule typed_iter [OF assms(1) Cons.prems(1-3) in0 l])
  have IH: "client_loop E e not_quitting l s1 = None"
    "said_line left \<Longrightarrow> \<exists>s' t. client_iters E e (length ls + Suc n) l s1 = (Inr left, s') \<and> trace s' = trace s1 @ t
      \<and> sent t = map (Pair k) (concat (map (typed_sends (u_chan (c_user s))) ls))
        @ replicate (Suc n) (k, ''PRIVMSG '' @ u_chan (c_user s) @ '' :'' @ left @ crlf)" for n
    using Cons.IH [OF s1(2-5), of l] Cons.prems(5) unfolding s1(6) by auto
  have first: "client_iters E e (length (l # ls) + Suc n) u s = client_iters E e (length ls + Suc n) l s1" for n
    using client_iters.simps(2) [of E e "length ls + Suc n" u] by (simp add: client_iters_body_def run_bind run_ret s1(1))
  have "client_loop E e not_quitting u s = None"
    using IH(1) by (simp add: client_loop.simps [of E e not_quitting u s] s1(1))
  moreover have "\<exists>s' t. client_iters E e (length (l # ls) + Suc n) u s = (Inr left, s') \<and> trace s' = trace s @ t
      \<and> sent t = map (Pair k) (concat (map (typed_sends (u_chan (c_user s))) (l # ls)))
        @ replicate (Suc n) (k, ''PRIVMSG '' @ u_chan (c_user s) @ '' :'' @ left @ crlf)"
    if said: "said_line left" for n
  proof -
    obtain s' t where "client_iters E e (length ls + Suc n) l s1 = (Inr left, s')" "trace s' = trace s1 @ t"
      "sent t = map (Pair k) (concat (map (typed_sends (u_chan (c_user s))) ls))
        @ replicate (Suc n) (k, ''PRIVMSG '' @ u_chan (c_user s) @ '' :'' @ left @ crlf)"
      using IH(2) [OF said] by blast
    with first s1(7,8) show ?thesis by (intro exI [of _ s'] exI [of _ "t1 @ t"]) simp
  qed
  ultimately show ?case by blast
qed

lemma input_end_never_returns_witness:
  "client_loop lab_env (lab_peer 2) not_quitting [] (lab_client (typed_text [''hi''] @ ''hello'')) = None
   \<and> (\<exists>s' t. client_iters lab_env (lab_peer 2) 3 [] (lab_client (typed_text [''hi''] @ ''hello'')) = (Inr ''hello'', s')
        \<and> trace s' = t \<and> sent t = [(4, ''PRIVMSG #lab :hi'' @ crlf), (4, ''PRIVMSG #lab :hello'' @ crlf),
          (4, ''PRIVMSG #lab :hello'' @ crlf)])"
proof -
  let ?s = "lab_client (typed_text [''hi''] @ ''hello'')"
  have run: "client_loop lab_env (lab_peer 2) not_quitting [] ?s = None
    \<and> (said_line ''hello'' \<longrightarrow> (\<forall>n. \<exists>s' t. client_iters lab_env (lab_peer 2) (length [''hi''] + Suc n) [] ?s = (Inr ''hello'', s')
        \<and> trace s' = trace ?s @ t
        \<and> sent t = map (Pair 4) (concat (map (typed_sends (u_chan (c_user ?s))) [''hi'']))
            @ replicate (Suc n) (4, ''PRIVMSG '' @ u_chan (c_user ?s) @ '' :'' @ ''hello'' @ crlf)))"
    by (rule input_end_never_returns [OF lab_calm]) (simp_all add: typed_text_def)
  have "said_line ''hello''" by (simp add: said_line_def)
  with run obtain s' t where "client_iters lab_env (lab_peer 2) (length [''hi''] + Suc 1) [] ?s = (Inr ''hello'', s')"
    "trace s' = trace ?s @ t"
    "sent t = map (Pair 4) (concat (map (typed_sends (u_chan (c_user ?s))) [''hi'']))
            @ replicate (Suc 1) (4, ''PRIVMSG '' @ u_chan (c_user ?s) @ '' :'' @ ''hello'' @ crlf)"
    by blast
  with run show ?thesis by (simp add: typed_sends_def eval_nat_numeral)
qed

end
