(* ===== verification/Convenience.thy ===== *)
theory Convenience
  imports Chitter Config
begin

text \<open>
  \<open>shared/chitter/convenienceFuncs.h\<close>: every database function once more without its connection, which
  each call opens for itself from the default configuration file. The functions are overloads in the source; here their names end in \<open>_auto\<close>.
\<close>

definition with_connection :: "env \<Rightarrow> load \<Rightarrow> (conn \<Rightarrow> ('z, 'a) io) \<Rightarrow> ('z, 'a) io" where
  "with_connection E load f = bindE (initiate_file E load ''config.xml'') f"

section \<open>The wrappers\<close>

definition getCurrentDatetime_auto :: "env \<Rightarrow> load \<Rightarrow> ('z, string) io" where
  "getCurrentDatetime_auto E load = with_connection E load (\<lambda>connection. getCurrentDatetime E connection)"

definition checkUserExists_auto :: "env \<Rightarrow> load \<Rightarrow> string \<Rightarrow> ('z, bool) io" where
  "checkUserExists_auto E load userID = with_connection E load (\<lambda>connection. checkUserExists E connection userID)"

definition verifyPassword_auto :: "env \<Rightarrow> load \<Rightarrow> string \<Rightarrow> string \<Rightarrow> ('z, bool) io" where
  "verifyPassword_auto E load userID password = with_connection E load (\<lambda>connection. verifyPassword E connection userID password)"

definition updatePassword_auto :: "env \<Rightarrow> load \<Rightarrow> string \<Rightarrow> string \<Rightarrow> ('z, unit) io" where
  "updatePassword_auto E load userID newPassword = with_connection E load (\<lambda>connection. updatePassword E connection userID newPassword)"

definition insertUser_auto :: "env \<Rightarrow> load \<Rightarrow> user \<Rightarrow> ('z, unit) io" where
  "insertUser_auto E load u = with_connection E load (\<lambda>connection. insertUser E connection u)"

definition handleUser_auto :: "env \<Rightarrow> load \<Rightarrow> user \<Rightarrow> ('z, bool) io" where
  "handleUser_auto E load u = with_connection E load (\<lambda>connection. handleUser E connection u)"

definition getBio_auto :: "env \<Rightarrow> load \<Rightarrow> string \<Rightarrow> ('z, string) io" where
  "getBio_auto E load userID = with_connection E load (\<lambda>connection. getBio E connection userID)"

definition updateBio_auto :: "env \<Rightarrow> load \<Rightarrow> string \<Rightarrow> string \<Rightarrow> ('z, unit) io" where
  "updateBio_auto E load userID bio = with_connection E load (\<lambda>connection. updateBio E connection userID bio)"

definition insertLogin_auto :: "env \<Rightarrow> load \<Rightarrow> string \<Rightarrow> endpoint \<Rightarrow> ('z, unit) io" where
  "insertLogin_auto E load userID e = with_connection E load (\<lambda>connection. insertLogin E connection userID e)"

definition checkAlreadyFriends_auto :: "env \<Rightarrow> load \<Rightarrow> string \<Rightarrow> string \<Rightarrow> ('z, bool) io" where
  "checkAlreadyFriends_auto E load friend1ID friend2ID = with_connection E load (\<lambda>connection. checkAlreadyFriends E connection friend1ID friend2ID)"

definition insertFriend_auto :: "env \<Rightarrow> load \<Rightarrow> string \<Rightarrow> string \<Rightarrow> ('z, unit) io" where
  "insertFriend_auto E load userID friendUserID = with_connection E load (\<lambda>connection. insertFriend E connection userID friendUserID)"

definition fetchFriends_auto :: "env \<Rightarrow> load \<Rightarrow> string \<Rightarrow> ('z, string list) io" where
  "fetchFriends_auto E load userID = with_connection E load (\<lambda>connection. fetchFriends E connection userID)"

definition checkServerExists_auto :: "env \<Rightarrow> load \<Rightarrow> string \<Rightarrow> ('z, bool) io" where
  "checkServerExists_auto E load serverName = with_connection E load (\<lambda>connection. checkServerExists E connection serverName)"

definition insertServer_auto :: "env \<Rightarrow> load \<Rightarrow> string \<Rightarrow> ('z, unit) io" where
  "insertServer_auto E load serverName = with_connection E load (\<lambda>connection. insertServer E connection serverName)"

definition insertServerMetadata_auto :: "env \<Rightarrow> load \<Rightarrow> string \<Rightarrow> endpoint \<Rightarrow> ('z, unit) io" where
  "insertServerMetadata_auto E load serverName e = with_connection E load (\<lambda>connection. insertServerMetadata E connection serverName e)"

definition handleServer_auto :: "env \<Rightarrow> load \<Rightarrow> string \<Rightarrow> endpoint \<Rightarrow> ('z, unit) io" where
  "handleServer_auto E load serverName e = with_connection E load (\<lambda>connection. handleServer E connection serverName e)"

definition getServerRoles_auto :: "env \<Rightarrow> load \<Rightarrow> string \<Rightarrow> string \<Rightarrow> ('z, status \<times> string) io" where
  "getServerRoles_auto E load userID serverName = with_connection E load (\<lambda>connection. getServerRoles E connection userID serverName)"

definition insertServerRoles_auto :: "env \<Rightarrow> load \<Rightarrow> string \<Rightarrow> string \<Rightarrow> status \<Rightarrow> string option \<Rightarrow> ('z, unit) io" where
  "insertServerRoles_auto E load userID serverName r displayName = with_connection E load (\<lambda>connection. insertServerRoles E connection userID serverName r displayName)"

definition checkChannelExists_auto :: "env \<Rightarrow> load \<Rightarrow> string \<Rightarrow> string \<Rightarrow> ('z, bool) io" where
  "checkChannelExists_auto E load channelName serverName = with_connection E load (\<lambda>connection. checkChannelExists E connection channelName serverName)"

definition insertChannel_auto :: "env \<Rightarrow> load \<Rightarrow> string \<Rightarrow> string \<Rightarrow> string \<Rightarrow> ('z, unit) io" where
  "insertChannel_auto E load channelName channelTopic serverName = with_connection E load (\<lambda>connection. insertChannel E connection channelName channelTopic serverName)"

definition updateChannelTopic_auto :: "env \<Rightarrow> load \<Rightarrow> string \<Rightarrow> string \<Rightarrow> string \<Rightarrow> ('z, unit) io" where
  "updateChannelTopic_auto E load channelName channelTopic serverName = with_connection E load (\<lambda>connection. updateChannelTopic E connection channelName channelTopic serverName)"

definition getChannelTopic_auto :: "env \<Rightarrow> load \<Rightarrow> string \<Rightarrow> string \<Rightarrow> ('z, string) io" where
  "getChannelTopic_auto E load channelName serverName = with_connection E load (\<lambda>connection. getChannelTopic E connection channelName serverName)"

definition insertMsg_auto :: "env \<Rightarrow> load \<Rightarrow> string \<Rightarrow> string \<Rightarrow> string \<Rightarrow> string \<Rightarrow> ('z, unit) io" where
  "insertMsg_auto E load channelName userID msg serverName = with_connection E load (\<lambda>connection. insertMsg E connection channelName userID msg serverName)"

definition getChannelRoles_auto :: "env \<Rightarrow> load \<Rightarrow> string \<Rightarrow> string \<Rightarrow> string \<Rightarrow> ('z, status) io" where
  "getChannelRoles_auto E load userID channelName serverName = with_connection E load (\<lambda>connection. getChannelRoles E connection userID channelName serverName)"

definition insertChannelRoles_auto :: "env \<Rightarrow> load \<Rightarrow> string \<Rightarrow> string \<Rightarrow> string \<Rightarrow> status \<Rightarrow> ('z, unit) io" where
  "insertChannelRoles_auto E load userID channelName serverName r = with_connection E load (\<lambda>connection. insertChannelRoles E connection userID channelName serverName r)"

lemmas wrapper_defs =
  getCurrentDatetime_auto_def checkUserExists_auto_def verifyPassword_auto_def
  updatePassword_auto_def insertUser_auto_def handleUser_auto_def getBio_auto_def
  updateBio_auto_def insertLogin_auto_def checkAlreadyFriends_auto_def insertFriend_auto_def
  fetchFriends_auto_def checkServerExists_auto_def insertServer_auto_def
  insertServerMetadata_auto_def handleServer_auto_def getServerRoles_auto_def
  insertServerRoles_auto_def checkChannelExists_auto_def insertChannel_auto_def
  updateChannelTopic_auto_def getChannelTopic_auto_def insertMsg_auto_def getChannelRoles_auto_def
  insertChannelRoles_auto_def

section \<open>Opening the connection\<close>

text \<open>
  Each of them runs on a connection of its own that \<open>initiate\<close> has opened, and ends before it executes
  anything when the configuration cannot be read or the database does not answer.
\<close>

lemma with_connection_fails:
  "loadDbConfig load ''config.xml'' = Inl e \<Longrightarrow> with_connection E load f s = (Inl e, s)"
  by (simp add: with_connection_def initiate_file_def run)

lemma with_connection_opens:
  assumes "loadDbConfig load ''config.xml'' = Inr cfg"
  shows "with_connection E load f s = (case db_connect E (trace s) (conninfo cfg) of
      None \<Rightarrow> (Inl Pqxx_error, s\<lparr>trace := trace s @ [Ev_db_connect (conninfo cfg)]\<rparr>)
    | Some c \<Rightarrow> f c (s\<lparr>trace := trace s @ [Ev_db_connect (conninfo cfg)]\<rparr>))"
  using assms by (simp add: with_connection_def initiate_file_def initiate_def run split: option.splits)

end
