(* ===== verification/Entry.thy ===== *)
theory Entry
  imports Client_Loop Convenience
begin

text \<open>
  The two programs' \<open>main\<close> functions, the construction of a \<open>Server\<close> and of a channel's \<open>Servlet\<close> with
  their connections to the database, and the numbers on the command line.
\<close>

section \<open>Numbers\<close>

text \<open>
  \<open>std::stoi\<close>: like \<open>std::stoul\<close>, but a number that does not fit an \<open>int\<close> throws.
\<close>

definition digits_value :: "string \<Rightarrow> nat" where
  "digits_value ds = foldl (\<lambda>n c. 10 * n + (of_char c - 48)) 0 ds"

definition stoi :: "string \<Rightarrow> error + int" where
  "stoi str =
     (let body = dropWhile is_space str;
          sign = (body \<noteq> [] \<and> (hd body = CHR ''-'' \<or> hd body = CHR ''+''));
          digits = takeWhile is_digit (if sign then tl body else body);
          n = (if sign \<and> hd body = CHR ''-'' then - int (digits_value digits) else int (digits_value digits))
      in if digits = [] then Inl (Invalid_argument ''stoi'')
         else if n < - (2 ^ 31) \<or> 2 ^ 31 \<le> n then Inl Out_of_range
         else Inr n)"

section \<open>Constructors\<close>

text \<open>
  \<open>Server()\<close>: the members are initialised in the order of their declaration, the connection before
  the configuration.
\<close>

definition new_server :: "env \<Rightarrow> load \<Rightarrow> (world, server) cmd" where
  "new_server E load =
     bindE (initiate_file E load ''config.xml'') (\<lambda>c.
     bindE (lift (loadServerConfig load ''config.xml'')) (\<lambda>cfg.
     bindE (gets trace) (\<lambda>t.
       ret \<lparr>trace = t, chan_newusers = [], global_socks = [], flags = [], selfdestruct = False,
            sv_end_msgs = [], sv_notify = [], sv_threads = [], sv_conn = c, sv_config = cfg\<rparr>)))"

text \<open>
  A channel's thread from its first statement: the constructor of \<open>Servlet\<close> opens the connection,
  inside the \<open>try\<close> block.
\<close>

definition thread_start ::
  "env \<Rightarrow> load \<Rightarrow> string \<Rightarrow> string \<Rightarrow> string \<Rightarrow> flag_ptr \<Rightarrow> shared \<Rightarrow> ((error + unit) \<times> shared) option" where
  "thread_start E load server chan tp notify sh =
     (case initiate_file E load ''config.xml'' sh of
        (Inl e, sh1) \<Rightarrow> Some (catch_exception (Inl e) ret
            (\<lambda>e. thenE (print_err ''There was an error:\<newline>'') (print_err (what E e @ ''\<newline>''))) sh1)
      | (Inr c, sh1) \<Rightarrow>
          map_option (map_prod id shared.truncate) (thread_run E server chan tp c notify sh1))"

section \<open>main\<close>

text \<open>
  The result is the exit status, or the exception or undefined behaviour in which the program ends;
  with it the trace. \<open>None\<close>: the program does not end.
\<close>

definition server_main ::
  "env \<Rightarrow> load \<Rightarrow> (16 word \<Rightarrow> endpoint option) \<Rightarrow> string list \<Rightarrow> ((error + int) \<times> event list) option" where
  "server_main E load bind_to argv =
     (if length argv \<noteq> 2 then Some (Inr (- 1), [Ev_print_err ''Usage: ./main <server-port>\<newline>''])
      else (case stoi (argv ! 1) of
              Inl e \<Rightarrow> Some (Inl e, [])
            | Inr port \<Rightarrow>
                (case new_server E load \<lparr>trace = []\<rparr> of
                   (Inl e, w) \<Rightarrow> Some (Inl e, trace w)
                 | (Inr serv, w) \<Rightarrow>
                     map_option (\<lambda>(r, s). (map_sum id (\<lambda>_. 0) r, trace s))
                       (server_run E bind_to port serv))))"

definition client_main ::
  "env \<Rightarrow> string option \<Rightarrow> (string \<Rightarrow> 32 word option) \<Rightarrow> sock \<Rightarrow> string \<Rightarrow> string list
     \<Rightarrow> ((error + int) \<times> event list) option" where
  "client_main E login from_string k input argv =
     (if length argv \<noteq> 3
      then Some (Inr (- 1), [Ev_print_err ''Usage: ./client <server-ip> <server-port>\<newline>''])
      else map_option (\<lambda>(r, s). (map_sum id (\<lambda>_. 0) r, trace s))
             (client_run E login from_string k (argv ! 1) (argv ! 2) (new_client input)))"

section \<open>The start of the server\<close>

text \<open>
  With a configuration that can be read and a database that answers, \<open>main\<close> runs the server on the
  port; \<open>Server_Props\<close> and \<open>Site_Props\<close> say what it does then.
\<close>

lemma new_server_starts:
  assumes "loadDbConfig load ''config.xml'' = Inr db" and "loadServerConfig load ''config.xml'' = Inr cfg"
    and "db_connect E (trace w) (conninfo db) = Some c"
  shows "new_server E load w = (Inr \<lparr>trace = trace w @ [Ev_db_connect (conninfo db)], chan_newusers = [],
      global_socks = [], flags = [], selfdestruct = False, sv_end_msgs = [], sv_notify = [],
      sv_threads = [], sv_conn = c, sv_config = cfg\<rparr>, w\<lparr>trace := trace w @ [Ev_db_connect (conninfo db)]\<rparr>)"
  using assms by (simp add: new_server_def initiate_file_def initiate_def run)

section \<open>Ports\<close>

lemma of_char_digit: "d < 10 \<Longrightarrow> (of_char (digit_char d) :: nat) = 48 + d"
  by (simp add: of_char_of take_bit_eq_mod)

lemma is_digit_char: "d < 10 \<Longrightarrow> is_digit (digit_char d)"
  unfolding is_digit_def of_char_digit by simp

lemma digits_value_snoc: "digits_value (ds @ [c]) = 10 * digits_value ds + (of_char c - 48)"
  by (simp add: digits_value_def)

lemma to_string_digits:
  "to_string n \<noteq> [] \<and> list_all is_digit (to_string n) \<and> digits_value (to_string n) = n"
proof (induction n rule: to_string.induct)
  case (1 n)
  show ?case
  proof (cases "n < 10")
    case True
    then have "to_string n = [digit_char n]" by (simp add: to_string.simps)
    with True show ?thesis
      by (simp add: is_digit_char digits_value_def of_char_digit del: digit_char.simps)
  next
    case False
    then have "to_string n = to_string (n div 10) @ [digit_char (n mod 10)]"
      by (simp add: to_string.simps)
    moreover have "digits_value (to_string (n div 10) @ [digit_char (n mod 10)]) = 10 * (n div 10) + n mod 10"
      unfolding digits_value_snoc using 1 False by (simp add: of_char_digit del: digit_char.simps)
    ultimately show ?thesis
      using 1 False by (simp add: is_digit_char del: digit_char.simps)
  qed
qed

lemma digit_not_space: "is_digit c \<Longrightarrow> \<not> is_space c \<and> c \<noteq> CHR ''-'' \<and> c \<noteq> CHR ''+''"
  by (auto simp: is_digit_def is_space_def)

lemma digits_scan:
  assumes "ds \<noteq> []" and "list_all is_digit ds"
  shows "dropWhile is_space ds = ds" and "hd ds \<noteq> CHR ''-''" and "hd ds \<noteq> CHR ''+''"
    and "takeWhile is_digit ds = ds"
  using assms digit_not_space [of "hd ds"] by (cases ds; auto simp: takeWhile_eq_all_conv list_all_iff)+

text \<open>C38: Client and server understand the same port: a decimal number below 2 to the 31 names the same
  16-bit port on both command lines, its remainder modulo 65536, so a number above 65535 is silently
  another port; from there on the server refuses the number with \<open>out_of_range\<close>, and the client only
  from 2 to the 64.\<close>

theorem ports_agree:
  "the_port (to_string n) = (if n < 2 ^ 64 then Inr (of_nat (n mod 65536)) else Inl Out_of_range)
   \<and> map_sum id word_of_int (stoi (to_string n))
      = (if n < 2 ^ 31 then Inr (of_nat (n mod 65536) :: 16 word) else Inl Out_of_range)"
proof -
  have d: "to_string n \<noteq> []" "list_all is_digit (to_string n)" "digits_value (to_string n) = n"
    using to_string_digits by simp_all
  note scan = digits_scan [OF d(1,2)]
  have wrap: "(of_nat n :: 16 word) = of_nat (n mod 65536)"
    by (simp add: word_of_nat_eq_iff take_bit_eq_mod)
  have "the_port (to_string n) = (if n < 2 ^ 64 then Inr (of_nat n) else Inl Out_of_range)"
    by (simp add: the_port_def stoul_def Let_def digits_value_def [symmetric] unsigned_of_nat not_le
        scan d(1,3) take_bit_nat_eq_self)
  moreover have "map_sum id word_of_int (stoi (to_string n))
      = (if n < 2 ^ 31 then Inr (of_nat n :: 16 word) else Inl Out_of_range)"
    by (simp add: stoi_def Let_def scan d(1,3))
  ultimately show ?thesis using wrap by simp
qed

end
